(* ===== verification/GoPrelude.thy ===== *)
theory GoPrelude
  imports Main "HOL-Library.Word" "HOL-Library.Sublist" "HOL-Library.Multiset"
    "HOL-Library.AList" "HOL-Library.Char_ord" "HOL-Library.List_Lexorder"
begin

text \<open>
  Shared vocabulary of the development: Go strings and byte slices, machine integers, error
  values, fallible results, and the contract of invariants of step relations.

  A Go string is a sequence of bytes; the 8-bit characters of HOL are exactly bytes, so a string
  and a byte slice are both a \<open>char list\<close>. A Go \<open>uint\<close> is 64 bits wide on the platforms
  the plugin is built for by default, and \<open>int(x)\<close> of such a value reads the same bits as two's
  complement.
\<close>

type_synonym bytes = "char list"
type_synonym uint = "64 word"

text \<open>
  The error values the program builds or passes on. \<open>ExtErr\<close> carries the text of an error that
  comes from outside the repository (the operating system, a library); \<open>GoPanic\<close> is not a value
  of the Go type \<open>error\<close> but a run-time panic, kept in the same type so that a model can show
  that it is never reached.
\<close>

datatype go_error =
    TrailingEscape bytes
  | EmptyKey bytes
  | NumSyntax bytes
  | NumRange bytes
  | ListenerNotFound
  | TransporterNotFound
  | NilController
  | NoCertSpecified
  | ClosedPipe
  | SessionClosed
  | UnexpectedStatus nat
  | UnexpectedALPN bytes
  | AddrError bytes bytes
  | ProtectFailed nat
  | CorruptInput nat
  | ExtErr bytes
  | GoPanic bytes

type_synonym 'a result = "go_error + 'a"

text \<open>
  A value of the interface type \<open>net.Addr\<close> that is not the nil interface: an IP address in its text
  form with a port, or a nil pointer to such a structure. A nil pointer stored in an interface is
  not equal to nil; the nil interface is \<open>None\<close> of \<open>net_addr option\<close>.
\<close>

datatype net_addr = TCPAddr bytes nat | UDPAddr bytes nat | NilTCPAddr | NilUDPAddr

definition bind_result :: "'a result \<Rightarrow> ('a \<Rightarrow> 'b result) \<Rightarrow> 'b result" where
  "bind_result r f = (case r of Inl e \<Rightarrow> Inl e | Inr x \<Rightarrow> f x)"

lemma bind_result_simps [simp]:
  "bind_result (Inl e) f = Inl e"
  "bind_result (Inr x) f = f x"
  by (simp_all add: bind_result_def)

lemma bind_result_eq_Inr:
  "bind_result r f = Inr y \<longleftrightarrow> (\<exists>x. r = Inr x \<and> f x = Inr y)"
  by (cases r) auto

lemma bind_result_eq_Inl:
  "bind_result r f = Inl e \<longleftrightarrow> r = Inl e \<or> (\<exists>x. r = Inr x \<and> f x = Inl e)"
  by (cases r) auto

definition is_panic :: "go_error \<Rightarrow> bool" where
  "is_panic e = (case e of GoPanic _ \<Rightarrow> True | _ \<Rightarrow> False)"

lemma is_panic_simps [simp]:
  "is_panic (GoPanic m)"
  "\<not> is_panic (TrailingEscape s)" "\<not> is_panic (EmptyKey s)"
  "\<not> is_panic (NumSyntax s)" "\<not> is_panic (NumRange s)"
  "\<not> is_panic ListenerNotFound" "\<not> is_panic TransporterNotFound"
  "\<not> is_panic NilController" "\<not> is_panic NoCertSpecified"
  "\<not> is_panic ClosedPipe" "\<not> is_panic SessionClosed" "\<not> is_panic (ExtErr t)"
  by (simp_all add: is_panic_def)

subsection \<open>Indexing and slicing with Go's bounds checks\<close>

definition go_index :: "'a list \<Rightarrow> nat \<Rightarrow> 'a result" where
  "go_index s i = (if i < length s then Inr (s ! i) else Inl (GoPanic ''index out of range''))"

definition go_slice_from :: "'a list \<Rightarrow> nat \<Rightarrow> 'a list result" where
  "go_slice_from s i =
     (if i \<le> length s then Inr (drop i s) else Inl (GoPanic ''slice bounds out of range''))"

lemma go_index_ok [simp]: "i < length s \<Longrightarrow> go_index s i = Inr (s ! i)"
  by (simp add: go_index_def)

lemma go_slice_from_ok [simp]: "i \<le> length s \<Longrightarrow> go_slice_from s i = Inr (drop i s)"
  by (simp add: go_slice_from_def)

text \<open>
  The builtin \<open>copy(b, src)\<close> into a slice of length \<open>n\<close> moves \<open>min n (len src)\<close> bytes;
  what the callers look at is the copied prefix and the rest.
\<close>

definition go_copy :: "nat \<Rightarrow> 'a list \<Rightarrow> 'a list \<times> 'a list" where
  "go_copy n src = (take n src, drop n src)"

lemma go_copy_append: "go_copy n src = (d, r) \<Longrightarrow> src = d @ r"
  by (auto simp: go_copy_def)

lemma go_copy_length: "go_copy n src = (d, r) \<Longrightarrow> length d = min n (length src)"
  by (auto simp: go_copy_def)

subsection \<open>Generic list and map facts\<close>

lemma drop_eq_nth_Cons: "i < length s \<Longrightarrow> drop i s = s ! i # drop (Suc i) s"
  by (rule Cons_nth_drop_Suc [symmetric])

lemma map_of_eq_mset:
  assumes "distinct (map fst xs)" and "distinct (map fst ys)" and "map_of xs = map_of ys"
  shows "mset xs = mset ys"
proof -
  have "set xs = set ys"
    using assms by (metis map_of_inject_set)
  moreover have "distinct xs" and "distinct ys"
    using assms(1,2) by (simp_all add: distinct_map)
  ultimately show ?thesis by (simp add: set_eq_iff_mset_eq_distinct)
qed

lemma subseq_snoc: "subseq xs ys \<Longrightarrow> subseq (xs @ [x]) (ys @ [x])"
  by (simp add: list_emb_append_mono)

lemma subseq_skip: "subseq xs ys \<Longrightarrow> subseq xs (ys @ [x])"
  using list_emb_append_mono [of "(=)" xs ys "[]" "[x]"] by simp

subsection \<open>Reading 64 bits as a signed number\<close>

lemma sint_low: "unat (x :: 64 word) < 2 ^ 63 \<Longrightarrow> sint x = int (unat x)"
proof -
  assume "unat x < 2 ^ 63"
  then have "int (unat x) < 2 ^ 63" by (simp only: of_nat_less_numeral_power_cancel_iff)
  then have u: "uint x < 2 ^ 63" by simp
  have "- (2 ^ 63) \<le> uint x" by (rule order_trans [OF _ uint_ge_0]) simp
  with u have "sint x = uint x" by (simp add: sint_uint signed_take_bit_int_eq_self_iff del: power_numeral)
  then show ?thesis by simp
qed

lemma sint_high: "2 ^ 63 \<le> unat (x :: 64 word) \<Longrightarrow> sint x < 0"
proof -
  assume "2 ^ 63 \<le> unat x"
  then have "2 ^ 63 \<le> int (unat x)" by (simp only: numeral_power_le_of_nat_cancel_iff)
  then have a: "2 ^ 63 \<le> uint x" by simp
  show "sint x < 0"
  proof (rule ccontr)
    assume n: "\<not> sint x < 0"
    have l: "sint x < 2 ^ 63" using sint_lt [of x] by simp
    have "uint x = sint x mod 2 ^ 64" by (simp add: uint_sint take_bit_eq_mod del: power_numeral)
    also have "\<dots> = sint x" using n l by (intro mod_pos_pos_trivial) (simp_all add: order.strict_trans [OF l])
    finally show False using a l by linarith
  qed
qed

subsection \<open>Invariants of step relations\<close>

text \<open>
  The components that are driven by several goroutines are step relations. What every step
  preserves holds in every state reached.
\<close>

locale step_invariant =
  fixes step :: "'s \<Rightarrow> 's \<Rightarrow> bool"
    and inv :: "'s \<Rightarrow> bool"
  assumes preserved: "step s t \<Longrightarrow> inv s \<Longrightarrow> inv t"
begin

lemma reachable: "step\<^sup>*\<^sup>* s t \<Longrightarrow> inv s \<Longrightarrow> inv t"
  by (induction rule: rtranclp_induct) (auto intro: preserved)

lemma reachable_from: "inv s \<Longrightarrow> step\<^sup>*\<^sup>* s t \<Longrightarrow> step\<^sup>*\<^sup>* t u \<Longrightarrow> inv t \<and> inv u"
  using reachable rtranclp_trans [of step s t u] by blast

end

end
