(* ===== verification/GoStrings.thy ===== *)
theory GoStrings
  imports GoPrelude
begin

text \<open>
  The parts of Go's standard library that work on strings and that the program relies on:
  \<open>strings.Contains\<close>, \<open>strings.HasPrefix\<close>, \<open>strings.ToLower\<close>, \<open>bytes.IndexByte\<close>, the verb
  \<open>%d\<close> of \<open>fmt\<close>, \<open>strconv.ParseUint\<close> in base 10 and \<open>net.SplitHostPort\<close>, with the lemmas
  that relate them.
\<close>

section \<open>Searching\<close>

fun strings_HasPrefix :: "bytes \<Rightarrow> bytes \<Rightarrow> bool" where
  "strings_HasPrefix s [] = True"
| "strings_HasPrefix [] (p # ps) = False"
| "strings_HasPrefix (c # s) (p # ps) = (c = p \<and> strings_HasPrefix s ps)"

fun strings_Contains :: "bytes \<Rightarrow> bytes \<Rightarrow> bool" where
  "strings_Contains [] sub = (sub = [])"
| "strings_Contains (c # s) sub = (strings_HasPrefix (c # s) sub \<or> strings_Contains s sub)"

lemma strings_HasPrefix_prefix: "strings_HasPrefix s p \<longleftrightarrow> prefix p s"
  by (induction s p rule: strings_HasPrefix.induct) auto

lemma strings_Contains_sublist: "strings_Contains s sub \<longleftrightarrow> sublist sub s"
  by (induction s sub rule: strings_Contains.induct)
    (auto simp: strings_HasPrefix_prefix sublist_Cons_right)

lemma strings_Contains_byte [simp]: "strings_Contains s [c] \<longleftrightarrow> c \<in> set s"
  by (induction s) (auto simp: strings_HasPrefix_prefix)

text \<open>\<open>bytes.IndexByte(bs, b) != -1\<close> is membership.\<close>

definition bytes_HasByte :: "bytes \<Rightarrow> char \<Rightarrow> bool" where
  "bytes_HasByte bs b = List.member bs b"

lemma bytes_HasByte_iff [simp]: "bytes_HasByte xs b \<longleftrightarrow> b \<in> set xs"
  by (simp add: bytes_HasByte_def)

text \<open>The first and the last position of a byte; \<open>None\<close> stands for \<open>-1\<close>.\<close>

fun index_byte :: "bytes \<Rightarrow> char \<Rightarrow> nat option" where
  "index_byte [] b = None"
| "index_byte (c # s) b = (if c = b then Some 0 else map_option Suc (index_byte s b))"

definition last_byte :: "bytes \<Rightarrow> char \<Rightarrow> nat option" where
  "last_byte s b = map_option (\<lambda>k. length s - 1 - k) (index_byte (rev s) b)"

lemma index_byte_append_notin [simp]:
  "b \<notin> set xs \<Longrightarrow> index_byte (xs @ ys) b = map_option ((+) (length xs)) (index_byte ys b)"
  by (induction xs; cases "index_byte ys b") auto

lemma index_byte_None [simp]: "b \<notin> set s \<Longrightarrow> index_byte s b = None"
  by (induction s) auto

lemma last_byte_snoc_notin:
  assumes "b \<notin> set ys"
  shows "last_byte (xs @ b # ys) b = Some (length xs)"
  using assms by (simp add: last_byte_def)

section \<open>Case folding\<close>

text \<open>
  \<open>strings.ToLower\<close>. On ASCII it maps \<open>A\<close>--\<open>Z\<close> to \<open>a\<close>--\<open>z\<close>. Exactly two runes outside
  ASCII have an ASCII lower case: U+0130 (bytes C4 B0) maps to \<open>i\<close> and U+212A (bytes E2 84 AA)
  maps to \<open>k\<close>. Every other rune outside ASCII maps to bytes outside ASCII; they are left as they
  are here, which no comparison of the result with an ASCII literal can notice.
\<close>

definition lower_byte :: "char \<Rightarrow> char" where
  "lower_byte c = (if CHR ''A'' \<le> c \<and> c \<le> CHR ''Z'' then char_of (of_char c + (32::nat)) else c)"

fun strings_ToLower :: "bytes \<Rightarrow> bytes" where
  "strings_ToLower (c # d # e # s) =
     (if c = CHR 0xC4 \<and> d = CHR 0xB0 then CHR ''i'' # strings_ToLower (e # s)
      else if c = CHR 0xE2 \<and> d = CHR 0x84 \<and> e = CHR 0xAA then CHR ''k'' # strings_ToLower s
      else lower_byte c # strings_ToLower (d # e # s))"
| "strings_ToLower [c, d] =
     (if c = CHR 0xC4 \<and> d = CHR 0xB0 then ''i'' else [lower_byte c, lower_byte d])"
| "strings_ToLower [c] = [lower_byte c]"
| "strings_ToLower [] = []"

section \<open>Decimal numbers\<close>

definition digit :: "nat \<Rightarrow> char" where
  "digit d = char_of (48 + d)"

definition is_digit :: "char \<Rightarrow> bool" where
  "is_digit c \<longleftrightarrow> CHR ''0'' \<le> c \<and> c \<le> CHR ''9''"

definition digit_val :: "char \<Rightarrow> nat" where
  "digit_val c = of_char c - 48"

fun decimal :: "nat \<Rightarrow> bytes" where
  "decimal n = (if n < 10 then [digit n] else decimal (n div 10) @ [digit (n mod 10)])"

declare decimal.simps [simp del]

lemma of_char_digit [simp]: "d < 10 \<Longrightarrow> (of_char (digit d) :: nat) = 48 + d"
  by (simp add: digit_def)

lemma is_digit_iff: "is_digit c \<longleftrightarrow> 48 \<le> (of_char c :: nat) \<and> (of_char c :: nat) \<le> 57"
  by (simp add: is_digit_def less_eq_char_def)

lemma is_digit_digit [simp]: "d < 10 \<Longrightarrow> is_digit (digit d)"
  by (simp add: is_digit_iff)

lemma digit_val_digit [simp]: "d < 10 \<Longrightarrow> digit_val (digit d) = d"
  by (simp add: digit_val_def)

lemma digit_val_less: "is_digit c \<Longrightarrow> digit_val c < 10"
  unfolding is_digit_iff digit_val_def by linarith

lemma not_digit_simps [simp]:
  "\<not> is_digit CHR '':''" "\<not> is_digit CHR ''[''" "\<not> is_digit CHR '']''" "\<not> is_digit CHR '';''"
  by (simp_all add: is_digit_iff)

lemma decimal_ne_Nil [simp]: "decimal n \<noteq> []"
  by (subst decimal.simps) simp

lemma decimal_digits: "c \<in> set (decimal n) \<Longrightarrow> is_digit c"
proof (induction n rule: decimal.induct)
  case (1 n)
  then show ?case
    by (cases "n < 10") (auto simp: decimal.simps [of n])
qed

text \<open>The value of a digit string, read from the left.\<close>

definition digits_value :: "bytes \<Rightarrow> nat" where
  "digits_value s = foldl (\<lambda>n c. n * 10 + digit_val c) 0 s"

lemma digits_value_snoc [simp]: "digits_value (s @ [c]) = digits_value s * 10 + digit_val c"
  by (simp add: digits_value_def)

lemma digits_value_Nil [simp]: "digits_value [] = 0"
  by (simp add: digits_value_def)

lemma digits_value_decimal [simp]: "digits_value (decimal n) = n"
proof (induction n rule: decimal.induct)
  case (1 n)
  show ?case
  proof (cases "n < 10")
    case True
    then show ?thesis by (simp add: decimal.simps [of n] digits_value_def)
  next
    case False
    with 1 show ?thesis by (simp add: decimal.simps [of n])
  qed
qed


subsection \<open>strconv.ParseUint in base 10\<close>

text \<open>
  The loop of \<open>strconv.ParseUint(s, 10, bitSize)\<close> works on \<open>uint64\<close>: a byte that is not a digit
  is a syntax error (a letter is a digit too large for the base); \<open>n >= cutoff\<close> guards the
  multiplication, with \<open>cutoff = maxUint64 / 10 + 1\<close>; \<open>n1 < n\<close> detects the wrap-around of the
  addition and \<open>n1 > maxVal\<close> the bit size. The error carries the whole input.
\<close>

fun parse_uint_loop :: "bytes \<Rightarrow> uint \<Rightarrow> uint \<Rightarrow> bytes \<Rightarrow> uint result" where
  "parse_uint_loop s0 maxVal n [] = Inr n"
| "parse_uint_loop s0 maxVal n (c # cs) =
     (if \<not> is_digit c then Inl (NumSyntax s0)
      else if 1844674407370955162 \<le> n then Inl (NumRange s0)
      else let m = n * 10; n1 = m + of_nat (digit_val c)
           in if n1 < m \<or> maxVal < n1 then Inl (NumRange s0) else parse_uint_loop s0 maxVal n1 cs)"

definition ParseUint :: "bytes \<Rightarrow> nat \<Rightarrow> uint result" where
  "ParseUint s bitSize =
     (if s = [] then Inl (NumSyntax s) else parse_uint_loop s (push_bit bitSize 1 - 1) 0 s)"

text \<open>The same on natural numbers: no wrap-around, only the bound of the bit size.\<close>

fun parse_nat :: "bytes \<Rightarrow> nat \<Rightarrow> nat \<Rightarrow> bytes \<Rightarrow> nat result" where
  "parse_nat s0 bits n [] = Inr n"
| "parse_nat s0 bits n (c # cs) =
     (if \<not> is_digit c then Inl (NumSyntax s0)
      else if 2 ^ bits \<le> n * 10 + digit_val c then Inl (NumRange s0)
      else parse_nat s0 bits (n * 10 + digit_val c) cs)"

definition uint_of_nat_result :: "nat result \<Rightarrow> uint result" where
  "uint_of_nat_result r = (case r of Inl e \<Rightarrow> Inl e | Inr n \<Rightarrow> Inr (of_nat n))"

lemma uint_of_nat_result_simps [simp]:
  "uint_of_nat_result (Inl e) = Inl e" "uint_of_nat_result (Inr n) = Inr (of_nat n)"
  by (simp_all add: uint_of_nat_result_def)

lemma unat_of_nat_small: "n < 2 ^ 64 \<Longrightarrow> unat (of_nat n :: uint) = n"
  by (simp add: unat_of_nat take_bit_nat_eq_self)

lemma pow_le_32: "bits \<le> 32 \<Longrightarrow> (2::nat) ^ bits \<le> 4294967296"
  using power_increasing [of bits 32 "2::nat"] by simp

lemma unat_max_val: "bits \<le> 32 \<Longrightarrow> unat (push_bit bits 1 - 1 :: uint) = 2 ^ bits - 1"
proof -
  assume b: "bits \<le> 32"
  have p: "push_bit bits (1::uint) = of_nat (2 ^ bits)"
    by (simp add: push_bit_eq_mult)
  have "push_bit bits (1::uint) - 1 = of_nat (2 ^ bits - 1)"
    by (simp add: p of_nat_diff)
  moreover have "(2::nat) ^ bits - 1 < 2 ^ 64"
    using pow_le_32 [OF b] by simp
  ultimately show ?thesis by (simp only: unat_of_nat_small)
qed

lemma parse_uint_loop_nat:
  assumes "bits \<le> 32" and "n < 2 ^ bits"
  shows "parse_uint_loop s0 (push_bit bits 1 - 1) (of_nat n) cs
         = uint_of_nat_result (parse_nat s0 bits n cs)"
  using assms(2)
proof (induction cs arbitrary: n)
  case Nil
  then show ?case by simp
next
  case (Cons c cs)
  show ?case
  proof (cases "is_digit c")
    case False
    then show ?thesis by simp
  next
    case True
    let ?v = "n * 10 + digit_val c"
    have n: "n < 4294967296" using Cons.prems pow_le_32 [OF assms(1)] by linarith
    have d: "digit_val c < 10" using True by (rule digit_val_less)
    have cutoff: "\<not> 1844674407370955162 \<le> (of_nat n :: uint)"
      using n by (simp add: word_le_nat_alt unat_of_nat_small)
    have mul: "(of_nat n :: uint) * 10 = of_nat (n * 10)" by simp
    have add: "(of_nat (n * 10) :: uint) + of_nat (digit_val c) = of_nat ?v" by simp
    have nowrap: "\<not> (of_nat ?v :: uint) < of_nat (n * 10)"
      using n d by (simp add: word_less_nat_alt unat_of_nat_small del: of_nat_add of_nat_mult)
    have big: "(push_bit bits 1 - 1 :: uint) < of_nat ?v \<longleftrightarrow> 2 ^ bits \<le> ?v"
    proof -
      have "?v < 2 ^ 64" using n d by simp
      moreover have "(2::nat) ^ bits - 1 < ?v \<longleftrightarrow> 2 ^ bits \<le> ?v"
        using zero_less_power [of "2::nat" bits] by linarith
      ultimately show ?thesis
        unfolding word_less_nat_alt unat_max_val [OF assms(1)] by (simp only: unat_of_nat_small)
    qed
    have step: "parse_uint_loop s0 (push_bit bits 1 - 1) (of_nat n) (c # cs) =
        (if 2 ^ bits \<le> ?v then Inl (NumRange s0)
         else parse_uint_loop s0 (push_bit bits 1 - 1) (of_nat ?v) cs)"
      unfolding parse_uint_loop.simps Let_def mul add using True cutoff nowrap big by simp
    show ?thesis using True Cons.IH [of ?v] unfolding step by simp
  qed
qed

lemma ParseUint_nat:
  assumes "bits \<le> 32"
  shows "ParseUint s bits =
    (if s = [] then Inl (NumSyntax s) else uint_of_nat_result (parse_nat s bits 0 s))"
  using parse_uint_loop_nat [OF assms, of 0 s s] by (simp add: ParseUint_def)

lemma parse_nat_ok:
  assumes "\<forall>c \<in> set cs. is_digit c" and "foldl (\<lambda>n c. n * 10 + digit_val c) n cs < 2 ^ bits"
  shows "parse_nat s0 bits n cs = Inr (foldl (\<lambda>n c. n * 10 + digit_val c) n cs)"
  using assms
proof (induction cs arbitrary: n)
  case (Cons c cs)
  let ?f = "foldl (\<lambda>n c. n * 10 + digit_val c)"
  have mono: "k \<le> ?f k xs" for k :: nat and xs
  proof (induction xs arbitrary: k)
    case (Cons a xs)
    show ?case using Cons.IH [of "k * 10 + digit_val a"] by simp
  qed simp
  have "n * 10 + digit_val c < 2 ^ bits"
    using mono [of "n * 10 + digit_val c" cs] Cons.prems(2) by simp
  with Cons show ?case by simp
qed simp

lemma parse_nat_Inr:
  assumes "parse_nat s0 bits n cs = Inr m" and "n < 2 ^ bits"
  shows "(\<forall>c \<in> set cs. is_digit c) \<and> m = foldl (\<lambda>n c. n * 10 + digit_val c) n cs \<and> m < 2 ^ bits"
  using assms by (induction cs arbitrary: n) (auto split: if_splits)

lemma parse_nat_Inl: "parse_nat s0 bits n cs = Inl e \<Longrightarrow> e = NumSyntax s0 \<or> e = NumRange s0"
  by (induction cs arbitrary: n) (auto split: if_splits)

text \<open>
  What the callers rely on: the value is returned exactly for a nonempty string of digits whose
  value fits into the bit size.
\<close>

lemma ParseUint_Inr:
  assumes "bits \<le> 32"
  shows "ParseUint s bits = Inr w \<longleftrightarrow>
    s \<noteq> [] \<and> (\<forall>c \<in> set s. is_digit c) \<and> digits_value s < 2 ^ bits \<and> w = of_nat (digits_value s)"
  (is "?l \<longleftrightarrow> ?r")
proof
  assume ?l
  then obtain m where "s \<noteq> []" and m: "parse_nat s bits 0 s = Inr m" and "w = of_nat m"
    by (auto simp: ParseUint_nat [OF assms] uint_of_nat_result_def split: if_splits sum.splits)
  then show ?r
    using parse_nat_Inr [OF m] by (auto simp: digits_value_def)
next
  assume ?r
  then show ?l
    by (simp add: ParseUint_nat [OF assms] parse_nat_ok digits_value_def)
qed

lemma ParseUint_Inl:
  assumes "bits \<le> 32" and "ParseUint s bits = Inl e"
  shows "e = NumSyntax s \<or> e = NumRange s"
  using assms(2) parse_nat_Inl [of s bits 0 s]
  by (auto simp: ParseUint_nat [OF assms(1)] uint_of_nat_result_def split: if_splits sum.splits)

lemma ParseUint_decimal:
  assumes "bits \<le> 32" and "n < 2 ^ bits"
  shows "ParseUint (decimal n) bits = Inr (of_nat n)"
  using assms(2) by (simp add: ParseUint_Inr [OF assms(1)] decimal_digits)


section \<open>net.SplitHostPort\<close>

text \<open>
  The port starts after the last colon; a host in brackets must close just before it; without
  brackets the host holds no colon. Positions are byte offsets, as in the library.
\<close>

definition SplitHostPort :: "bytes \<Rightarrow> (bytes \<times> bytes) result" where
  "SplitHostPort hp =
     (let missingPort = ''missing port in address'';
          tooManyColons = ''too many colons in address'';
          finish = (\<lambda>host j k i.
            if CHR ''['' \<in> set (drop j hp) then Inl (AddrError ''unexpected '[' in address'' hp)
            else if CHR '']'' \<in> set (drop k hp) then Inl (AddrError ''unexpected ']' in address'' hp)
            else Inr (host, drop (i + 1) hp))
      in case last_byte hp CHR '':'' of
           None \<Rightarrow> Inl (AddrError missingPort hp)
         | Some i \<Rightarrow>
             if hp ! 0 = CHR ''['' then
               (case index_byte hp CHR '']'' of
                  None \<Rightarrow> Inl (AddrError ''missing ']' in address'' hp)
                | Some end \<Rightarrow>
                    if end + 1 = length hp then Inl (AddrError missingPort hp)
                    else if end + 1 = i then finish (take (end - 1) (drop 1 hp)) 1 (end + 1) i
                    else if hp ! (end + 1) = CHR '':'' then Inl (AddrError tooManyColons hp)
                    else Inl (AddrError missingPort hp))
             else if CHR '':'' \<in> set (take i hp) then Inl (AddrError tooManyColons hp)
             else finish (take i hp) 0 0 i)"

lemma SplitHostPort_plain:
  assumes "CHR '':'' \<notin> set host" "CHR ''['' \<notin> set host" "CHR '']'' \<notin> set host"
    and "\<forall>c \<in> set port. is_digit c"
  shows "SplitHostPort (host @ '':'' @ port) = Inr (host, port)"
proof -
  have "CHR '':'' \<notin> set port" "CHR ''['' \<notin> set port" "CHR '']'' \<notin> set port"
    using assms(4) by auto
  moreover have "(host @ CHR '':'' # port) ! 0 \<noteq> CHR ''[''"
    using assms(2) by (cases host) auto
  ultimately show ?thesis
    using assms(1-3) by (simp add: SplitHostPort_def Let_def last_byte_snoc_notin)
qed

lemma SplitHostPort_bracketed:
  assumes "CHR ''['' \<notin> set host" "CHR '']'' \<notin> set host"
    and "\<forall>c \<in> set port. is_digit c"
  shows "SplitHostPort (''['' @ host @ '']:'' @ port) = Inr (host, port)"
proof -
  have p: "CHR '':'' \<notin> set port" "CHR ''['' \<notin> set port" "CHR '']'' \<notin> set port"
    using assms(3) by auto
  let ?hp = "CHR ''['' # host @ CHR '']'' # CHR '':'' # port"
  have "last_byte ((CHR ''['' # host @ [CHR '']'']) @ CHR '':'' # port) CHR '':''
      = Some (length (CHR ''['' # host @ [CHR '']'']))"
    using p(1) by (rule last_byte_snoc_notin)
  then have l: "last_byte ?hp CHR '':'' = Some (length host + 2)" by simp
  have e: "index_byte ?hp CHR '']'' = Some (length host + 1)"
    using assms(2) by simp
  show ?thesis
    using assms(1,2) p by (simp add: SplitHostPort_def Let_def l e)
qed

end
