(* ===== verification/IPText.thy ===== *)
theory IPText
  imports GoStrings
begin

text \<open>
  \<open>net.ParseIP\<close> of the Go library, as far as src/gost/proxy/client/tls.go uses it: whether a text is
  an IP address. An IPv4 address is four decimal fields without superfluous zeros, an IPv6 address
  up to eight hexadecimal fields with at most one \<open>::\<close> and possibly an IPv4 address at its end; an
  address with a zone is not accepted.
\<close>

section \<open>IPv4\<close>

text \<open>\<open>val\<close> and \<open>digs\<close> are the value and the number of digits of the current field, \<open>pos\<close> its index.\<close>

fun ipv4_fields :: "nat \<Rightarrow> nat \<Rightarrow> nat \<Rightarrow> bytes \<Rightarrow> bool" where
  "ipv4_fields val digs pos [] = (pos = 3 \<and> 0 < digs)"
| "ipv4_fields val digs pos (c # s) =
     (if is_digit c then
        if digs = 1 \<and> val = 0 then False
        else if val * 10 + digit_val c > 255 then False
        else ipv4_fields (val * 10 + digit_val c) (Suc digs) pos s
      else if c = CHR ''.'' then
        if digs = 0 \<or> s = [] then False
        else if pos = 3 then False
        else ipv4_fields 0 0 (Suc pos) s
      else False)"

definition parseIPv4 :: "bytes \<Rightarrow> bool" where
  "parseIPv4 s = ipv4_fields 0 0 0 s"

section \<open>IPv6\<close>

definition is_hex :: "char \<Rightarrow> bool" where
  "is_hex c \<longleftrightarrow> is_digit c \<or> (97 \<le> (of_char c :: nat) \<and> (of_char c :: nat) \<le> 102) \<or>
     (65 \<le> (of_char c :: nat) \<and> (of_char c :: nat) \<le> 70)"

text \<open>
  The loop over the fields: \<open>i\<close> counts the bytes of the address so far, \<open>ell\<close> is whether the ellipsis
  was seen. The result is the number of bytes, or \<open>None\<close> for a malformed text.
\<close>

function ipv6_fields :: "bytes \<Rightarrow> nat \<Rightarrow> bool \<Rightarrow> (nat \<times> bool) option" where
  "ipv6_fields s i ell =
     (if 16 \<le> i then (if s = [] then Some (i, ell) else None)
      else
        let field = takeWhile is_hex s; rest = dropWhile is_hex s in
        if field = [] \<or> 4 < length field then None
        else if rest \<noteq> [] \<and> hd rest = CHR ''.'' then
          if \<not> ell \<and> i \<noteq> 12 then None
          else if 16 < i + 4 then None
          else if parseIPv4 s then Some (i + 4, ell) else None
        else
          (case rest of
             [] \<Rightarrow> Some (i + 2, ell)
           | c # s' \<Rightarrow>
               if c \<noteq> CHR '':'' \<or> s' = [] then None
               else if hd s' = CHR '':'' then
                 if ell then None
                 else if tl s' = [] then Some (i + 2, True)
                 else ipv6_fields (tl s') (i + 2) True
               else ipv6_fields s' (i + 2) ell))"
  by pat_completeness auto
termination
  by (relation "measure (\<lambda>(s, i, ell). 16 - i)") auto

declare ipv6_fields.simps [simp del]

definition parseIPv6 :: "bytes \<Rightarrow> bool" where
  "parseIPv6 s =
     (let lead = strings_HasPrefix s ''::''; s' = (if lead then drop 2 s else s) in
      if lead \<and> s' = [] then True
      else case ipv6_fields s' 0 lead of
        None \<Rightarrow> False
      | Some (i, ell) \<Rightarrow> if i < 16 then ell else \<not> ell)"

text \<open>The first dot or colon decides which of the two it is; \<open>%\<close> starts a zone.\<close>

fun ip_kind :: "bytes \<Rightarrow> char option" where
  "ip_kind [] = None"
| "ip_kind (c # s) = (if c \<in> {CHR ''.'', CHR '':'', CHR ''%''} then Some c else ip_kind s)"

definition ParseIP_ok :: "bytes \<Rightarrow> bool" where
  "ParseIP_ok s =
     (case ip_kind s of
        Some c \<Rightarrow> if c = CHR ''.'' then parseIPv4 s
                  else if c = CHR '':'' then CHR ''%'' \<notin> set s \<and> parseIPv6 s
                  else False
      | None \<Rightarrow> False)"

lemma ip_kind_None: "ip_kind s = None \<longleftrightarrow> CHR ''.'' \<notin> set s \<and> CHR '':'' \<notin> set s \<and> CHR ''%'' \<notin> set s"
  by (induction s) auto

lemma ip_kind_Some: "ip_kind s = Some c \<Longrightarrow> c \<in> set s"
  by (induction s) (auto split: if_splits)

text \<open>A host name without a dot and a colon is no address.\<close>

lemma host_without_separator: "CHR ''.'' \<notin> set s \<Longrightarrow> CHR '':'' \<notin> set s \<Longrightarrow> \<not> ParseIP_ok s"
  by (cases "ip_kind s") (auto simp: ParseIP_ok_def dest: ip_kind_Some)

text \<open>A text in brackets is no address.\<close>

lemma bracketed_no_ip: "\<not> ParseIP_ok (CHR ''['' # s)"
proof -
  have d: "\<not> is_digit (CHR ''['')" and h: "\<not> is_hex (CHR ''['')" by (simp_all add: is_digit_iff is_hex_def)
  have "\<not> parseIPv6 (CHR ''['' # s)"
    by (simp add: parseIPv6_def Let_def ipv6_fields.simps [of "CHR ''['' # s"] h)
  then show ?thesis by (simp add: ParseIP_ok_def parseIPv4_def d split: option.split)
qed

section \<open>Dotted decimal addresses\<close>

lemma decimal_cases:
  assumes "n < 1000"
  obtains (one) "n < 10" "decimal n = [digit n]"
  | (two) a b where "n = a * 10 + b" "0 < a" "a < 10" "b < 10" "decimal n = [digit a, digit b]"
  | (three) a b c where "n = (a * 10 + b) * 10 + c" "0 < a" "a < 10" "b < 10" "c < 10"
      "decimal n = [digit a, digit b, digit c]"
proof -
  consider "n < 10" | "10 \<le> n" "n < 100" | "100 \<le> n" by linarith
  then show ?thesis
  proof cases
    case 1
    then show ?thesis by (intro one) (simp_all add: decimal.simps [of n])
  next
    case 2
    then have "decimal n = [digit (n div 10), digit (n mod 10)]" "0 < n div 10" "n div 10 < 10"
      by (simp_all add: decimal.simps [of n] decimal.simps [of "n div 10"])
    then show ?thesis by (intro two [of "n div 10" "n mod 10"]) simp_all
  next
    case 3
    have "n div 10 div 10 < 10" "0 < n div 10 div 10" using 3 assms by linarith+
    moreover from this have "decimal n = [digit (n div 10 div 10), digit (n div 10 mod 10), digit (n mod 10)]"
      using 3 by (simp add: decimal.simps [of n] decimal.simps [of "n div 10"] decimal.simps [of "n div 10 div 10"])
    ultimately show ?thesis by (intro three [of "n div 10 div 10" "n div 10 mod 10" "n mod 10"]) simp_all
  qed
qed

lemma ipv4_field_decimal:
  assumes "n < 256"
  shows "\<exists>digs. 0 < digs \<and> ipv4_fields 0 0 pos (decimal n @ rest) = ipv4_fields n digs pos rest"
proof -
  have "n < 1000" using assms by simp
  then show ?thesis
  proof (cases rule: decimal_cases)
    case one
    then show ?thesis using assms by (intro exI [of _ 1]) simp
  next
    case (two a b)
    then show ?thesis using assms by (intro exI [of _ 2]) (simp add: numeral_2_eq_2)
  next
    case (three a b c)
    then have "a * 10 + b \<le> 255" using assms by linarith
    with three show ?thesis using assms by (intro exI [of _ 3]) (simp add: numeral_3_eq_3)
  qed
qed

lemma ipv4_dot: "0 < digs \<Longrightarrow> s \<noteq> [] \<Longrightarrow> pos \<noteq> 3 \<Longrightarrow>
    ipv4_fields n digs pos (CHR ''.'' # s) = ipv4_fields 0 0 (Suc pos) s"
  by (simp add: is_digit_iff)

definition dotted :: "nat \<Rightarrow> nat \<Rightarrow> nat \<Rightarrow> nat \<Rightarrow> bytes" where
  "dotted a b c d = decimal a @ ''.'' @ decimal b @ ''.'' @ decimal c @ ''.'' @ decimal d"

lemma parseIPv4_dotted:
  assumes "a < 256" "b < 256" "c < 256" "d < 256"
  shows "parseIPv4 (dotted a b c d)"
proof -
  obtain m1 where 1: "0 < m1" "ipv4_fields 0 0 0 (decimal a @ ''.'' @ decimal b @ ''.'' @ decimal c @ ''.'' @ decimal d) =
      ipv4_fields a m1 0 (''.'' @ decimal b @ ''.'' @ decimal c @ ''.'' @ decimal d)"
    using ipv4_field_decimal [OF assms(1)] by blast
  obtain m2 where 2: "0 < m2" "ipv4_fields 0 0 1 (decimal b @ ''.'' @ decimal c @ ''.'' @ decimal d) =
      ipv4_fields b m2 1 (''.'' @ decimal c @ ''.'' @ decimal d)"
    using ipv4_field_decimal [OF assms(2)] by blast
  obtain m3 where 3: "0 < m3" "ipv4_fields 0 0 2 (decimal c @ ''.'' @ decimal d) = ipv4_fields c m3 2 (''.'' @ decimal d)"
    using ipv4_field_decimal [OF assms(3)] by blast
  obtain m4 where 4: "0 < m4" "ipv4_fields 0 0 3 (decimal d @ []) = ipv4_fields d m4 3 []"
    using ipv4_field_decimal [OF assms(4)] by blast
  have "ipv4_fields a m1 0 (''.'' @ decimal b @ ''.'' @ decimal c @ ''.'' @ decimal d) =
      ipv4_fields 0 0 1 (decimal b @ ''.'' @ decimal c @ ''.'' @ decimal d)"
    using 1(1) by (simp add: ipv4_dot del: ipv4_fields.simps)
  moreover have "ipv4_fields b m2 1 (''.'' @ decimal c @ ''.'' @ decimal d) =
      ipv4_fields 0 0 2 (decimal c @ ''.'' @ decimal d)"
    using 2(1) by (simp add: ipv4_dot numeral_2_eq_2 del: ipv4_fields.simps)
  moreover have "ipv4_fields c m3 2 (''.'' @ decimal d) = ipv4_fields 0 0 3 (decimal d)"
    using 3(1) by (simp add: ipv4_dot del: ipv4_fields.simps)
  ultimately show ?thesis using 1(2) 2(2) 3(2) 4 by (simp add: parseIPv4_def dotted_def del: ipv4_fields.simps(2))
qed

lemma ip_kind_digits: "\<forall>c \<in> set s. is_digit c \<Longrightarrow> ip_kind (s @ CHR ''.'' # r) = Some (CHR ''.'')"
  by (induction s) (auto simp: is_digit_iff)

lemma ParseIP_dotted:
  "a < 256 \<Longrightarrow> b < 256 \<Longrightarrow> c < 256 \<Longrightarrow> d < 256 \<Longrightarrow> ParseIP_ok (dotted a b c d)"
  using parseIPv4_dotted [of a b c d] ip_kind_digits [of "decimal a"] decimal_digits [of _ a]
  by (simp add: ParseIP_ok_def) (simp add: dotted_def)

end
