(* ===== verification/Args.thy ===== *)
theory Args
  imports GoStrings
begin

text \<open>
  Package \<open>args\<close> (src/args/args.go): the options record, the address helpers, the parser of the
  SIP003 plugin options, the reader of the SS environment variables and the application of both
  to the options. The map type \<open>Args\<close> is an association list with distinct keys; \<open>None\<close> is the
  nil map. A made map is an \<open>ArgsMap\<close>: every caller of \<open>Add\<close> holds one, so the panic of an
  assignment to a nil map cannot be written down.
\<close>

section \<open>Options and addresses\<close>

record Options =
  LocalAddr :: bytes
  LocalPort :: uint
  RemoteAddr :: bytes
  RemotePort :: uint
  Hostname :: bytes
  Mode :: bytes
  Path :: bytes
  ServerName :: bytes
  Server :: bool
  Nocomp :: bool
  Insecure :: bool
  Cert :: bytes
  Key :: bytes
  Mux :: uint
  LogLevel :: uint
  Vpn :: bool
  FastOpen :: bool
  Ed :: uint
  ServiceName :: bytes
  Fingerprint :: bytes

text \<open>The options when no flag is given: the default values of the flag set in src/main.go.\<close>

definition flag_defaults :: Options where
  "flag_defaults =
     \<lparr> LocalAddr = ''127.0.0.1'', LocalPort = 1984, RemoteAddr = ''127.0.0.1'', RemotePort = 1080,
       Hostname = [], Mode = ''ws'', Path = ''/'', ServerName = [], Server = False, Nocomp = False,
       Insecure = False, Cert = [], Key = [], Mux = 1, LogLevel = 3, Vpn = False,
       FastOpen = False, Ed = 0, ServiceName = ''GunService'', Fingerprint = [] \<rparr>"

definition fixAddr :: "bytes \<Rightarrow> bytes" where
  "fixAddr addr =
     (let size = length addr in
      if size = 0 then addr
      else if strings_Contains addr '':'' \<and> addr ! 0 \<noteq> CHR ''['' \<and> addr ! (size - 1) \<noteq> CHR '']''
      then ''['' @ addr @ '']''
      else addr)"

definition GetLocalAddr :: "Options \<Rightarrow> bytes" where
  "GetLocalAddr o1 = fixAddr (LocalAddr o1) @ '':'' @ decimal (unat (LocalPort o1))"

definition GetRemoteAddr :: "Options \<Rightarrow> bytes" where
  "GetRemoteAddr o1 = fixAddr (RemoteAddr o1) @ '':'' @ decimal (unat (RemotePort o1))"

lemma fixAddr_no_colon: "CHR '':'' \<notin> set addr \<Longrightarrow> fixAddr addr = addr"
  by (simp add: fixAddr_def Let_def)

lemma fixAddr_colon:
  assumes "CHR '':'' \<in> set addr" and "CHR ''['' \<notin> set addr" and "CHR '']'' \<notin> set addr"
  shows "fixAddr addr = ''['' @ addr @ '']''"
proof -
  have ne: "addr \<noteq> []" using assms(1) by auto
  have "addr ! 0 \<noteq> CHR ''[''"
    using assms(2) ne by (metis length_greater_0_conv nth_mem)
  moreover have "addr ! (length addr - 1) \<noteq> CHR '']''"
    using assms(3) ne by (metis diff_less length_greater_0_conv nth_mem zero_less_one)
  ultimately show ?thesis using assms(1) ne by (simp add: fixAddr_def Let_def)
qed

lemma fixAddr_bracketed: "fixAddr (''['' @ h @ '']'') = ''['' @ h @ '']''"
  by (simp add: fixAddr_def Let_def)

lemma SplitHostPort_fixAddr:
  assumes "CHR ''['' \<notin> set addr" "CHR '']'' \<notin> set addr"
  shows "SplitHostPort (fixAddr addr @ '':'' @ decimal p) = Inr (addr, decimal p)"
proof (cases "CHR '':'' \<in> set addr")
  case True
  have "SplitHostPort (''['' @ addr @ '']:'' @ decimal p) = Inr (addr, decimal p)"
    by (rule SplitHostPort_bracketed) (use assms in \<open>auto simp: decimal_digits\<close>)
  with True assms show ?thesis by (simp add: fixAddr_colon)
next
  case False
  then show ?thesis
    using assms SplitHostPort_plain [of addr "decimal p"]
    by (simp add: fixAddr_no_colon decimal_digits)
qed

section \<open>The multi-map of arguments\<close>

type_synonym ArgsMap = "(bytes \<times> bytes list) list"
type_synonym Args = "ArgsMap option"

definition args_Get :: "Args \<Rightarrow> bytes \<Rightarrow> bytes \<times> bool" where
  "args_Get args key =
     (case args of
        None \<Rightarrow> ([], False)
      | Some m \<Rightarrow>
          (case map_of m key of
             None \<Rightarrow> ([], False)
           | Some vals \<Rightarrow> if length vals = 0 then ([], False) else (vals ! 0, True)))"

definition args_Add :: "ArgsMap \<Rightarrow> bytes \<Rightarrow> bytes \<Rightarrow> ArgsMap" where
  "args_Add m key value =
     AList.update key ((case map_of m key of None \<Rightarrow> [] | Some vs \<Rightarrow> vs) @ [value]) m"

text \<open>
  What a multi-map denotes: the list of values of each key. The keys stay distinct and no key has
  an empty list.
\<close>

definition vals_of :: "ArgsMap \<Rightarrow> bytes \<Rightarrow> bytes list" where
  "vals_of m k = (case map_of m k of None \<Rightarrow> [] | Some vs \<Rightarrow> vs)"

definition args_inv :: "ArgsMap \<Rightarrow> bool" where
  "args_inv m \<longleftrightarrow> distinct (map fst m) \<and> [] \<notin> snd ` set m"

lemma vals_of_Nil [simp]: "vals_of [] k = []"
  by (simp add: vals_of_def)

lemma vals_of_Add [simp]:
  "vals_of (args_Add m k v) k' = (if k' = k then vals_of m k @ [v] else vals_of m k')"
  by (auto simp: vals_of_def args_Add_def update_conv')

lemma args_inv_Nil [simp]: "args_inv []"
  by (simp add: args_inv_def)

lemma set_update_subset: "set (AList.update k v al) \<subseteq> insert (k, v) (set al)"
  by (induction al) auto

lemma args_inv_Add: "args_inv m \<Longrightarrow> args_inv (args_Add m k v)"
  unfolding args_inv_def args_Add_def
  by (auto simp: distinct_update dest!: subsetD [OF set_update_subset])

text \<open>Under the invariant, \<open>Get\<close> answers with the first value the key was given.\<close>

lemma args_Get_vals:
  "args_Get (Some m) k = (case vals_of m k of [] \<Rightarrow> ([], False) | v # _ \<Rightarrow> (v, True))"
  by (auto simp: args_Get_def vals_of_def split: option.splits list.splits)

lemma args_Get_nil_map [simp]: "args_Get None k = ([], False)"
  by (simp add: args_Get_def)

definition add_all :: "ArgsMap \<Rightarrow> (bytes \<times> bytes) list \<Rightarrow> ArgsMap" where
  "add_all m kvs = foldl (\<lambda>m (k, v). args_Add m k v) m kvs"

lemma add_all_simps [simp]:
  "add_all m [] = m" "add_all m ((k, v) # kvs) = add_all (args_Add m k v) kvs"
  by (simp_all add: add_all_def)

lemma args_inv_add_all: "args_inv m \<Longrightarrow> args_inv (add_all m kvs)"
  by (induction kvs arbitrary: m) (auto simp: args_inv_Add)

lemma vals_of_add_all: "vals_of (add_all m kvs) k = vals_of m k @ map snd (filter (\<lambda>p. fst p = k) kvs)"
  by (induction kvs arbitrary: m) auto


section \<open>Escaping\<close>

text \<open>
  \<open>indexUnescaped\<close>: the loop variable \<open>i\<close> and the buffer \<open>unesc\<close> are the arguments of the
  recursion. The Go function returns \<open>(0, "", err)\<close> on an error; callers look at \<open>err\<close> only.
\<close>

function index_loop :: "bytes \<Rightarrow> bytes \<Rightarrow> nat \<Rightarrow> bytes \<Rightarrow> (nat \<times> bytes) result" where
  "index_loop s ts i unesc =
     (if i < length s then
        bind_result (go_index s i) (\<lambda>b.
          if bytes_HasByte ts b then Inr (i, unesc)
          else if b = CHR 0x5C then
            (if i + 1 \<ge> length s then Inl (TrailingEscape s)
             else bind_result (go_index s (i + 1)) (\<lambda>b. index_loop s ts (i + 2) (unesc @ [b])))
          else index_loop s ts (i + 1) (unesc @ [b]))
      else Inr (i, unesc))"
  by pat_completeness auto
termination
  by (relation "measure (\<lambda>(s, ts, i, unesc). length s - i)") auto

declare index_loop.simps [simp del]

definition indexUnescaped :: "bytes \<Rightarrow> bytes \<Rightarrow> (nat \<times> bytes) result" where
  "indexUnescaped s ts = index_loop s ts 0 []"

fun backslashEscape :: "bytes \<Rightarrow> bytes \<Rightarrow> bytes" where
  "backslashEscape [] bs = []"
| "backslashEscape (b # s) bs =
     (if b = CHR 0x5C \<or> bytes_HasByte bs b then [CHR 0x5C, b] else [b]) @ backslashEscape s bs"

text \<open>
  The reference: a scanner on the suffix, with no positions. It returns the unescaped text before
  the first unescaped terminator and the rest from the terminator on; \<open>None\<close> is a trailing escape.
\<close>

fun scan :: "bytes \<Rightarrow> bytes \<Rightarrow> (bytes \<times> bytes) option" where
  "scan ts [] = Some ([], [])"
| "scan ts (b # s) =
     (if b \<in> set ts then Some ([], b # s)
      else if b = CHR 0x5C then
        (case s of [] \<Rightarrow> None | c # s' \<Rightarrow> map_option (apfst ((#) c)) (scan ts s'))
      else map_option (apfst ((#) b)) (scan ts s))"

lemma scan_length: "scan ts s = Some (u, r) \<Longrightarrow> length u + length r \<le> length s"
proof (induction ts s arbitrary: u r rule: scan.induct)
  case (2 ts b s)
  then show ?case
    by (fastforce split: if_splits list.splits)
qed simp

lemma scan_suffix: "scan ts s = Some (u, r) \<Longrightarrow> drop (length s - length r) s = r"
proof (induction ts s arbitrary: u r rule: scan.induct)
  case (2 ts b s)
  show ?case
  proof (cases "b \<in> set ts")
    case True
    with "2.prems" show ?thesis by simp
  next
    case nt: False
    show ?thesis
    proof (cases "b = CHR 0x5C")
      case True
      with nt "2.prems" obtain c s' u' where s: "s = c # s'" and r: "scan ts s' = Some (u', r)"
        by (auto split: list.splits)
      have "length r \<le> length s'" using scan_length [OF r] by simp
      then show ?thesis
        using "2.IH"(1) [OF nt True s r] by (simp add: s Suc_diff_le)
    next
      case False
      with nt "2.prems" obtain u' where r: "scan ts s = Some (u', r)" by auto
      have "length r \<le> length s" using scan_length [OF r] by simp
      then show ?thesis using "2.IH"(2) [OF nt False r] by (simp add: Suc_diff_le)
    qed
  qed
qed simp

lemma scan_rest: "scan ts s = Some (u, r) \<Longrightarrow> r = [] \<or> hd r \<in> set ts"
  by (induction ts s arbitrary: u r rule: scan.induct) (auto split: if_splits list.splits)

text \<open>The code's loop computes what the scanner says, with positions instead of suffixes.\<close>

definition index_of_scan :: "bytes \<Rightarrow> bytes \<Rightarrow> (bytes \<times> bytes) option \<Rightarrow> (nat \<times> bytes) result" where
  "index_of_scan s acc r =
     (case r of None \<Rightarrow> Inl (TrailingEscape s)
              | Some (u, rest) \<Rightarrow> Inr (length s - length rest, acc @ u))"

lemma index_of_scan_simps [simp]:
  "index_of_scan s acc None = Inl (TrailingEscape s)"
  "index_of_scan s acc (Some (u, rest)) = Inr (length s - length rest, acc @ u)"
  by (simp_all add: index_of_scan_def)

lemma index_of_scan_map [simp]:
  "index_of_scan s acc (map_option (apfst ((#) b)) r) = index_of_scan s (acc @ [b]) r"
  by (cases r) (auto simp: index_of_scan_def)

lemma index_loop_scan:
  "i \<le> length s \<Longrightarrow> index_loop s ts i unesc = index_of_scan s unesc (scan ts (drop i s))"
proof (induction s ts i unesc rule: index_loop.induct)
  case (1 s ts i unesc)
  show ?case
  proof (cases "i < length s")
    case False
    with "1.prems" have "i = length s" by simp
    then show ?thesis by (simp add: index_loop.simps [of s ts "length s"])
  next
    case True
    then have d: "drop i s = s ! i # drop (Suc i) s" by (rule drop_eq_nth_Cons)
    show ?thesis
    proof (cases "s ! i \<in> set ts")
      case True
      then show ?thesis
        using \<open>i < length s\<close> by (simp add: index_loop.simps [of s ts i] d)
    next
      case nt: False
      show ?thesis
      proof (cases "s ! i = CHR 0x5C \<and> Suc i < length s")
        case True
        then have "drop (Suc i) s = s ! Suc i # drop (Suc (Suc i)) s"
          by (simp add: drop_eq_nth_Cons)
        then show ?thesis
          using True nt d "1.IH"(1) [OF \<open>i < length s\<close>] \<open>i < length s\<close>
          by (simp add: index_loop.simps [of s ts i])
      next
        case False
        then show ?thesis
          using nt d "1.IH"(2) [OF \<open>i < length s\<close>] \<open>i < length s\<close>
          by (auto simp: index_loop.simps [of s ts i])
      qed
    qed
  qed
qed

lemma indexUnescaped_scan: "indexUnescaped s ts = index_of_scan s [] (scan ts s)"
  by (simp add: indexUnescaped_def index_loop_scan)

text \<open>Escaped text scans back to itself, whatever follows.\<close>

lemma scan_escape:
  assumes "set ts \<subseteq> set bs" and "CHR 0x5C \<notin> set ts"
  shows "scan ts (backslashEscape s bs @ r) = map_option (apfst ((@) s)) (scan ts r)"
proof (induction s)
  case Nil
  show ?case by (cases "scan ts r") auto
next
  case (Cons b s)
  then show ?case
    using assms by (cases "scan ts r") auto
qed


section \<open>The parser of plugin options\<close>

text \<open>
  The loop of \<open>parsePluginOptions\<close>, with the loop variable \<open>i\<close> and the map \<open>opts\<close> as arguments.
  The results are the Go pair \<open>(opts, err)\<close>: on an error the map built so far comes back with it.
  The message of the empty-key error quotes \<open>s[begin:i]\<close>.
\<close>

function parse_loop :: "bytes \<Rightarrow> nat \<Rightarrow> ArgsMap \<Rightarrow> ArgsMap \<times> go_error option" where
  "parse_loop s i opts =
     (if i \<ge> length s then (opts, None)
      else let begin = i in
        case bind_result (go_slice_from s i) (\<lambda>t. indexUnescaped t ''=;'') of
          Inl err \<Rightarrow> (opts, Some err)
        | Inr (offset, key) \<Rightarrow>
            if length key = 0 then (opts, Some (EmptyKey (take (i - begin) (drop begin s))))
            else let i = i + offset in
              if i \<ge> length s \<or> s ! i \<noteq> CHR ''=''
              then parse_loop s (i + 1) (args_Add opts key ''1'')
              else let i = i + 1 in
                case bind_result (go_slice_from s i) (\<lambda>t. indexUnescaped t '';'') of
                  Inl err \<Rightarrow> (opts, Some err)
                | Inr (offset, value) \<Rightarrow> parse_loop s (i + offset + 1) (args_Add opts key value))"
  by pat_completeness auto
termination
  by (relation "measure (\<lambda>(s, i, opts). length s - i)") auto

declare parse_loop.simps [simp del]

definition parsePluginOptions :: "bytes \<Rightarrow> ArgsMap \<times> go_error option" where
  "parsePluginOptions s = (if length s = 0 then ([], None) else parse_loop s 0 [])"

text \<open>
  The reference parser on suffixes: the list of key/value pairs read before the end or the first
  error, for a separator \<open>sep\<close> of the fields.
\<close>

function parse_fields :: "char \<Rightarrow> bytes \<Rightarrow> (bytes \<times> bytes) list \<times> go_error option" where
  "parse_fields sep s =
     (if s = [] then ([], None)
      else case scan [CHR ''='', sep] s of
        None \<Rightarrow> ([], Some (TrailingEscape s))
      | Some (key, r) \<Rightarrow>
          if key = [] then ([], Some (EmptyKey []))
          else if r = [] \<or> hd r \<noteq> CHR ''='' then apfst ((#) (key, ''1'')) (parse_fields sep (tl r))
          else (case scan [sep] (tl r) of
                  None \<Rightarrow> ([], Some (TrailingEscape (tl r)))
                | Some (v, r') \<Rightarrow> apfst ((#) (key, v)) (parse_fields sep (tl r'))))"
  by pat_completeness auto
termination
  by (relation "measure (\<lambda>(sep, s). length s)") 
    (auto dest!: scan_length simp flip: length_greater_0_conv)

declare parse_fields.simps [simp del]

lemma parse_fields_Nil [simp]: "parse_fields sep [] = ([], None)"
  by (simp add: parse_fields.simps)

definition collect :: "ArgsMap \<Rightarrow> (bytes \<times> bytes) list \<times> go_error option \<Rightarrow> ArgsMap \<times> go_error option" where
  "collect opts r = (add_all opts (fst r), snd r)"

lemma collect_simps [simp]:
  "collect opts ([], e) = (opts, e)"
  "collect opts (apfst ((#) (k, v)) r) = collect (args_Add opts k v) r"
  by (simp_all add: collect_def)

lemma scan_drop:
  assumes "scan ts (drop i s) = Some (u, r)" and "i \<le> length s"
  shows "drop (i + (length (drop i s) - length r)) s = r"
    and "i + (length (drop i s) - length r) = length s - length r"
    and "length r \<le> length s - i"
proof -
  show l: "length r \<le> length s - i" using scan_length [OF assms(1)] by simp
  show e: "i + (length (drop i s) - length r) = length s - length r"
    using l assms(2) by simp
  have "drop (length (drop i s) - length r) (drop i s) = r" by (rule scan_suffix [OF assms(1)])
  then show "drop (i + (length (drop i s) - length r)) s = r" by (simp add: add.commute)
qed

text \<open>One turn of the code's loop in terms of the scanner.\<close>

lemma scan_head_index:
  assumes "scan ts (drop i s) = Some (u, r)" and "i < length s"
  shows "(length s \<le> length s - length r \<or> s ! (length s - length r) \<noteq> c) \<longleftrightarrow> (r = [] \<or> hd r \<noteq> c)"
proof (cases "r = []")
  case False
  have j: "drop (length s - length r) s = r" and "length r \<le> length s - i"
    using scan_drop [OF assms(1)] assms(2) by simp_all
  with False assms(2) have "length s - length r < length s"
    by (metis diff_less length_greater_0_conv less_nat_zero_code not_gr_zero)
  then have "hd r = s ! (length s - length r)"
    using j hd_drop_conv_nth by metis
  with False \<open>length s - length r < length s\<close> show ?thesis by simp
qed simp

lemma parse_loop_end: "length s \<le> i \<Longrightarrow> parse_loop s i opts = (opts, None)"
  by (simp add: parse_loop.simps [of s i])

lemma parse_loop_key:
  assumes "i < length s" and "scan ''=;'' (drop i s) = r"
  shows "parse_loop s i opts =
    (case r of None \<Rightarrow> (opts, Some (TrailingEscape (drop i s)))
     | Some (key, r) \<Rightarrow>
        if key = [] then (opts, Some (EmptyKey []))
        else if r = [] \<or> hd r \<noteq> CHR ''='' then
          parse_loop s (Suc (length s - length r)) (args_Add opts key ''1'')
        else (case scan '';'' (tl r) of
            None \<Rightarrow> (opts, Some (TrailingEscape (tl r)))
          | Some (v, r') \<Rightarrow> parse_loop s (Suc (length s - length r')) (args_Add opts key v)))"
proof (cases r)
  case None
  then show ?thesis
    using assms by (simp add: parse_loop.simps [of s i] indexUnescaped_scan)
next
  case (Some kr)
  obtain key q where k: "scan ''=;'' (drop i s) = Some (key, q)" and r: "r = Some (key, q)"
    using Some assms(2) by (cases kr) auto
  let ?j = "length s - length q"
  have le: "i \<le> length s" using assms(1) by simp
  note kd = scan_drop [OF k le]
  have ix: "indexUnescaped (drop i s) ''=;'' = Inr (length s - (i + length q), key)"
    using k by (simp add: indexUnescaped_scan)
  have jx: "i + (length s - (i + length q)) = ?j" using kd(2) by simp
  note unf = parse_loop.simps [of s i opts] Let_def ix jx
  show ?thesis
  proof (cases "key = [] \<or> q = [] \<or> hd q \<noteq> CHR ''=''")
    case True
    then have "key = [] \<or> length s \<le> ?j \<or> s ! ?j \<noteq> CHR ''=''"
      using scan_head_index [OF k assms(1), of "CHR ''=''"] by blast
    with True show ?thesis using assms(1) by (auto simp: r unf)
  next
    case False
    have eq: "?j < length s" "s ! ?j = CHR ''=''"
      using False scan_head_index [OF k assms(1), of "CHR ''=''"] by auto
    then have jl: "Suc ?j \<le> length s" by simp
    have dj: "drop (Suc ?j) s = tl q" using kd(1,2) by (metis drop_Suc tl_drop)
    show ?thesis
    proof (cases "scan '';'' (tl q)")
      case None
      then show ?thesis using False assms(1) jl eq by (simp add: r unf dj indexUnescaped_scan [of "tl q"])
    next
      case (Some vr)
      obtain v q' where v: "scan '';'' (tl q) = Some (v, q')" using Some by (cases vr) auto
      have "length q' \<le> length (tl q)" and "length q \<le> length s"
        using scan_length [OF v] kd(3) by simp_all
      moreover have "0 < length q" using False by simp
      ultimately have "Suc (length s - Suc (length q')) = length s - length q'"
        and "Suc (?j + (length q - Suc (length q'))) = length s - length q'"
        unfolding length_tl by linarith+
      then show ?thesis
        using False assms(1) jl eq v by (simp add: r unf dj indexUnescaped_scan [of "tl q"])
    qed
  qed
qed

text \<open>The code's loop refines the reference parser; fields are added in the order they are read.\<close>

lemma parse_loop_fields:
  "parse_loop s i opts = collect opts (parse_fields CHR '';'' (drop i s))"
proof (induction "length s - i" arbitrary: i opts rule: less_induct)
  case less
  show ?case
  proof (cases "i < length s")
    case False
    then show ?thesis by (simp add: parse_loop_end)
  next
    case lt: True
    then have ne: "\<not> length s \<le> i" by simp
    note unf = parse_loop_key [OF lt refl] parse_fields.simps [of _ "drop i s"] ne
    have next_drop: "drop (Suc (length s - length r)) s = tl r" if "drop (length s - length r) s = r" for r
      using that by (metis drop_Suc tl_drop)
    show ?thesis
    proof (cases "scan ''=;'' (drop i s)")
      case None
      then show ?thesis by (simp add: unf)
    next
      case (Some kr)
      obtain key r where k: "scan ''=;'' (drop i s) = Some (key, r)"
        using Some by (cases kr) auto
      note kd = scan_drop [OF k less_imp_le [OF lt]]
      have IH: "parse_loop s (Suc (length s - length q)) m = collect m (parse_fields CHR '';'' (tl q))"
        if "drop (length s - length q) s = q" and "length q \<le> length s - i" for q m
      proof -
        have "length s - Suc (length s - length q) < length s - i" using that(2) lt by linarith
        then show ?thesis using less next_drop [OF that(1)] by metis
      qed
      show ?thesis
      proof (cases "key = [] \<or> r = [] \<or> hd r \<noteq> CHR ''=''")
        case True
        then show ?thesis using IH [of r] kd by (auto simp: unf k)
      next
        case False
        have tlr: "tl r = drop (Suc (length s - length r)) s" using next_drop kd(1,2) by simp
        show ?thesis
        proof (cases "scan '';'' (tl r)")
          case None
          then show ?thesis using False by (simp add: unf k)
        next
          case (Some vr)
          obtain v q where v: "scan '';'' (tl r) = Some (v, q)" using Some by (cases vr) auto
          have "0 < length r" using False by simp
          then have "Suc (length s - length r) \<le> length s" using kd(3) lt by linarith
          note vd = scan_drop [OF v [unfolded tlr] this]
          have "drop (length s - length q) s = q" using vd(1) by (simp only: vd(2))
          moreover have "length q \<le> length s - i" using vd(3) kd(3) by simp
          ultimately show ?thesis using IH [of q] False v by (simp add: unf k)
        qed
      qed
    qed
  qed
qed

lemma parsePluginOptions_fields: "parsePluginOptions s = collect [] (parse_fields CHR '';'' s)"
  by (simp add: parsePluginOptions_def parse_loop_fields)


text \<open>Every error is one of the two of the parser; the slices stay within bounds.\<close>

lemma parse_fields_errors:
  "snd (parse_fields sep s) = Some e \<Longrightarrow> e = EmptyKey [] \<or> (\<exists>t. e = TrailingEscape t \<and> suffix t s)"
proof (induction sep s rule: parse_fields.induct)
  case (1 sep s)
  show ?case
  proof (cases "s = [] \<or> scan [CHR ''='', sep] s = None")
    case True
    then show ?thesis
      using "1.prems" by (cases "s = []") (simp_all add: parse_fields.simps [of sep s], auto)
  next
    case False
    then obtain key r where k: "scan [CHR ''='', sep] s = Some (key, r)" and ne: "s \<noteq> []" by auto
    have r: "suffix r s" using scan_suffix [OF k] suffix_drop by metis
    then have tlr: "suffix (tl r) s" using suffix_tl suffix_order.trans by blast
    show ?thesis
    proof (cases "key = []")
      case True
      with "1.prems" show ?thesis by (auto simp: parse_fields.simps [of sep s] k ne)
    next
      case kne: False
      show ?thesis
      proof (cases "r = [] \<or> hd r \<noteq> CHR ''=''")
        case True
        with "1.prems" kne have "snd (parse_fields sep (tl r)) = Some e"
          by (simp add: parse_fields.simps [of sep s] k ne)
        from "1.IH"(1) [OF ne k refl kne True this] tlr show ?thesis
          using suffix_order.trans by blast
      next
        case req: False
        show ?thesis
        proof (cases "scan [sep] (tl r)")
          case None
          with "1.prems" kne req show ?thesis
            using tlr by (auto simp: parse_fields.simps [of sep s] k ne)
        next
          case (Some vq)
          obtain v q where v: "scan [sep] (tl r) = Some (v, q)" using Some by (cases vq) auto
          with "1.prems" kne req have e: "snd (parse_fields sep (tl q)) = Some e"
            by (simp add: parse_fields.simps [of sep s] k ne)
          have "suffix q (tl r)" using scan_suffix [OF v] suffix_drop by metis
          then have "suffix (tl q) s" using tlr suffix_tl suffix_order.trans by blast
          with "1.IH"(2) [OF ne k refl kne req v refl e] show ?thesis
            using suffix_order.trans by blast
        qed
      qed
    qed
  qed
qed

section \<open>Encoding\<close>

fun strings_Join :: "bytes list \<Rightarrow> bytes \<Rightarrow> bytes" where
  "strings_Join [] sep = []"
| "strings_Join [x] sep = x"
| "strings_Join (x # y # xs) sep = x @ sep @ strings_Join (y # xs) sep"

text \<open>
  \<open>encodeSmethodArgs\<close>; \<open>sort.Strings\<close> orders byte-wise, which is the lexicographic order on
  lists of characters.
\<close>

definition encodeSmethodArgs :: "Args \<Rightarrow> bytes" where
  "encodeSmethodArgs args =
     (case args of
        None \<Rightarrow> []
      | Some m \<Rightarrow>
          (let keys = sort (map fst m);
               escape = (\<lambda>s. backslashEscape s ''=,'');
               pairs = concat (map (\<lambda>key. map (\<lambda>value. escape key @ ''='' @ escape value)
                         (case map_of m key of None \<Rightarrow> [] | Some vs \<Rightarrow> vs)) keys)
           in strings_Join pairs '',''))"

text \<open>
  The encoder of a list of fields, for a separator: what a caller has to send so that the parser
  reads the fields back. The output of \<open>encodeSmethodArgs\<close> is one, with a comma as separator.
\<close>

definition encode_field :: "char \<Rightarrow> bytes \<times> bytes \<Rightarrow> bytes" where
  "encode_field sep kv =
     backslashEscape (fst kv) [CHR ''='', sep] @ ''='' @ backslashEscape (snd kv) [CHR ''='', sep]"

definition encode_fields :: "char \<Rightarrow> (bytes \<times> bytes) list \<Rightarrow> bytes" where
  "encode_fields sep kvs = strings_Join (map (encode_field sep) kvs) [sep]"

definition args_pairs :: "ArgsMap \<Rightarrow> (bytes \<times> bytes) list" where
  "args_pairs m = concat (map (\<lambda>k. map (Pair k) (vals_of m k)) (sort (map fst m)))"

lemma encodeSmethodArgs_fields: "encodeSmethodArgs (Some m) = encode_fields CHR '','' (args_pairs m)"
  by (simp add: encodeSmethodArgs_def encode_fields_def args_pairs_def Let_def map_concat comp_def
      encode_field_def vals_of_def [symmetric])

lemma parse_fields_field:
  assumes "k \<noteq> []" "sep \<noteq> CHR ''=''" "sep \<noteq> CHR 0x5C" and "r = [] \<or> hd r = sep"
  shows "parse_fields sep (encode_field sep (k, v) @ r) = apfst ((#) (k, v)) (parse_fields sep (tl r))"
proof -
  let ?e = "\<lambda>s. backslashEscape s [CHR ''='', sep]"
  let ?s = "?e k @ CHR ''='' # ?e v @ r"
  have ne: "?s \<noteq> []" by simp
  have k: "scan [CHR ''='', sep] ?s = Some (k, CHR ''='' # ?e v @ r)"
    using assms(3) by (subst scan_escape) auto
  have "scan [sep] r = Some ([], r)"
    using assms(4) by (cases r) auto
  then have v: "scan [sep] (?e v @ r) = Some (v, r)"
    using assms(3) by (subst scan_escape) auto
  have "parse_fields sep ?s = apfst ((#) (k, v)) (parse_fields sep (tl r))"
    using assms(1) by (subst parse_fields.simps) (simp add: k v)
  then show ?thesis by (simp add: encode_field_def)
qed

lemma parse_fields_encode:
  assumes "\<forall>p \<in> set kvs. fst p \<noteq> []" "sep \<noteq> CHR ''=''" "sep \<noteq> CHR 0x5C"
  shows "parse_fields sep (encode_fields sep kvs) = (kvs, None)"
  using assms(1)
proof (induction kvs rule: induct_list012)
  case 1
  show ?case by (simp add: encode_fields_def)
next
  case (2 p)
  then show ?case
    using parse_fields_field [of "fst p" sep "[]" "snd p"] assms(2,3)
    by (simp add: encode_fields_def)
next
  case (3 p q kvs)
  then show ?case
    using parse_fields_field [of "fst p" sep "sep # encode_fields sep (q # kvs)" "snd p"] assms(2,3)
    by (simp add: encode_fields_def)
qed

lemma args_pairs_vals:
  assumes "args_inv m"
  shows "map snd (filter (\<lambda>p. fst p = k) (args_pairs m)) = vals_of m k"
proof -
  have one: "filter (\<lambda>p. fst p = k) (map (Pair k') vs) = (if k' = k then map (Pair k') vs else [])"
    for k' :: bytes and vs :: "bytes list"
    by (induction vs) auto
  have gen: "map snd (filter (\<lambda>p. fst p = k) (concat (map (\<lambda>k. map (Pair k) (vals_of m k)) ks)))
      = (if k \<in> set ks then vals_of m k else [])" if "distinct ks" for ks
    using that by (induction ks) (auto simp: one comp_def)
  have "distinct (sort (map fst m))" using assms by (simp add: args_inv_def)
  from gen [OF this] show ?thesis
    by (auto simp: args_pairs_def vals_of_def split: option.splits)
      (metis domI dom_map_of_conv_image_fst)
qed

lemma map_of_vals_of: "args_inv m \<Longrightarrow> map_of m k = (if vals_of m k = [] then None else Some (vals_of m k))"
  by (auto simp: vals_of_def args_inv_def split: option.splits dest!: map_of_SomeD intro!: rev_image_eqI)

lemma sort_keys_cong:
  assumes "distinct (map fst m)" "distinct (map fst m')" "map_of m = map_of m'"
  shows "sort (map fst m) = sort (map fst m')"
  using map_of_eq_mset [OF assms] by (metis mset_map properties_for_sort mset_sort sorted_sort)


section \<open>Properties\<close>

text \<open>
  C10: The parser of plugin options, a loop over byte positions with Go's slices, computes what a
  structural scanner over suffixes computes: the map holds the fields in the order they are read
  up to the first error, and the error is the scanner's.
\<close>

theorem parsePluginOptions_refines:
  "parsePluginOptions s = (add_all [] (fst (parse_fields CHR '';'' s)), snd (parse_fields CHR '';'' s))"
  by (simp add: parsePluginOptions_fields collect_def)

text \<open>
  For every input the parser returns, its map is well formed (distinct keys, no key without a
  value), and an error is either a trailing escape or an empty key; no index or slice is ever out
  of range.
\<close>

theorem parsePluginOptions_safe:
  "args_inv (fst (parsePluginOptions s)) \<and>
   (case snd (parsePluginOptions s) of
      None \<Rightarrow> True
    | Some e \<Rightarrow> \<not> is_panic e \<and> (e = EmptyKey [] \<or> (\<exists>t. e = TrailingEscape t \<and> suffix t s)))"
proof -
  have "args_inv (fst (parsePluginOptions s))"
    by (simp add: parsePluginOptions_fields collect_def args_inv_add_all)
  moreover have "e = EmptyKey [] \<or> (\<exists>t. e = TrailingEscape t \<and> suffix t s)"
    if "snd (parsePluginOptions s) = Some e" for e
    using that parse_fields_errors by (simp add: parsePluginOptions_fields collect_def)
  ultimately show ?thesis by (auto split: option.splits)
qed

text \<open>
  C13: Fields whose keys and values are escaped with the code's \<open>backslashEscape\<close> and joined with
  semicolons parse back without an error, and \<open>Get\<close> then answers with the first value given for
  the key, for any bytes in keys and values; only an empty key cannot be sent.
\<close>

theorem parsePluginOptions_encode:
  assumes "\<forall>p \<in> set kvs. fst p \<noteq> []"
  shows "parsePluginOptions (encode_fields CHR '';'' kvs) = (add_all [] kvs, None) \<and>
    args_Get (Some (fst (parsePluginOptions (encode_fields CHR '';'' kvs)))) k =
      (case map snd (filter (\<lambda>p. fst p = k) kvs) of [] \<Rightarrow> ([], False) | v # _ \<Rightarrow> (v, True))"
  using assms
  by (simp_all add: parsePluginOptions_fields collect_def parse_fields_encode args_Get_vals vals_of_add_all)

theorem parsePluginOptions_encode_witness:
  "parsePluginOptions (encode_fields CHR '';'' [(''path'', ''/a;b=c''), (''mux'', ''4''), (''path'', ''x'')])
     = ([(''path'', [''/a;b=c'', ''x'']), (''mux'', [''4''])], None)"
  using parsePluginOptions_encode [of "[(''path'', ''/a;b=c''), (''mux'', ''4''), (''path'', ''x'')]"]
  by (simp add: args_Add_def)

text \<open>
  C30: The encoding of a multi-map depends on its contents only, not on the order in which the map
  is ranged over, and it loses nothing: two well-formed maps without an empty key are encoded
  alike exactly when they hold the same lists of values.
\<close>

theorem encodeSmethodArgs_canonical:
  assumes "args_inv m" "args_inv m'" and "[] \<notin> fst ` set m" "[] \<notin> fst ` set m'"
  shows "encodeSmethodArgs (Some m) = encodeSmethodArgs (Some m') \<longleftrightarrow> map_of m = map_of m'"
proof
  assume "map_of m = map_of m'"
  moreover from this have "sort (map fst m) = sort (map fst m')"
    using assms(1,2) by (intro sort_keys_cong) (simp_all add: args_inv_def)
  ultimately show "encodeSmethodArgs (Some m) = encodeSmethodArgs (Some m')"
    by (simp add: encodeSmethodArgs_def)
next
  assume eq: "encodeSmethodArgs (Some m) = encodeSmethodArgs (Some m')"
  have keys: "\<forall>p \<in> set (args_pairs n). fst p \<noteq> []" if "[] \<notin> fst ` set n" for n
    using that by (force simp: args_pairs_def)
  have dec: "parse_fields CHR '','' (encodeSmethodArgs (Some n)) = (args_pairs n, None)"
    if "[] \<notin> fst ` set n" for n
    unfolding encodeSmethodArgs_fields by (rule parse_fields_encode [OF keys [OF that]]) simp_all
  have "(args_pairs m, None :: go_error option) = (args_pairs m', None)"
    unfolding dec [OF assms(3), symmetric] dec [OF assms(4), symmetric] eq ..
  then have "args_pairs m = args_pairs m'" by simp
  then have "vals_of m k = vals_of m' k" for k
    by (simp flip: args_pairs_vals [OF assms(1)] args_pairs_vals [OF assms(2)])
  then show "map_of m = map_of m'"
    using map_of_vals_of assms(1,2) by (auto simp: fun_eq_iff)
qed

theorem encodeSmethodArgs_canonical_witness:
  "encodeSmethodArgs (Some [(''k'', [''a,b'']), (''c'', [''d''])])
     = encodeSmethodArgs (Some [(''c'', [''d'']), (''k'', [''a,b''])])"
  by (subst encodeSmethodArgs_canonical) (auto simp: args_inv_def fun_eq_iff)

text \<open>
  The local address string of any host without brackets (a name, an IPv4 or an IPv6 literal)
  splits back into exactly that host and the decimal port, and the port reads back as the number
  that was printed when it fits the 16 bits of a port.
\<close>

theorem local_addr_roundtrip:
  assumes "CHR ''['' \<notin> set (LocalAddr o1)" "CHR '']'' \<notin> set (LocalAddr o1)"
    and "unat (LocalPort o1) < 65536"
  shows "\<exists>port. SplitHostPort (GetLocalAddr o1) = Inr (LocalAddr o1, port) \<and>
    ParseUint port 16 = Inr (LocalPort o1)"
proof (intro exI conjI)
  show "SplitHostPort (GetLocalAddr o1) = Inr (LocalAddr o1, decimal (unat (LocalPort o1)))"
    using SplitHostPort_fixAddr [OF assms(1,2)] by (simp add: GetLocalAddr_def)
  have "unat (LocalPort o1) < 2 ^ 16" using assms(3) by simp
  then have "ParseUint (decimal (unat (LocalPort o1))) 16 = Inr (of_nat (unat (LocalPort o1)))"
    by (intro ParseUint_decimal) simp_all
  then show "ParseUint (decimal (unat (LocalPort o1))) 16 = Inr (LocalPort o1)"
    by (simp only: of_nat_unat ucast_id)
qed

theorem local_addr_roundtrip_witness:
  "\<exists>port. SplitHostPort (GetLocalAddr (flag_defaults\<lparr>LocalAddr := ''::1''\<rparr>)) = Inr (''::1'', port) \<and>
    ParseUint port 16 = Inr 1984"
  using local_addr_roundtrip [of "flag_defaults\<lparr>LocalAddr := ''::1''\<rparr>"]
  by (simp add: flag_defaults_def)

end
