(* ===== verification/TlsClient.thy ===== *)
theory TlsClient
  imports IPText Args
begin

text \<open>
  TLS on the client: the configuration of src/gost/proxy/client/tls.go, the choice of the Go or the uTLS
  implementation, the uTLS handshake with its ALPN extension, the dials that run a handshake
  (tls.go, h2.go) and the gRPC credentials (grpc_tls.go). The TLS libraries are parameters: what a
  handshake answers, which extensions a fingerprint has.
\<close>

section \<open>Configuration\<close>

record tls_config =
  cfg_cache :: bool
  cfg_NextProtos :: "bytes list"
  cfg_InsecureSkipVerify :: bool
  cfg_SessionTicketsDisabled :: bool
  cfg_ServerName :: bytes

definition buildClientTLSConfig :: "Options \<Rightarrow> tls_config" where
  "buildClientTLSConfig o1 =
     (let cfg = \<lparr>cfg_cache = True, cfg_NextProtos = [''http/1.1''], cfg_InsecureSkipVerify = Insecure o1,
                 cfg_SessionTicketsDisabled = True, cfg_ServerName = []\<rparr>
      in if ServerName o1 \<noteq> [] then cfg\<lparr>cfg_ServerName := ServerName o1\<rparr>
         else if \<not> ParseIP_ok (RemoteAddr o1) then cfg\<lparr>cfg_ServerName := RemoteAddr o1\<rparr>
         else cfg)"

section \<open>Connections\<close>

datatype hello_id =
    HelloChrome_Auto | HelloIOS_Auto | HelloFirefox_Auto | HelloEdge_Auto | HelloSafari_Auto
  | Hello360_Auto | HelloQQ_Auto

datatype 'k tls_conn =
    GoTLS 'k tls_config              \<comment> \<open>\<open>gotlsConnWrapper\<close>\<close>
  | UTLS 'k tls_config hello_id      \<comment> \<open>\<open>utlsConnWrapper\<close>\<close>

text \<open>The switch of \<open>newClientTLSConn\<close>; the second component is whether the warning is logged.\<close>

definition hello_of :: "bytes \<Rightarrow> hello_id \<times> bool" where
  "hello_of fingerprint =
     (let f = strings_ToLower fingerprint in
      if f = ''chrome'' then (HelloChrome_Auto, False)
      else if f = ''ios'' then (HelloIOS_Auto, False)
      else if f = ''firefox'' then (HelloFirefox_Auto, False)
      else if f = ''edge'' then (HelloEdge_Auto, False)
      else if f = ''safari'' then (HelloSafari_Auto, False)
      else if f = ''360browser'' then (Hello360_Auto, False)
      else if f = ''qqbrowser'' then (HelloQQ_Auto, False)
      else (HelloChrome_Auto, True))"

definition newClientTLSConn :: "'k \<Rightarrow> tls_config \<Rightarrow> bytes \<Rightarrow> 'k tls_conn" where
  "newClientTLSConn underlyConn cfg fingerprint =
     (if fingerprint = [] then GoTLS underlyConn cfg
      else UTLS underlyConn
             \<lparr>cfg_cache = False, cfg_NextProtos = cfg_NextProtos cfg,
              cfg_InsecureSkipVerify = cfg_InsecureSkipVerify cfg,
              cfg_SessionTicketsDisabled = cfg_SessionTicketsDisabled cfg,
              cfg_ServerName = cfg_ServerName cfg\<rparr>
             (fst (hello_of fingerprint)))"

fun AuthType :: "'k tls_conn \<Rightarrow> bytes" where
  "AuthType (GoTLS k cfg) = ''tls''"
| "AuthType (UTLS k cfg hello) = ''utls''"

fun config_of :: "'k tls_conn \<Rightarrow> tls_config" where
  "config_of (GoTLS k cfg) = cfg"
| "config_of (UTLS k cfg hello) = cfg"

section \<open>The uTLS handshake\<close>

datatype 'x extension = ALPNExtension "bytes list" | OtherExtension 'x

text \<open>The loop over the extensions: the first ALPN extension gets the protocols of the configuration.\<close>

fun set_first_alpn :: "bytes list \<Rightarrow> 'x extension list \<Rightarrow> bool \<times> 'x extension list" where
  "set_first_alpn protos [] = (False, [])"
| "set_first_alpn protos (ALPNExtension ps # exts) = (True, ALPNExtension protos # exts)"
| "set_first_alpn protos (OtherExtension x # exts) = apsnd ((#) (OtherExtension x)) (set_first_alpn protos exts)"

text \<open>
  \<open>utlsConnWrapper.Handshake\<close>: \<open>build\<close> is \<open>BuildHandshakeState\<close> on the extensions of the connection,
  \<open>handshake\<close> the handshake with them. The result is the error and the extensions at the end.
\<close>

definition utls_Handshake ::
  "('x extension list \<Rightarrow> 'x extension list result) \<Rightarrow> ('x extension list \<Rightarrow> go_error option) \<Rightarrow> bytes list
     \<Rightarrow> 'x extension list \<Rightarrow> go_error option \<times> 'x extension list" where
  "utls_Handshake build handshake protos exts =
     (case build exts of
        Inl err \<Rightarrow> (Some err, exts)
      | Inr exts \<Rightarrow>
          let (hasALPNExtension, exts) = set_first_alpn protos exts;
              exts = (if hasALPNExtension then exts else exts @ [ALPNExtension protos])
          in (case build exts of
                Inl err \<Rightarrow> (Some err, exts)
              | Inr exts \<Rightarrow> (handshake exts, exts)))"

section \<open>Dials with a handshake\<close>

text \<open>
  A dial takes the answer of the TCP dial and the handshake, and returns the connection or the error
  together with the list of the connections it closed.
\<close>

definition TLS_DialConn ::
  "('k tls_conn \<Rightarrow> go_error option) \<Rightarrow> Options \<Rightarrow> 'k result \<Rightarrow> 'k tls_conn result \<times> 'k list" where
  "TLS_DialConn handshake o1 dial =
     (case dial of
        Inl err \<Rightarrow> (Inl err, [])
      | Inr conn \<Rightarrow>
          let tlsConn = newClientTLSConn conn (buildClientTLSConfig o1) (Fingerprint o1)
          in (case handshake tlsConn of
                Some err \<Rightarrow> (Inl err, [])
              | None \<Rightarrow> (Inr tlsConn, [])))"

text \<open>
  The \<open>DialTLS\<close> hook of the HTTP/2 transport gets the configuration from the library; the protocol the
  server negotiated must be h2.
\<close>

definition h2_DialTLS ::
  "('k tls_conn \<Rightarrow> go_error option) \<Rightarrow> ('k tls_conn \<Rightarrow> bytes) \<Rightarrow> Options \<Rightarrow> tls_config \<Rightarrow> 'k result
     \<Rightarrow> 'k tls_conn result \<times> 'k list" where
  "h2_DialTLS handshake negotiated o1 cfg dial =
     (case dial of
        Inl err \<Rightarrow> (Inl err, [])
      | Inr pconn \<Rightarrow>
          let cn = newClientTLSConn pconn cfg (Fingerprint o1)
          in (case handshake cn of
                Some err \<Rightarrow> (Inl err, [])
              | None \<Rightarrow>
                  let p = negotiated cn
                  in if p \<noteq> ''h2'' then (Inl (UnexpectedALPN p), []) else (Inr cn, [])))"

section \<open>gRPC credentials\<close>

record grpcTLS =
  grpc_config :: tls_config
  grpc_fingerprint :: bytes

definition NewGrpcTLS :: "tls_config \<Rightarrow> bytes \<Rightarrow> grpcTLS" where
  "NewGrpcTLS c fingerprint = \<lparr>grpc_config = c, grpc_fingerprint = fingerprint\<rparr>"

definition grpc_Clone :: "grpcTLS \<Rightarrow> grpcTLS" where
  "grpc_Clone c = NewGrpcTLS (grpc_config c) (grpc_fingerprint c)"

definition grpc_OverrideServerName :: "bytes \<Rightarrow> grpcTLS \<Rightarrow> go_error option \<times> grpcTLS" where
  "grpc_OverrideServerName name c = (None, c\<lparr>grpc_config := (grpc_config c)\<lparr>cfg_ServerName := name\<rparr>\<rparr>)"

definition grpc_ServerHandshake :: "grpcTLS \<Rightarrow> 'a result" where
  "grpc_ServerHandshake c = Inl (GoPanic ''not available!'')"

definition grpc_Info :: "grpcTLS \<Rightarrow> bytes \<times> bytes \<times> bytes" where
  "grpc_Info c = (''tls'', ''1.2'', cfg_ServerName (grpc_config c))"

text \<open>The local copy that \<open>ClientHandshake\<close> makes of the configuration and then does not use.\<close>

definition grpc_local_config :: "grpcTLS \<Rightarrow> bytes \<Rightarrow> tls_config" where
  "grpc_local_config c authority =
     (let cfg = grpc_config c in
      if cfg_ServerName cfg = [] then
        (case SplitHostPort authority of
           Inl err \<Rightarrow> cfg\<lparr>cfg_ServerName := authority\<rparr>
         | Inr (serverName, _) \<Rightarrow> cfg\<lparr>cfg_ServerName := serverName\<rparr>)
      else cfg)"

text \<open>Which of the two channels the select sees first.\<close>

datatype handshake_event = HandshakeEnds | ContextEnds go_error

definition grpc_ClientHandshake ::
  "('k tls_conn \<Rightarrow> go_error option) \<Rightarrow> handshake_event \<Rightarrow> bytes \<Rightarrow> 'k \<Rightarrow> grpcTLS \<Rightarrow> 'k tls_conn result \<times> 'k list" where
  "grpc_ClientHandshake handshake ev authority rawConn c =
     (let cfg = grpc_local_config c authority;
          cn = newClientTLSConn rawConn (grpc_config c) (grpc_fingerprint c)
      in case ev of
           HandshakeEnds \<Rightarrow>
             (case handshake cn of
                Some err \<Rightarrow> (Inl err, [rawConn])
              | None \<Rightarrow> (Inr cn, []))
         | ContextEnds err \<Rightarrow> (Inl err, [rawConn]))"

section \<open>Lemmas\<close>

lemma config_of_newClientTLSConn [simp]:
  "cfg_NextProtos (config_of (newClientTLSConn k cfg f)) = cfg_NextProtos cfg"
  "cfg_InsecureSkipVerify (config_of (newClientTLSConn k cfg f)) = cfg_InsecureSkipVerify cfg"
  "cfg_SessionTicketsDisabled (config_of (newClientTLSConn k cfg f)) = cfg_SessionTicketsDisabled cfg"
  "cfg_ServerName (config_of (newClientTLSConn k cfg f)) = cfg_ServerName cfg"
  by (simp_all add: newClientTLSConn_def)

definition is_alpn :: "'x extension \<Rightarrow> bool" where
  "is_alpn e = (case e of ALPNExtension _ \<Rightarrow> True | OtherExtension _ \<Rightarrow> False)"

lemma is_alpn_simps [simp]: "is_alpn (ALPNExtension ps)" "\<not> is_alpn (OtherExtension x)"
  by (simp_all add: is_alpn_def)

text \<open>The extensions the second build gets.\<close>

definition with_alpn :: "bytes list \<Rightarrow> 'x extension list \<Rightarrow> 'x extension list" where
  "with_alpn protos exts =
     takeWhile (\<lambda>e. \<not> is_alpn e) exts @ ALPNExtension protos # tl (dropWhile (\<lambda>e. \<not> is_alpn e) exts)"

lemma set_first_alpn_with:
  "(case set_first_alpn protos es of (h, es') \<Rightarrow> if h then es' else es' @ [ALPNExtension protos]) = with_alpn protos es"
proof (induction protos es rule: set_first_alpn.induct)
  case (3 protos x exts)
  then show ?case by (cases "set_first_alpn protos exts") (auto simp: with_alpn_def)
qed (simp_all add: with_alpn_def)

lemma utls_Handshake_with_alpn:
  "utls_Handshake build handshake protos exts =
     (case build exts of
        Inl err \<Rightarrow> (Some err, exts)
      | Inr exts1 \<Rightarrow>
          (case build (with_alpn protos exts1) of
             Inl err \<Rightarrow> (Some err, with_alpn protos exts1)
           | Inr exts2 \<Rightarrow> (handshake exts2, exts2)))"
proof -
  note w = set_first_alpn_with [symmetric]
  show ?thesis
  proof (cases "build exts")
    case (Inr es)
    then show ?thesis unfolding utls_Handshake_def w
      by (cases "set_first_alpn protos es") (auto simp: Let_def split: sum.split)
  qed (simp add: utls_Handshake_def)
qed

section \<open>Properties\<close>

text \<open>
  Whatever fingerprint is chosen, the server is verified as the options say: the connection carries
  the server name, the switch for skipping the verification and the protocols of the configuration.
  The server name is the option if given, else the remote host unless that is an IP address; it is
  empty exactly if no name is given and the remote host is an IP address or empty.
\<close>

theorem tls_server_name:
  "case config_of (newClientTLSConn k (buildClientTLSConfig o1) fingerprint) of cfg \<Rightarrow>
     cfg_InsecureSkipVerify cfg = Insecure o1 \<and> cfg_NextProtos cfg = [''http/1.1''] \<and>
     cfg_ServerName cfg =
       (if ServerName o1 \<noteq> [] then ServerName o1 else if ParseIP_ok (RemoteAddr o1) then [] else RemoteAddr o1) \<and>
     (cfg_ServerName cfg = [] \<longleftrightarrow> ServerName o1 = [] \<and> (ParseIP_ok (RemoteAddr o1) \<or> RemoteAddr o1 = []))"
  by (auto simp: buildClientTLSConfig_def Let_def)

text \<open>
  With a remote host in dotted decimal form and no server name, every TLS dial with verification on
  fails, whatever the fingerprint, if the library refuses a configuration with neither a name nor
  the insecure switch, and the TCP connection it made is left open.
\<close>

theorem tls_ip_without_name:
  assumes "\<And>cn. cfg_ServerName (config_of cn) = [] \<Longrightarrow> \<not> cfg_InsecureSkipVerify (config_of cn) \<Longrightarrow> handshake cn \<noteq> None"
    and "a < 256" "b < 256" "c < 256" "d < 256"
    and "RemoteAddr o1 = dotted a b c d" and "ServerName o1 = []" and "\<not> Insecure o1"
  shows "\<exists>err. TLS_DialConn handshake o1 (Inr conn) = (Inl err, [])"
proof -
  let ?cn = "newClientTLSConn conn (buildClientTLSConfig o1) (Fingerprint o1)"
  have "cfg_ServerName (config_of ?cn) = []" "\<not> cfg_InsecureSkipVerify (config_of ?cn)"
    using assms(6-8) ParseIP_dotted [OF assms(2-5)] by (simp_all add: buildClientTLSConfig_def Let_def)
  then have "handshake ?cn \<noteq> None" by (rule assms(1))
  then obtain err where "handshake ?cn = Some err" by blast
  then show ?thesis by (simp add: TLS_DialConn_def Let_def)
qed

theorem tls_ip_without_name_witness:
  "\<exists>err. TLS_DialConn (\<lambda>cn. if cfg_ServerName (config_of cn) = [] then Some (ExtErr ''tls: no name'') else None)
     (flag_defaults\<lparr>RemoteAddr := dotted 192 0 2 1\<rparr>) (Inr (7 :: nat)) = (Inl err, [])"
  by (rule tls_ip_without_name [of _ 192 0 2 1]) (simp_all add: flag_defaults_def)

text \<open>
  A uTLS handshake is made with the protocols of the configuration: if building the state keeps an
  extension list that has an ALPN extension, the list the handshake uses is that of the fingerprint
  with exactly its first ALPN extension replaced, or one appended when the fingerprint has none.
\<close>

theorem utls_alpn:
  assumes "build exts = Inr exts1" and "build (with_alpn protos exts1) = Inr (with_alpn protos exts1)"
  shows "case utls_Handshake build handshake protos exts of (r, exts2) \<Rightarrow>
    r = handshake exts2 \<and>
    filter is_alpn exts2 = ALPNExtension protos # tl (filter is_alpn exts1) \<and>
    filter (Not \<circ> is_alpn) exts2 = filter (Not \<circ> is_alpn) exts1"
proof -
  have "filter is_alpn (with_alpn protos es) = ALPNExtension protos # tl (filter is_alpn es) \<and>
      filter (Not \<circ> is_alpn) (with_alpn protos es) = filter (Not \<circ> is_alpn) es" for es :: "'a extension list"
  proof (induction es)
    case (Cons e es)
    then show ?case by (cases e) (simp_all add: with_alpn_def)
  qed (simp add: with_alpn_def)
  then show ?thesis using assms by (simp add: utls_Handshake_with_alpn)
qed

theorem utls_alpn_witness:
  "utls_Handshake Inr (\<lambda>_. None) [''h2''] [OtherExtension (1 :: nat), ALPNExtension [''http/1.1''], OtherExtension 2] =
     (None, [OtherExtension 1, ALPNExtension [''h2''], OtherExtension 2]) \<and>
   filter is_alpn (snd (utls_Handshake Inr (\<lambda>_. None) [''h2''] [OtherExtension (1 :: nat), ALPNExtension [''http/1.1''], OtherExtension 2]))
     = [ALPNExtension [''h2'']]"
proof -
  let ?es = "[OtherExtension (1 :: nat), ALPNExtension [''http/1.1''], OtherExtension 2]"
  have "case utls_Handshake Inr (\<lambda>_. None) [''h2''] ?es of (r, exts2) \<Rightarrow>
    r = None \<and> filter is_alpn exts2 = ALPNExtension [''h2''] # tl (filter is_alpn ?es) \<and>
    filter (Not \<circ> is_alpn) exts2 = filter (Not \<circ> is_alpn) ?es"
    by (rule utls_alpn [where handshake = "\<lambda>_. None"]) simp_all
  then show ?thesis by (simp add: utls_Handshake_def Let_def)
qed

text \<open>
  The three dials that run a handshake differ in what they do with the connection when it fails:
  the gRPC credentials close it on every failing path, the TLS transporter and the HTTP/2 hook leave
  it open, the latter also when the server negotiates another protocol. Success closes nothing.
\<close>

theorem handshake_failures:
  "(case grpc_ClientHandshake handshake ev authority conn c of
      (Inl err, closed) \<Rightarrow> closed = [conn]
    | (Inr cn, closed) \<Rightarrow> closed = [] \<and> handshake cn = None) \<and>
   (case TLS_DialConn handshake o1 (Inr conn) of
      (Inl err, closed) \<Rightarrow> closed = [] \<and>
        handshake (newClientTLSConn conn (buildClientTLSConfig o1) (Fingerprint o1)) = Some err
    | (Inr cn, closed) \<Rightarrow> closed = [] \<and> handshake cn = None) \<and>
   (case h2_DialTLS handshake negotiated o1 cfg (Inr conn) of
      (Inl err, closed) \<Rightarrow> closed = [] \<and>
        (handshake (newClientTLSConn conn cfg (Fingerprint o1)) = Some err \<or>
         err = UnexpectedALPN (negotiated (newClientTLSConn conn cfg (Fingerprint o1))))
    | (Inr cn, closed) \<Rightarrow> closed = [] \<and> handshake cn = None \<and> negotiated cn = ''h2'')"
  by (auto simp: grpc_ClientHandshake_def TLS_DialConn_def h2_DialTLS_def Let_def
      split: handshake_event.splits option.splits)

text \<open>
  The gRPC handshake does not look at the authority: the copy of the configuration that gets a
  server name from it is not the one the connection is made with, which keeps the name of the
  credentials, also when that is empty and the copy has the host of the authority, or the
  authority itself if it does not split.
\<close>

theorem grpc_authority_unused:
  "grpc_ClientHandshake handshake ev authority conn c = grpc_ClientHandshake handshake ev authority2 conn c \<and>
   (case grpc_ClientHandshake handshake ev authority conn c of
      (Inl err, closed) \<Rightarrow> True
    | (Inr cn, closed) \<Rightarrow> cfg_ServerName (config_of cn) = cfg_ServerName (grpc_config c)) \<and>
   cfg_ServerName (grpc_local_config c authority) =
     (if cfg_ServerName (grpc_config c) \<noteq> [] then cfg_ServerName (grpc_config c)
      else case SplitHostPort authority of Inl _ \<Rightarrow> authority | Inr (h, _) \<Rightarrow> h)"
  by (auto simp: grpc_ClientHandshake_def grpc_local_config_def Let_def
      split: handshake_event.splits option.splits sum.splits)

text \<open>
  The fingerprint is matched without regard to ASCII case, an unknown one falls back to Chrome with
  a warning, the empty one selects Go's own TLS.
\<close>

theorem fingerprint_choice:
  "(case newClientTLSConn k cfg fingerprint of
      GoTLS k' cfg' \<Rightarrow> fingerprint = [] \<and> k' = k \<and> cfg' = cfg
    | UTLS k' cfg' hello \<Rightarrow> fingerprint \<noteq> [] \<and> k' = k \<and> hello = fst (hello_of fingerprint)) \<and>
   hello_of fingerprint =
     (case map_of [(''chrome'', HelloChrome_Auto), (''ios'', HelloIOS_Auto), (''firefox'', HelloFirefox_Auto),
          (''edge'', HelloEdge_Auto), (''safari'', HelloSafari_Auto), (''360browser'', Hello360_Auto),
          (''qqbrowser'', HelloQQ_Auto)] (strings_ToLower fingerprint) of
        None \<Rightarrow> (HelloChrome_Auto, True) | Some h \<Rightarrow> (h, False))"
  by (auto simp: newClientTLSConn_def hello_of_def Let_def)

end
