(* ===== verification/Base64.thy ===== *)
theory Base64
  imports GoPrelude
begin

text \<open>
  \<open>base64.StdEncoding\<close> of the Go library as src/gost/proxy/client/ws.go and
  src/gost/proxy/server/ws.go, mws.go use it: \<open>EncodeToString\<close> pads, \<open>DecodeString\<close> skips line ends,
  does not look at the unused bits of the last sextet, and on an error returns what it decoded
  before together with the position of the error.
\<close>

section \<open>The alphabet\<close>

definition alphabet :: bytes where
  "alphabet = ''ABCDEFGHIJKLMNOPQRSTUVWXYZabcdefghijklmnopqrstuvwxyz0123456789+/''"

definition encode_char :: "nat \<Rightarrow> char" where
  "encode_char n = alphabet ! n"

definition decode_char :: "char \<Rightarrow> nat option" where
  "decode_char c = List.find (\<lambda>i. alphabet ! i = c) [0..<length alphabet]"

definition is_newline :: "char \<Rightarrow> bool" where
  "is_newline c \<longleftrightarrow> c = CHR 0x0A \<or> c = CHR 0x0D"

lemma length_alphabet: "length alphabet = 64"
  by (simp add: alphabet_def)

lemma distinct_alphabet: "distinct alphabet"
  by (simp add: alphabet_def)

lemma pad_not_in_alphabet: "CHR ''='' \<notin> set alphabet"
  by (simp add: alphabet_def)

lemma decode_encode_char: "n < 64 \<Longrightarrow> decode_char (encode_char n) = Some n"
  using distinct_alphabet
  by (auto simp: decode_char_def encode_char_def find_Some_iff length_alphabet nth_eq_iff_index_eq)

lemma decode_pad: "decode_char (CHR ''='') = None"
  using pad_not_in_alphabet by (auto simp: decode_char_def find_None_iff in_set_conv_nth)

lemma not_newline_pad [simp]: "\<not> is_newline (CHR ''='')"
  by (simp add: is_newline_def)

section \<open>Three bytes and four sextets\<close>

definition group24 :: "nat \<Rightarrow> nat \<Rightarrow> nat \<Rightarrow> nat" where
  "group24 a b c = a * 65536 + b * 256 + c"

definition sextet :: "nat \<Rightarrow> nat \<Rightarrow> nat" where
  "sextet i v = v div 64 ^ (3 - i) mod 64"

definition from_sextets :: "nat \<Rightarrow> nat \<Rightarrow> nat \<Rightarrow> nat \<Rightarrow> bytes" where
  "from_sextets w x y z =
     (let v = w * 262144 + x * 4096 + y * 64 + z
      in [char_of (v div 65536), char_of (v div 256 mod 256), char_of (v mod 256)])"

lemma sextet_less: "sextet i v < 64"
  by (simp add: sextet_def)

lemma sextets_value:
  assumes "v < 16777216"
  shows "sextet 0 v * 262144 + sextet 1 v * 4096 + sextet 2 v * 64 + sextet 3 v = v"
proof -
  have 1: "v = (v div 64) * 64 + v mod 64" by simp
  have 2: "v div 64 = (v div 4096) * 64 + v div 64 mod 64"
    using div_mult_mod_eq [of "v div 64" 64] by (simp add: div_mult2_eq [symmetric])
  have 3: "v div 4096 = (v div 262144) * 64 + v div 4096 mod 64"
    using div_mult_mod_eq [of "v div 4096" 64] by (simp add: div_mult2_eq [symmetric])
  have 4: "v div 262144 mod 64 = v div 262144" using assms by simp
  have s: "sextet 0 v = v div 262144 mod 64" "sextet 1 v = v div 4096 mod 64"
      "sextet 2 v = v div 64 mod 64" "sextet 3 v = v mod 64"
    by (simp_all add: sextet_def)
  show ?thesis using 1 2 3 4 unfolding s by linarith
qed

lemma group24_parts:
  assumes "b < 256" and "c < 256"
  shows "group24 a b c div 65536 = a" "group24 a b c div 256 mod 256 = b" "group24 a b c mod 256 = c"
proof -
  have g: "group24 a b c = c + (b + a * 256) * 256" by (simp add: group24_def)
  have d: "group24 a b c div 256 = b + a * 256" using assms(2) unfolding g by (subst div_mult_self1) simp_all
  show "group24 a b c mod 256 = c" using assms(2) unfolding g by (subst mod_mult_self1) simp
  show "group24 a b c div 256 mod 256 = b" using assms(1) unfolding d by (subst mod_mult_self1) simp
  have "group24 a b c div 256 div 256 = a" using assms(1) unfolding d by (subst div_mult_self1) simp_all
  then show "group24 a b c div 65536 = a" by (simp add: div_mult2_eq [symmetric])
qed

lemma from_sextets_group:
  fixes a b c :: char
  defines "v \<equiv> group24 (of_char a) (of_char b) (of_char c)"
  shows "from_sextets (sextet 0 v) (sextet 1 v) (sextet 2 v) (sextet 3 v) = [a, b, c]"
proof -
  have l: "(of_char x :: nat) < 256" for x by (rule nat_of_char_less_256)
  have "v < 16777216" using l [of a] l [of b] l [of c] unfolding v_def group24_def by linarith
  note sv = sextets_value [OF this]
  have "v div 65536 = of_char a" and "v div 256 mod 256 = of_char b" and "v mod 256 = of_char c"
    unfolding v_def by (rule group24_parts; rule l)+
  then show ?thesis unfolding from_sextets_def Let_def sv by simp
qed

section \<open>Encoding\<close>

definition encode4 :: "nat \<Rightarrow> bytes" where
  "encode4 v = map (\<lambda>i. encode_char (sextet i v)) [0, 1, 2, 3]"

fun EncodeToString :: "bytes \<Rightarrow> bytes" where
  "EncodeToString [] = []"
| "EncodeToString [a] = take 2 (encode4 (group24 (of_char a) 0 0)) @ ''==''"
| "EncodeToString [a, b] = take 3 (encode4 (group24 (of_char a) (of_char b) 0)) @ ''=''"
| "EncodeToString (a # b # c # src) = encode4 (group24 (of_char a) (of_char b) (of_char c)) @ EncodeToString src"

section \<open>Decoding\<close>

definition skip_newlines :: "bytes \<Rightarrow> bytes" where
  "skip_newlines src = dropWhile is_newline src"

text \<open>
  The end of the input after the padding of a quantum with \<open>length buf\<close> sextets; \<open>len\<close> is the length
  of the whole input, positions count from its start.
\<close>

definition finish_quantum :: "nat \<Rightarrow> nat list \<Rightarrow> bytes \<Rightarrow> bytes \<times> bytes \<times> go_error option" where
  "finish_quantum len buf src =
     (let src = skip_newlines src;
          out = (case buf @ [0, 0, 0, 0] of w # x # y # z # _ \<Rightarrow> from_sextets w x y z | _ \<Rightarrow> [])
      in (src, take (length buf - 1) out, if src = [] then None else Some (CorruptInput (len - length src))))"

text \<open>After a padding character: it must be the last of two, or of one.\<close>

definition pad_quantum :: "nat \<Rightarrow> nat list \<Rightarrow> bytes \<Rightarrow> bytes \<times> bytes \<times> go_error option" where
  "pad_quantum len buf src =
     (if length buf < 2 then (src, [], Some (CorruptInput (len - length src - 1)))
      else if length buf = 2 then
        (case skip_newlines src of
           [] \<Rightarrow> ([], [], Some (CorruptInput len))
         | p # src' \<Rightarrow>
             if p \<noteq> CHR ''='' then (p # src', [], Some (CorruptInput (len - length (p # src') - 1)))
             else finish_quantum len buf src')
      else finish_quantum len buf src)"

text \<open>\<open>decodeQuantum\<close>: the rest of the input, the bytes of the quantum and the error.\<close>

fun decodeQuantum :: "nat \<Rightarrow> nat list \<Rightarrow> bytes \<Rightarrow> bytes \<times> bytes \<times> go_error option" where
  "decodeQuantum len buf [] =
     ([], [], if buf = [] then None else Some (CorruptInput (len - length buf)))"
| "decodeQuantum len buf (c # src) =
     (case decode_char c of
        Some v \<Rightarrow>
          if length buf = 3 then (src, from_sextets (buf ! 0) (buf ! 1) (buf ! 2) v, None)
          else decodeQuantum len (buf @ [v]) src
      | None \<Rightarrow>
          if is_newline c then decodeQuantum len buf src
          else if c \<noteq> CHR ''='' then (src, [], Some (CorruptInput (len - length src - 1)))
          else pad_quantum len buf src)"

lemma skip_newlines_length: "length (skip_newlines src) \<le> length src"
  by (simp add: skip_newlines_def length_dropWhile_le)

lemma finish_quantum_length: "finish_quantum len buf src = (src', d, e) \<Longrightarrow> length src' \<le> length src"
  using skip_newlines_length [of src] by (auto simp: finish_quantum_def Let_def)

lemma pad_quantum_length: "pad_quantum len buf src = (src', d, e) \<Longrightarrow> length src' \<le> length src"
  using skip_newlines_length [of src]
  by (cases "skip_newlines src") (auto simp: pad_quantum_def simp del: length_greater_0_conv
      split: if_splits dest!: finish_quantum_length dest: sym [of "_ # _"])

lemma decodeQuantum_length:
  "decodeQuantum len buf src = (src', d, e) \<Longrightarrow> length src' \<le> length src - 1"
proof (induction len buf src rule: decodeQuantum.induct)
  case (2 len buf c src)
  show ?case
  proof (cases "decode_char c")
    case None
    then show ?thesis using "2.prems" "2.IH"(1) [OF None] pad_quantum_length [of len buf src src' d e]
      by (auto split: if_splits)
  next
    case (Some v)
    then show ?thesis using "2.prems" "2.IH"(2) [OF Some] by (auto split: if_splits)
  qed
qed simp

declare decodeQuantum.simps(2) [simp del]

text \<open>The loop of \<open>Decode\<close>.\<close>

function decode_loop :: "nat \<Rightarrow> bytes \<Rightarrow> bytes \<times> go_error option" where
  "decode_loop len [] = ([], None)"
| "decode_loop len (c # src) =
     (case decodeQuantum len [] (c # src) of
        (src', d, Some err) \<Rightarrow> (d, Some err)
      | (src', d, None) \<Rightarrow> apfst ((@) d) (decode_loop len src'))"
  by pat_completeness auto
termination
  by (relation "measure (\<lambda>(len, src). length src)") (auto dest!: decodeQuantum_length [OF sym])

declare decode_loop.simps(2) [simp del]

definition DecodeString :: "bytes \<Rightarrow> bytes \<times> go_error option" where
  "DecodeString s = decode_loop (length s) s"

section \<open>The round trip\<close>

lemma sextet_step:
  "n < 64 \<Longrightarrow> decodeQuantum len buf (encode_char n # src) =
     (if length buf = 3 then (src, from_sextets (buf ! 0) (buf ! 1) (buf ! 2) n, None)
      else decodeQuantum len (buf @ [n]) src)"
  by (simp add: decodeQuantum.simps(2) decode_encode_char)

lemma pad_step: "decodeQuantum len buf (CHR ''='' # src) = pad_quantum len buf src"
  by (simp add: decodeQuantum.simps(2) decode_pad)

lemma decode_loop_nonempty:
  "s \<noteq> [] \<Longrightarrow> decode_loop len s =
     (case decodeQuantum len [] s of
        (src', d, Some err) \<Rightarrow> (d, Some err)
      | (src', d, None) \<Rightarrow> apfst ((@) d) (decode_loop len src'))"
  by (cases s) (simp_all add: decode_loop.simps(2))

lemma decode_group:
  "decodeQuantum len [] (encode4 (group24 (of_char a) (of_char b) (of_char c)) @ src) = (src, [a, b, c], None)"
  using from_sextets_group [of a b c] by (simp add: encode4_def sextet_step sextet_less)

lemma sextet_last:
  "sextet 3 (group24 a b 0) = 0" "sextet 2 (group24 a 0 0) = 0" "sextet 3 (group24 a 0 0) = 0"
  unfolding sextet_def group24_def by (simp; presburger)+

lemma char_of_0: "of_char (CHR 0x00) = (0 :: nat)"
  by simp

lemma decode_loop_encode: "decode_loop len (EncodeToString d) = (d, None)"
proof (induction d rule: EncodeToString.induct)
  case (2 a)
  have "decodeQuantum len [] (EncodeToString [a]) = ([], [a], None)"
    using from_sextets_group [of a "CHR 0x00" "CHR 0x00"]
    by (simp add: encode4_def sextet_step sextet_less pad_step pad_quantum_def finish_quantum_def
        skip_newlines_def sextet_last)
  then show ?case by (subst decode_loop_nonempty) simp_all
next
  case (3 a b)
  have "decodeQuantum len [] (EncodeToString [a, b]) = ([], [a, b], None)"
    using from_sextets_group [of a b "CHR 0x00"]
    by (simp add: encode4_def sextet_step sextet_less pad_step pad_quantum_def finish_quantum_def
        skip_newlines_def sextet_last take_Suc_conv_app_nth numeral_2_eq_2)
  then show ?case by (subst decode_loop_nonempty) simp_all
next
  case (4 a b c src)
  have "EncodeToString (a # b # c # src) \<noteq> []" by (simp add: encode4_def)
  then show ?case using 4 by (subst decode_loop_nonempty) (simp_all add: decode_group)
qed simp

lemma DecodeString_EncodeToString: "DecodeString (EncodeToString d) = (d, None)"
  by (simp add: DecodeString_def decode_loop_encode)

lemma length_EncodeToString: "length (EncodeToString d) = 4 * ((length d + 2) div 3)"
proof (induction d rule: EncodeToString.induct)
  case (4 a b c src)
  have "(length (a # b # c # src) + 2) div 3 = Suc ((length src + 2) div 3)" by simp
  then show ?case using 4 by (simp add: encode4_def)
qed (simp_all add: encode4_def)

lemma EncodeToString_eq_Nil: "EncodeToString d = [] \<longleftrightarrow> d = []"
  by (cases d rule: EncodeToString.cases) (simp_all add: encode4_def)

end
