(* ===== verification/Streams.thy ===== *)
theory Streams
  imports GoPrelude
begin

text \<open>
  The connections of src/gost/protocol that turn a message service into a byte stream: gun (gRPC
  hunks), websocket messages and QUIC streams. A read follows Go's convention: it returns the bytes
  put into the buffer together with an optional error; \<open>None\<close> is a read that blocks. The contract of
  a reader is a locale; what holds of reading in general is proved once in it.
\<close>

section \<open>The contract of a byte stream\<close>

type_synonym read_answer = "bytes \<times> go_error option"
type_synonym 's reader = "nat \<Rightarrow> 's \<Rightarrow> (read_answer \<times> 's) option"

text \<open>
  \<open>remaining\<close> is all that a reader will still deliver, \<open>pending\<close> how many answers of the service it
  has not asked for yet, \<open>healthy\<close> that none of them is an error.
\<close>

locale byte_reader =
  fixes read :: "'s reader"
    and remaining :: "'s \<Rightarrow> bytes"
    and pending :: "'s \<Rightarrow> nat"
    and healthy :: "'s \<Rightarrow> bool"
  assumes read_split: "read n s = Some ((d, e), s') \<Longrightarrow> remaining s = d @ remaining s'"
    and read_bound: "read n s = Some ((d, e), s') \<Longrightarrow> length d \<le> n"
    and read_blocks: "read n s = None \<Longrightarrow> remaining s = []"
    and read_progress: "read n s = Some ((d, e), s') \<Longrightarrow> 0 < n \<Longrightarrow>
          length (remaining s') + pending s' < length (remaining s) + pending s"
    and read_healthy: "healthy s \<Longrightarrow> read n s = Some ((d, e), s') \<Longrightarrow> e = None \<and> healthy s'"
begin

text \<open>A consumer that reads with buffers of the given sizes until a read blocks or fails.\<close>

fun read_all :: "nat list \<Rightarrow> 's \<Rightarrow> bytes \<times> go_error option \<times> 's" where
  "read_all [] s = ([], None, s)"
| "read_all (n # ns) s =
     (case read n s of
        None \<Rightarrow> ([], None, s)
      | Some ((d, Some e), s') \<Rightarrow> (d, Some e, s')
      | Some ((d, None), s') \<Rightarrow> apfst ((@) d) (read_all ns s'))"

lemma read_all_split: "read_all ns s = (d, e, s') \<Longrightarrow> remaining s = d @ remaining s'"
proof (induction ns s arbitrary: d e s' rule: read_all.induct)
  case (2 n ns s)
  then show ?case
    by (cases "read_all ns s'")
      (fastforce dest: read_split split: option.splits prod.splits simp: apfst_def map_prod_def)
qed simp

lemma read_all_healthy: "healthy s \<Longrightarrow> read_all ns s = (d, e, s') \<Longrightarrow> e = None \<and> healthy s'"
proof (induction ns s arbitrary: d e s' rule: read_all.induct)
  case (2 n ns s)
  then show ?case
    by (fastforce dest: read_healthy split: option.splits prod.splits simp: apfst_def map_prod_def)
qed simp

text \<open>Enough reads with non-empty buffers deliver everything.\<close>

lemma read_all_complete:
  "healthy s \<Longrightarrow> \<forall>n \<in> set ns. 0 < n \<Longrightarrow> length (remaining s) + pending s \<le> length ns \<Longrightarrow>
     read_all ns s = (d, e, s') \<Longrightarrow> remaining s' = [] \<and> d = remaining s"
proof (induction ns arbitrary: s d e s')
  case (Cons n ns)
  show ?case
  proof (cases "read n s")
    case None
    then show ?thesis using Cons.prems read_blocks by simp
  next
    case (Some r)
    obtain d1 e1 s1 where r: "read n s = Some ((d1, e1), s1)" using Some by (cases r) auto
    have h: "e1 = None" "healthy s1" using read_healthy Cons.prems(1) r by blast+
    obtain d2 e2 s2 where a: "read_all ns s1 = (d2, e2, s2)" by (cases "read_all ns s1") auto
    have "length (remaining s1) + pending s1 \<le> length ns"
      using read_progress [OF r] Cons.prems(2,3) by simp
    then have "remaining s2 = [] \<and> d2 = remaining s1"
      using Cons.IH [OF h(2) _ _ a] Cons.prems(2) by simp
    then show ?thesis using Cons.prems(4) h a r read_split [OF r] by simp
  qed
qed simp

text \<open>Whatever the buffer sizes, a consumer sees a prefix of what remains.\<close>

lemma read_all_prefix: "fst (read_all ns s) = take (length (fst (read_all ns s))) (remaining s)"
  using read_all_split [of ns s] by (cases "read_all ns s") auto

end

section \<open>gun\<close>

text \<open>
  \<open>GunConnection\<close> (src/gost/protocol/gun/conn.go). Of the gRPC stream the connection uses \<open>Recv\<close> and
  \<open>Send\<close>: the answers that \<open>Recv\<close> will give, in order, and the data of the hunks that \<open>Send\<close> took,
  are fields of the state; what \<open>Send\<close> answers is an argument. \<open>gun_done\<close> is whether the channel
  \<open>done\<close> is closed.
\<close>

record GunConnection =
  gun_recv :: "bytes result list"
  gun_sent :: "bytes list"
  gun_local :: net_addr
  gun_remote :: net_addr
  gun_rb :: bytes
  gun_done :: bool

definition zero_addr :: net_addr where
  "zero_addr = TCPAddr ''0.0.0.0'' 0"

text \<open>\<open>pr\<close> is the answer of \<open>peer.FromContext\<close>; a nil local address is \<open>None\<close>.\<close>

definition NewGunConnection :: "bytes result list \<Rightarrow> net_addr option \<Rightarrow> net_addr option \<Rightarrow> GunConnection" where
  "NewGunConnection answers pr loc =
     \<lparr>gun_recv = answers, gun_sent = [],
      gun_local = (case loc of None \<Rightarrow> zero_addr | Some a \<Rightarrow> a),
      gun_remote = (case pr of None \<Rightarrow> zero_addr | Some a \<Rightarrow> a),
      gun_rb = [], gun_done = False\<rparr>"

definition gun_Read :: "GunConnection reader" where
  "gun_Read n c =
     (let copy_out = (\<lambda>c. case go_copy n (gun_rb c) of (d, rest) \<Rightarrow> Some ((d, None), c\<lparr>gun_rb := rest\<rparr>))
      in if gun_rb c = [] then
           (case gun_recv c of
              [] \<Rightarrow> None
            | Inl err # answers \<Rightarrow> Some (([], Some err), c\<lparr>gun_recv := answers\<rparr>)
            | Inr data # answers \<Rightarrow> copy_out (c\<lparr>gun_recv := answers, gun_rb := data\<rparr>))
         else copy_out c)"

definition gun_Write :: "go_error option \<Rightarrow> bytes \<Rightarrow> GunConnection \<Rightarrow> (nat \<times> go_error option) \<times> GunConnection" where
  "gun_Write answer b c =
     (case answer of
        Some err \<Rightarrow> ((0, Some err), c)
      | None \<Rightarrow> ((length b, None), c\<lparr>gun_sent := gun_sent c @ [b]\<rparr>))"

text \<open>\<open>close(c.done)\<close> panics when the channel is already closed.\<close>

definition gun_Close :: "GunConnection \<Rightarrow> GunConnection result" where
  "gun_Close c =
     (if gun_done c then Inl (GoPanic ''close of closed channel'') else Inr (c\<lparr>gun_done := True\<rparr>))"

definition gun_remaining :: "GunConnection \<Rightarrow> bytes" where
  "gun_remaining c = gun_rb c @ concat (map (case_sum (\<lambda>_. []) id) (gun_recv c))"

interpretation gun: byte_reader gun_Read gun_remaining "\<lambda>c. length (gun_recv c)" "\<lambda>c. \<forall>a \<in> set (gun_recv c). \<not> isl a"
  by unfold_locales
    (auto simp: gun_Read_def gun_remaining_def go_copy_def Let_def split: if_splits list.splits sum.splits)

section \<open>websocket\<close>

text \<open>
  \<open>websocketConn\<close> (src/gost/protocol/websocket/conn.go). \<open>ReadMessage\<close> may return the part of a message
  that arrived together with the error; the connection starts with a buffer, the early data on the
  server.
\<close>

record websocketConn =
  ws_answers :: "read_answer list"
  ws_sent :: "bytes list"
  ws_rb :: bytes
  ws_closes :: nat

definition NewWebsocketConn :: "read_answer list \<Rightarrow> bytes \<Rightarrow> websocketConn" where
  "NewWebsocketConn answers rb = \<lparr>ws_answers = answers, ws_sent = [], ws_rb = rb, ws_closes = 0\<rparr>"

definition ws_Read :: "websocketConn reader" where
  "ws_Read n c =
     (let copy_out = (\<lambda>err c. case go_copy n (ws_rb c) of (d, rest) \<Rightarrow> Some ((d, err), c\<lparr>ws_rb := rest\<rparr>))
      in if ws_rb c = [] then
           (case ws_answers c of
              [] \<Rightarrow> None
            | (data, err) # answers \<Rightarrow> copy_out err (c\<lparr>ws_answers := answers, ws_rb := data\<rparr>))
         else copy_out None c)"

text \<open>The count is the length of the buffer even if the message could not be written.\<close>

definition ws_Write :: "go_error option \<Rightarrow> bytes \<Rightarrow> websocketConn \<Rightarrow> (nat \<times> go_error option) \<times> websocketConn" where
  "ws_Write answer b c =
     ((length b, answer), if answer = None then c\<lparr>ws_sent := ws_sent c @ [b]\<rparr> else c)"

definition ws_Close :: "go_error option \<Rightarrow> websocketConn \<Rightarrow> go_error option \<times> websocketConn" where
  "ws_Close answer c = (answer, c\<lparr>ws_closes := Suc (ws_closes c)\<rparr>)"

text \<open>
  \<open>SetDeadline\<close> sets the read deadline and, if that worked, the write deadline; the result is the
  error and which of the two calls were made.
\<close>

datatype deadline_call = ReadDeadline int | WriteDeadline int

definition ws_SetDeadline ::
  "go_error option \<Rightarrow> go_error option \<Rightarrow> int \<Rightarrow> go_error option \<times> deadline_call list" where
  "ws_SetDeadline read_answer write_answer t =
     (case read_answer of
        Some err \<Rightarrow> (Some err, [ReadDeadline t])
      | None \<Rightarrow> (write_answer, [ReadDeadline t, WriteDeadline t]))"

definition ws_remaining :: "websocketConn \<Rightarrow> bytes" where
  "ws_remaining c = ws_rb c @ concat (map fst (ws_answers c))"

interpretation ws: byte_reader ws_Read ws_remaining "\<lambda>c. length (ws_answers c)" "\<lambda>c. \<forall>a \<in> set (ws_answers c). snd a = None"
  by unfold_locales
    (auto simp: ws_Read_def ws_remaining_def go_copy_def Let_def split: if_splits list.splits)

section \<open>QUIC\<close>

text \<open>
  \<open>interConn\<close> (src/gost/protocol/quic/conn.go) hands every call to the stream: read, write and close of
  the stream are arguments.
\<close>

record 's interConn =
  quic_stream :: 's
  quic_local :: net_addr
  quic_remote :: net_addr

definition NewQUICConn :: "'s \<Rightarrow> net_addr \<Rightarrow> net_addr \<Rightarrow> 's interConn" where
  "NewQUICConn strm loc remote = \<lparr>quic_stream = strm, quic_local = loc, quic_remote = remote\<rparr>"

definition quic_Read :: "'s reader \<Rightarrow> 's interConn reader" where
  "quic_Read rd n c =
     (case rd n (quic_stream c) of None \<Rightarrow> None | Some (a, s) \<Rightarrow> Some (a, c\<lparr>quic_stream := s\<rparr>))"

definition quic_Write ::
  "(bytes \<Rightarrow> 's \<Rightarrow> (nat \<times> go_error option) \<times> 's) \<Rightarrow> bytes \<Rightarrow> 's interConn \<Rightarrow> (nat \<times> go_error option) \<times> 's interConn" where
  "quic_Write wr b c = (case wr b (quic_stream c) of (a, s) \<Rightarrow> (a, c\<lparr>quic_stream := s\<rparr>))"

definition quic_Close :: "('s \<Rightarrow> go_error option \<times> 's) \<Rightarrow> 's interConn \<Rightarrow> go_error option \<times> 's interConn" where
  "quic_Close cl c = (case cl (quic_stream c) of (a, s) \<Rightarrow> (a, c\<lparr>quic_stream := s\<rparr>))"

text \<open>The wrapper keeps the contract of the stream.\<close>

context byte_reader begin

lemma quic_Read_Some:
  "quic_Read read n c = Some (a, c') \<longleftrightarrow>
     (\<exists>s. read n (quic_stream c) = Some (a, s) \<and> c' = c\<lparr>quic_stream := s\<rparr>)"
  by (auto simp: quic_Read_def split: option.splits)

lemma quic_reader:
  "byte_reader (quic_Read read) (\<lambda>c. remaining (quic_stream c)) (\<lambda>c. pending (quic_stream c))
     (\<lambda>c. healthy (quic_stream c))"
proof unfold_locales
  fix n c d e c'
  assume "quic_Read read n c = Some ((d, e), c')"
  then obtain s where s: "read n (quic_stream c) = Some ((d, e), s)" "c' = c\<lparr>quic_stream := s\<rparr>"
    unfolding quic_Read_Some by blast
  show "remaining (quic_stream c) = d @ remaining (quic_stream c')" using read_split s by simp
  show "length d \<le> n" using read_bound s(1) by simp
  show "length (remaining (quic_stream c')) + pending (quic_stream c')
      < length (remaining (quic_stream c)) + pending (quic_stream c)" if "0 < n"
    using read_progress [OF s(1) that] s(2) by simp
  show "e = None \<and> healthy (quic_stream c')" if "healthy (quic_stream c)"
    using read_healthy [OF that s(1)] s(2) by simp
next
  fix n c
  assume "quic_Read read n c = None"
  then show "remaining (quic_stream c) = []"
    by (intro read_blocks) (simp add: quic_Read_def split: option.splits prod.splits)
qed

end

section \<open>Sequences of writes\<close>

text \<open>Writes that the service all accepts.\<close>

definition gun_write_all :: "bytes list \<Rightarrow> GunConnection \<Rightarrow> GunConnection" where
  "gun_write_all ms c = fold (\<lambda>m c. snd (gun_Write None m c)) ms c"

definition ws_write_all :: "bytes list \<Rightarrow> websocketConn \<Rightarrow> websocketConn" where
  "ws_write_all ms c = fold (\<lambda>m c. snd (ws_Write None m c)) ms c"

lemma gun_write_all_sent: "gun_sent (gun_write_all ms c) = gun_sent c @ ms"
  unfolding gun_write_all_def by (induction ms arbitrary: c) (simp_all add: gun_Write_def)

lemma ws_write_all_sent: "ws_sent (ws_write_all ms c) = ws_sent c @ ms"
  unfolding ws_write_all_def by (induction ms arbitrary: c) (simp_all add: ws_Write_def)

section \<open>Properties\<close>

text \<open>
  A gun connection carries a byte stream. If the peer's \<open>Recv\<close> gives the hunks in the order in
  which \<open>Send\<close> took them, then whatever buffer sizes the peer reads with, what it has read is a prefix
  of the concatenation of the writes, no read fails, and with as many non-empty buffers as there are
  bytes and hunks it is the whole of it.
\<close>

theorem gun_transfer:
  assumes "gun_recv r = map Inr (gun_sent (gun_write_all ms (NewGunConnection answers pr loc)))"
    and "gun_rb r = []"
    and "gun.read_all ns r = (d, e, r')"
  shows "e = None \<and> (\<exists>rest. concat ms = d @ rest) \<and>
    ((\<forall>n \<in> set ns. 0 < n) \<and> length (concat ms) + length ms \<le> length ns \<longrightarrow> d = concat ms)"
proof -
  have recv: "gun_recv r = map Inr ms"
    using assms(1) by (simp add: gun_write_all_sent NewGunConnection_def)
  have rem: "gun_remaining r = concat ms"
    by (simp add: gun_remaining_def assms(2) recv o_def)
  have h: "\<forall>a \<in> set (gun_recv r). \<not> isl a" by (simp add: recv)
  have "e = None" using gun.read_all_healthy [OF h assms(3)] by simp
  moreover have "concat ms = d @ gun_remaining r'"
    using gun.read_all_split [OF assms(3)] by (simp add: rem)
  moreover have "d = concat ms"
    if "\<forall>n \<in> set ns. 0 < n" "length (concat ms) + length ms \<le> length ns"
    using gun.read_all_complete [OF h that(1) _ assms(3)] that(2) by (simp add: rem recv)
  ultimately show ?thesis by blast
qed

theorem gun_transfer_witness:
  "\<exists>e r'. gun.read_all (replicate 7 2)
      (NewGunConnection (map Inr (gun_sent (gun_write_all [''abc'', [], ''d''] (NewGunConnection [] None None)))) None None)
      = (''abcd'', e, r') \<and> e = None"
proof -
  let ?r = "NewGunConnection (map Inr (gun_sent (gun_write_all [''abc'', [], ''d''] (NewGunConnection [] None None)))) None None"
  obtain d e r' where a: "gun.read_all (replicate 7 2) ?r = (d, e, r')"
    by (cases "gun.read_all (replicate 7 2) ?r") auto
  have "gun_recv ?r = map Inr (gun_sent (gun_write_all [''abc'', [], ''d''] (NewGunConnection [] None None)))"
    and "gun_rb ?r = []" by (simp_all add: NewGunConnection_def)
  from gun_transfer [OF this a] have "e = None \<and> d = ''abcd''" by simp
  with a show ?thesis by blast
qed

text \<open>
  A websocket connection delivers first the buffer it was created with, then the messages in
  order; a failed \<open>ReadMessage\<close> still delivers the bytes that came with the error, and buffered bytes
  are delivered without asking for a message. Whatever the buffer sizes, nothing is lost,
  duplicated or reordered up to the point the consumer stopped at.
\<close>

theorem ws_transfer:
  assumes "ws.read_all ns (NewWebsocketConn answers ed) = (d, e, c)"
  shows "ed @ concat (map fst answers) = d @ ws_rb c @ concat (map fst (ws_answers c)) \<and>
    ((\<forall>a \<in> set answers. snd a = None) \<and> (\<forall>n \<in> set ns. 0 < n) \<and>
       length ed + length (concat (map fst answers)) + length answers \<le> length ns \<longrightarrow>
     e = None \<and> d = ed @ concat (map fst answers))"
proof -
  let ?c = "NewWebsocketConn answers ed"
  have rem: "ws_remaining ?c = ed @ concat (map fst answers)" and ans: "ws_answers ?c = answers"
    by (simp_all add: ws_remaining_def NewWebsocketConn_def)
  have "e = None \<and> d = ed @ concat (map fst answers)"
    if "\<forall>a \<in> set answers. snd a = None" "\<forall>n \<in> set ns. 0 < n"
      "length ed + length (concat (map fst answers)) + length answers \<le> length ns"
    using ws.read_all_complete [OF _ that(2) _ assms] ws.read_all_healthy [OF _ assms] that(1,3)
    unfolding rem ans by simp
  then show ?thesis using ws.read_all_split [OF assms] unfolding rem by (simp add: ws_remaining_def)
qed

theorem ws_transfer_witness:
  "\<exists>c. ws.read_all (replicate 10 3) (NewWebsocketConn [(''hello'', None), (''!'', None)] ''ed'') = (''edhello!'', None, c)"
proof -
  let ?c = "NewWebsocketConn [(''hello'', None), (''!'', None)] ''ed''"
  obtain d e c where a: "ws.read_all (replicate 10 3) ?c = (d, e, c)"
    by (cases "ws.read_all (replicate 10 3) ?c") auto
  have "e = None \<and> d = ''edhello!''" using ws_transfer [OF a, THEN conjunct2] by simp
  with a show ?thesis by blast
qed

text \<open>
  Closing a gun connection only closes the channel its creator waits on: nothing is sent, nothing
  is told to the gRPC stream, so the next answers of \<open>Recv\<close> are the ones they would have been and a
  read that blocked before blocks after. A second close panics.
\<close>

theorem gun_Close_local:
  shows "gun_Close c = (if gun_done c then Inl (GoPanic ''close of closed channel'') else Inr (c\<lparr>gun_done := True\<rparr>)) \<and>
    (case gun_Close c of
       Inl e \<Rightarrow> is_panic e
     | Inr c' \<Rightarrow> gun_sent c' = gun_sent c \<and> gun_recv c' = gun_recv c \<and>
         (\<forall>n. gun_Read n c' = map_option (apsnd (\<lambda>c. c\<lparr>gun_done := True\<rparr>)) (gun_Read n c)) \<and>
         is_panic (projl (gun_Close c')))"
  by (auto simp: gun_Close_def gun_Read_def go_copy_def Let_def split: list.splits sum.splits)

end
