(* ===== verification/ConnQueue.thy ===== *)
theory ConnQueue
  imports GoPrelude
begin

text \<open>
  The bounded queue of accepted connections, \<open>ConnChan chan net.Conn\<close>: a buffered Go channel that
  producers send to with \<open>select \{ case ch <- x: default: \}\<close> and one consumer receives from. The
  contract is a locale; the producers of all listeners rest on its lemmas.
\<close>

section \<open>Buffered channels\<close>

record 'a chan =
  chan_buf :: "'a list"
  chan_cap :: nat

definition make_chan :: "nat \<Rightarrow> 'a chan" where
  "make_chan n = \<lparr>chan_buf = [], chan_cap = n\<rparr>"

text \<open>
  A send in a \<open>select\<close> with a default case succeeds if there is room; otherwise the default case
  is taken and the channel is as it was.
\<close>

definition chan_try_send :: "'a chan \<Rightarrow> 'a \<Rightarrow> bool \<times> 'a chan" where
  "chan_try_send c x =
     (if length (chan_buf c) < chan_cap c then (True, c\<lparr>chan_buf := chan_buf c @ [x]\<rparr>) else (False, c))"

text \<open>\<open>None\<close> is a receive that blocks.\<close>

definition chan_recv :: "'a chan \<Rightarrow> ('a \<times> 'a chan) option" where
  "chan_recv c = (case chan_buf c of [] \<Rightarrow> None | x # xs \<Rightarrow> Some (x, c\<lparr>chan_buf := xs\<rparr>))"

section \<open>The contract\<close>

datatype 'a queue_event = Offer 'a | Take

locale conn_queue =
  fixes try_send :: "'q \<Rightarrow> 'a \<Rightarrow> bool \<times> 'q"
    and recv :: "'q \<Rightarrow> ('a \<times> 'q) option"
    and items :: "'q \<Rightarrow> 'a list"
    and capacity :: "'q \<Rightarrow> nat"
  assumes send_iff: "fst (try_send q x) \<longleftrightarrow> length (items q) < capacity q"
    and send_items: "items (snd (try_send q x)) = (if fst (try_send q x) then items q @ [x] else items q)"
    and send_capacity: "capacity (snd (try_send q x)) = capacity q"
    and recv_None: "recv q = None \<longleftrightarrow> items q = []"
    and recv_Some: "recv q = Some (x, q') \<Longrightarrow> items q = x # items q'"
    and recv_capacity: "recv q = Some (x, q') \<Longrightarrow> capacity q' = capacity q"
begin

text \<open>
  A history of the queue: offers of producers and attempts of the consumer, in the order in which
  they happen. It collects what was enqueued, what was refused and what was taken.
\<close>

fun run :: "'q \<Rightarrow> 'a queue_event list \<Rightarrow> 'q \<times> 'a list \<times> 'a list \<times> 'a list" where
  "run q [] = (q, [], [], [])"
| "run q (Offer x # es) =
     (case run (snd (try_send q x)) es of (q', enq, ref, tkn) \<Rightarrow>
        if fst (try_send q x) then (q', x # enq, ref, tkn) else (q', enq, x # ref, tkn))"
| "run q (Take # es) =
     (case recv q of
        None \<Rightarrow> run q es
      | Some (x, q1) \<Rightarrow> (case run q1 es of (q', enq, ref, tkn) \<Rightarrow> (q', enq, ref, x # tkn)))"

definition offered :: "'a queue_event list \<Rightarrow> 'a list" where
  "offered es = List.map_filter (\<lambda>e. case e of Offer x \<Rightarrow> Some x | Take \<Rightarrow> None) es"

lemma offered_simps [simp]:
  "offered [] = []" "offered (Offer x # es) = x # offered es" "offered (Take # es) = offered es"
  by (simp_all add: offered_def map_filter_simps)

lemma run_fifo: "run q es = (q', enq, ref, tkn) \<Longrightarrow> items q @ enq = tkn @ items q'"
proof (induction q es arbitrary: q' enq ref tkn rule: run.induct)
  case (2 q x es)
  then show ?case by (auto simp: send_items split: prod.splits if_splits)
next
  case (3 q es)
  then show ?case by (fastforce simp: recv_Some split: option.splits prod.splits)
qed simp

lemma run_mset: "run q es = (q', enq, ref, tkn) \<Longrightarrow> mset (offered es) = mset enq + mset ref"
  by (induction q es arbitrary: q' enq ref tkn rule: run.induct)
    (fastforce split: option.splits prod.splits if_splits)+

lemma run_subseq: "run q es = (q', enq, ref, tkn) \<Longrightarrow> subseq enq (offered es) \<and> subseq ref (offered es)"
  by (induction q es arbitrary: q' enq ref tkn rule: run.induct)
    (fastforce split: option.splits prod.splits if_splits)+

lemma run_capacity: "run q es = (q', enq, ref, tkn) \<Longrightarrow> capacity q' = capacity q"
  by (induction q es arbitrary: q' enq ref tkn rule: run.induct)
    (fastforce simp: send_capacity recv_capacity split: option.splits prod.splits if_splits)+

lemma run_bounded:
  "run q es = (q', enq, ref, tkn) \<Longrightarrow> length (items q) \<le> capacity q \<Longrightarrow> length (items q') \<le> capacity q"
proof (induction q es arbitrary: q' enq ref tkn rule: run.induct)
  case (2 q x es)
  have "length (items (snd (try_send q x))) \<le> capacity (snd (try_send q x))"
    using send_iff [of q x] "2.prems"(2) by (auto simp: send_items send_capacity)
  with 2 show ?case by (auto simp: send_capacity split: prod.splits if_splits)
next
  case (3 q es)
  show ?case
  proof (cases "recv q")
    case None
    with 3 show ?thesis by simp
  next
    case (Some xq)
    obtain x q1 where r: "recv q = Some (x, q1)" using Some by (cases xq) auto
    with "3.prems"(2) have "length (items q1) \<le> capacity q1"
      using recv_Some [OF r] recv_capacity [OF r] by simp
    with 3 r show ?thesis by (auto simp: recv_capacity [OF r] split: prod.splits)
  qed
qed simp

text \<open>Nothing is refused as long as the offers fit.\<close>

lemma run_refuses_none:
  "run q es = (q', enq, ref, tkn) \<Longrightarrow> length (items q) + length (offered es) \<le> capacity q \<Longrightarrow> ref = []"
proof (induction q es arbitrary: q' enq ref tkn rule: run.induct)
  case (2 q x es)
  then show ?case
    using send_iff [of q x] by (auto simp: send_items send_capacity split: prod.splits if_splits)
next
  case (3 q es)
  show ?case
  proof (cases "recv q")
    case None
    with 3 show ?thesis by simp
  next
    case (Some xq)
    obtain x q1 where r: "recv q = Some (x, q1)" using Some by (cases xq) auto
    with "3.prems"(2) have "length (items q1) + length (offered es) \<le> capacity q1"
      using recv_Some [OF r] recv_capacity [OF r] by simp
    with 3 r show ?thesis by (auto split: prod.splits)
  qed
qed simp

end

interpretation go_chan: conn_queue chan_try_send chan_recv chan_buf chan_cap
  by unfold_locales (auto simp: chan_try_send_def chan_recv_def split: list.splits)

end
