(* ===== verification/ErrorTexts.thy ===== *)
theory ErrorTexts
  imports GoStrings
begin

text \<open>
  Package \<open>errors\<close> (src/errors/error.go): the accept loops classify errors by their text. A nil
  error never reaches these functions; the argument is the text \<open>err.Error()\<close>.
\<close>

definition IsEOF :: "bytes \<Rightarrow> bool" where
  "IsEOF errStr = (if strings_Contains errStr ''EOF'' then True else False)"

definition IsClosed :: "bytes \<Rightarrow> bool" where
  "IsClosed errStr = (if strings_Contains errStr ''closed'' then True else False)"

lemma IsEOF_sublist: "IsEOF e \<longleftrightarrow> sublist ''EOF'' e"
  by (simp add: IsEOF_def strings_Contains_sublist)

lemma IsClosed_sublist: "IsClosed e \<longleftrightarrow> sublist ''closed'' e"
  by (simp add: IsClosed_def strings_Contains_sublist)

text \<open>Wrapping an error with a prefix or a suffix, as the net package does, keeps its class.\<close>

lemma IsClosed_wrapped: "IsClosed e \<Longrightarrow> IsClosed (p @ e @ q)"
  unfolding IsClosed_sublist by (rule sublist_order.order.trans) (auto simp: sublist_appendI)

lemma IsEOF_wrapped: "IsEOF e \<Longrightarrow> IsEOF (p @ e @ q)"
  unfolding IsEOF_sublist by (rule sublist_order.order.trans) (auto simp: sublist_appendI)

end
