(* ===== verification/Accepting.thy ===== *)
theory Accepting
  imports ConnQueue ErrorTexts
begin

text \<open>
  The accept loops: \<open>KeepAccepting\<close>, \<open>KeepMuxAccepting\<close> and \<open>ServeMux\<close> of src/gost/proxy/tcp.go
  and \<open>acceptStreams\<close> of src/gost/proxy/server/quic.go. What the listener or session answers to the
  next accept is an event; so is what the other goroutines do to the shared queue between two
  steps of the loop. A loop is a function of the list of events; when the list ends the loop is
  still waiting in its accept call.
\<close>

section \<open>State and events\<close>

text \<open>
  \<open>AcceptError err done\<close>: the accept fails with the text \<open>err\<close>, and \<open>done\<close> says whether the
  context the loop looks at has ended by then. \<open>Other e\<close>: an operation of another goroutine.
\<close>

datatype 'c accept_event =
    Accepted 'c
  | AcceptError bytes bool
  | Other "'c queue_event"

datatype loop_exit = Returned | Waiting

text \<open>\<open>sent\<close> and \<open>dropped\<close> record what this loop enqueued and what it closed instead.\<close>

record 'c accept_state =
  connChan :: "'c chan"
  sent :: "'c list"
  dropped :: "'c list"

definition start_accepting :: "'c chan \<Rightarrow> 'c accept_state" where
  "start_accepting q = \<lparr>connChan = q, sent = [], dropped = []\<rparr>"

text \<open>The shared statement \<open>select \{ case connChan <- conn: default: warn; conn.Close() \}\<close>.\<close>

definition deliver :: "'c \<Rightarrow> 'c accept_state \<Rightarrow> 'c accept_state" where
  "deliver c s =
     (case chan_try_send (connChan s) c of
        (True, q) \<Rightarrow> s\<lparr>connChan := q, sent := sent s @ [c]\<rparr>
      | (False, q) \<Rightarrow> s\<lparr>connChan := q, dropped := dropped s @ [c]\<rparr>)"

definition interfere :: "'c queue_event \<Rightarrow> 'c accept_state \<Rightarrow> 'c accept_state" where
  "interfere e s =
     (case e of
        Offer x \<Rightarrow> s\<lparr>connChan := snd (chan_try_send (connChan s) x)\<rparr>
      | Take \<Rightarrow> (case chan_recv (connChan s) of None \<Rightarrow> s | Some (_, q) \<Rightarrow> s\<lparr>connChan := q\<rparr>))"

section \<open>The loops\<close>

fun KeepAccepting :: "'c accept_event list \<Rightarrow> 'c accept_state \<Rightarrow> loop_exit \<times> 'c accept_state" where
  "KeepAccepting [] s = (Waiting, s)"
| "KeepAccepting (AcceptError err done # evs) s =
     (if IsClosed err then (Returned, s)
      else if done then (Returned, s)
      else KeepAccepting evs s)"
| "KeepAccepting (Accepted conn # evs) s = KeepAccepting evs (deliver conn s)"
| "KeepAccepting (Other e # evs) s = KeepAccepting evs (interfere e s)"

text \<open>
  \<open>KeepMuxAccepting\<close> starts a goroutine \<open>ServeMux\<close> per connection and never touches the queue
  itself; the result lists the connections it handed over.
\<close>

fun KeepMuxAccepting :: "'k accept_event list \<Rightarrow> 'k list \<Rightarrow> loop_exit \<times> 'k list" where
  "KeepMuxAccepting [] muxed = (Waiting, muxed)"
| "KeepMuxAccepting (AcceptError err done # evs) muxed =
     (if IsClosed err then (Returned, muxed)
      else if done then (Returned, muxed)
      else KeepMuxAccepting evs muxed)"
| "KeepMuxAccepting (Accepted conn # evs) muxed = KeepMuxAccepting evs (muxed @ [conn])"
| "KeepMuxAccepting (Other e # evs) muxed = KeepMuxAccepting evs muxed"

text \<open>
  \<open>ServeMux\<close>: the session constructor may fail; then nothing is deferred yet and the connection is
  not closed. Once the session exists its close is deferred. The result is how the loop ended,
  whether the session was closed, whether an error was logged, and the state.
\<close>

record 'c mux_result =
  mux_exit :: loop_exit
  session_closed :: bool
  logged :: bool
  mux_state :: "'c accept_state"

fun serve_streams :: "'c accept_event list \<Rightarrow> 'c accept_state \<Rightarrow> 'c mux_result" where
  "serve_streams [] s = \<lparr>mux_exit = Waiting, session_closed = False, logged = False, mux_state = s\<rparr>"
| "serve_streams (AcceptError err done # evs) s =
     \<lparr>mux_exit = Returned, session_closed = True,
      logged = (\<not> IsEOF err \<and> \<not> IsClosed err), mux_state = s\<rparr>"
| "serve_streams (Accepted stream # evs) s = serve_streams evs (deliver stream s)"
| "serve_streams (Other e # evs) s = serve_streams evs (interfere e s)"

definition ServeMux :: "bytes + unit \<Rightarrow> 'c accept_event list \<Rightarrow> 'c accept_state \<Rightarrow> 'c mux_result" where
  "ServeMux session evs s =
     (case session of
        Inl err \<Rightarrow> \<lparr>mux_exit = Returned, session_closed = False,
                    logged = (\<not> IsEOF err \<and> \<not> IsClosed err), mux_state = s\<rparr>
      | Inr _ \<Rightarrow> serve_streams evs s)"

text \<open>
  \<open>acceptStreams\<close> of the QUIC listener: \<open>done\<close> stands for either of the two contexts of the
  select; the texts of the errors are not looked at. The session is closed when the loop returns.
\<close>

fun acceptStreams :: "'c accept_event list \<Rightarrow> 'c accept_state \<Rightarrow> loop_exit \<times> bool \<times> 'c accept_state" where
  "acceptStreams [] s = (Waiting, False, s)"
| "acceptStreams (AcceptError err done # evs) s =
     (if done then (Returned, True, s) else acceptStreams evs s)"
| "acceptStreams (Accepted stream # evs) s = acceptStreams evs (deliver stream s)"
| "acceptStreams (Other e # evs) s = acceptStreams evs (interfere e s)"

text \<open>\<open>QUICListener.Serve\<close> starts \<open>acceptStreams\<close> per session; it ends with the listener's context only.\<close>

fun QUIC_Serve :: "'k accept_event list \<Rightarrow> 'k list \<Rightarrow> loop_exit \<times> 'k list" where
  "QUIC_Serve [] started = (Waiting, started)"
| "QUIC_Serve (AcceptError err done # evs) started =
     (if done then (Returned, started) else QUIC_Serve evs started)"
| "QUIC_Serve (Accepted session # evs) started = QUIC_Serve evs (started @ [session])"
| "QUIC_Serve (Other e # evs) started = QUIC_Serve evs started"

section \<open>One scheme for the loops over the queue\<close>

text \<open>The loops differ in the errors that stop them: a predicate on the text and the context.\<close>

fun drive :: "(bytes \<Rightarrow> bool \<Rightarrow> bool) \<Rightarrow> 'c accept_event list \<Rightarrow> 'c accept_state \<Rightarrow> loop_exit \<times> 'c accept_state" where
  "drive stop [] s = (Waiting, s)"
| "drive stop (AcceptError err done # evs) s =
     (if stop err done then (Returned, s) else drive stop evs s)"
| "drive stop (Accepted c # evs) s = drive stop evs (deliver c s)"
| "drive stop (Other e # evs) s = drive stop evs (interfere e s)"

definition tcp_stop :: "bytes \<Rightarrow> bool \<Rightarrow> bool" where
  "tcp_stop err done \<longleftrightarrow> IsClosed err \<or> done"

lemma KeepAccepting_drive: "KeepAccepting evs s = drive tcp_stop evs s"
  by (induction evs s rule: KeepAccepting.induct) (simp_all add: tcp_stop_def)

lemma serve_streams_drive:
  "(mux_exit (serve_streams evs s), mux_state (serve_streams evs s)) = drive (\<lambda>_ _. True) evs s"
  by (induction evs s rule: serve_streams.induct) simp_all

lemma acceptStreams_drive:
  "(fst (acceptStreams evs s), snd (snd (acceptStreams evs s))) = drive (\<lambda>_ done. done) evs s"
  by (induction evs s rule: acceptStreams.induct) simp_all

text \<open>What happened before the loop returned, as a history of the queue.\<close>

definition stops :: "(bytes \<Rightarrow> bool \<Rightarrow> bool) \<Rightarrow> 'c accept_event \<Rightarrow> bool" where
  "stops stop ev = (case ev of AcceptError err done \<Rightarrow> stop err done | _ \<Rightarrow> False)"

definition handled :: "(bytes \<Rightarrow> bool \<Rightarrow> bool) \<Rightarrow> 'c accept_event list \<Rightarrow> 'c accept_event list" where
  "handled stop evs = takeWhile (\<lambda>ev. \<not> stops stop ev) evs"

definition accepted :: "'c accept_event list \<Rightarrow> 'c list" where
  "accepted evs = List.map_filter (\<lambda>ev. case ev of Accepted c \<Rightarrow> Some c | _ \<Rightarrow> None) evs"

definition queue_history :: "'c accept_event list \<Rightarrow> 'c queue_event list" where
  "queue_history evs =
     List.map_filter (\<lambda>ev. case ev of Accepted c \<Rightarrow> Some (Offer c) | Other e \<Rightarrow> Some e | _ \<Rightarrow> None) evs"

lemma event_simps [simp]:
  "handled stop [] = []" "accepted [] = []" "queue_history [] = []"
  "handled stop (Accepted c # evs) = Accepted c # handled stop evs"
  "handled stop (Other e # evs) = Other e # handled stop evs"
  "handled stop (AcceptError err done # evs) = (if stop err done then [] else AcceptError err done # handled stop evs)"
  "accepted (Accepted c # evs) = c # accepted evs"
  "accepted (Other e # evs) = accepted evs"
  "accepted (AcceptError err done # evs) = accepted evs"
  "queue_history (Accepted c # evs) = Offer c # queue_history evs"
  "queue_history (Other e # evs) = e # queue_history evs"
  "queue_history (AcceptError err done # evs) = queue_history evs"
  by (simp_all add: handled_def stops_def accepted_def queue_history_def map_filter_simps)

lemma drive_exit: "fst (drive stop evs s) = Returned \<longleftrightarrow> (\<exists>ev \<in> set evs. stops stop ev)"
  by (induction stop evs s rule: drive.induct) (auto simp: stops_def)

text \<open>The queue evolves as its history says.\<close>

lemma drive_queue:
  "connChan (snd (drive stop evs s)) = fst (go_chan.run (connChan s) (queue_history (handled stop evs)))"
proof (induction stop evs s rule: drive.induct)
  case (3 stop c evs s)
  then show ?case
    by (cases "fst (chan_try_send (connChan s) c)")
      (auto simp: deliver_def split: prod.splits bool.splits)
next
  case (4 stop e evs s)
  then show ?case
    by (cases e) (auto simp: interfere_def split: prod.splits option.splits)
qed simp_all

text \<open>Every accepted connection is enqueued or closed, never both, and both lists keep the order.\<close>

lemma drive_mset:
  "mset (sent (snd (drive stop evs s))) + mset (dropped (snd (drive stop evs s)))
     = mset (sent s) + mset (dropped s) + mset (accepted (handled stop evs))"
  by (induction stop evs s rule: drive.induct)
    (auto simp: deliver_def interfere_def split: prod.splits bool.splits option.splits queue_event.splits)

lemma drive_order:
  assumes "go_chan.run (connChan s) (queue_history (handled stop evs)) = (q, enq, ref, tkn)"
  shows "\<exists>xs ys. sent (snd (drive stop evs s)) = sent s @ xs \<and> dropped (snd (drive stop evs s)) = dropped s @ ys \<and>
     subseq xs enq \<and> subseq ys ref \<and>
     subseq xs (accepted (handled stop evs)) \<and> subseq ys (accepted (handled stop evs))"
  using assms
proof (induction stop evs s arbitrary: q enq ref tkn rule: drive.induct)
  case (3 stop c evs s)
  obtain q1 where send: "chan_try_send (connChan s) c = (fst (chan_try_send (connChan s) c), q1)"
    by (cases "chan_try_send (connChan s) c") auto
  obtain q2 enq2 ref2 tkn2 where r: "go_chan.run q1 (queue_history (handled stop evs)) = (q2, enq2, ref2, tkn2)"
    by (cases "go_chan.run q1 (queue_history (handled stop evs))") auto
  have "connChan (deliver c s) = q1"
    using send by (auto simp: deliver_def split: prod.splits bool.splits)
  with r obtain xs ys where
    "sent (snd (drive stop evs (deliver c s))) = sent (deliver c s) @ xs"
    "dropped (snd (drive stop evs (deliver c s))) = dropped (deliver c s) @ ys"
    "subseq xs enq2" "subseq ys ref2"
    "subseq xs (accepted (handled stop evs))" "subseq ys (accepted (handled stop evs))"
    using "3.IH" by blast
  then show ?case
    using "3.prems" send r
    by (cases "fst (chan_try_send (connChan s) c)") (auto simp: deliver_def)
next
  case (4 stop e evs s)
  have c: "connChan (interfere e s) = (case e of Offer x \<Rightarrow> snd (chan_try_send (connChan s) x)
      | Take \<Rightarrow> (case chan_recv (connChan s) of None \<Rightarrow> connChan s | Some (_, q) \<Rightarrow> q))"
    by (auto simp: interfere_def split: queue_event.splits option.splits)
  have f: "sent (interfere e s) = sent s" "dropped (interfere e s) = dropped s"
    by (auto simp: interfere_def split: queue_event.splits option.splits)
  obtain q2 enq2 ref2 tkn2 where
    r: "go_chan.run (connChan (interfere e s)) (queue_history (handled stop evs)) = (q2, enq2, ref2, tkn2)"
    by (cases "go_chan.run (connChan (interfere e s)) (queue_history (handled stop evs))") auto
  have "subseq enq2 enq \<and> subseq ref2 ref"
    using "4.prems" r unfolding c
    by (auto split: queue_event.splits option.splits prod.splits if_splits)
  then show ?case
    using "4.IH" [OF r] unfolding f by (auto intro: subseq_order.trans)
qed (auto split: if_splits)

text \<open>The whole account of a loop that starts on an empty queue of capacity \<open>n\<close>.\<close>

lemma drive_accounts:
  fixes n :: nat
  assumes "drive stop evs (start_accepting (make_chan n)) = (ex, s)"
  shows "ex = Returned \<longleftrightarrow> (\<exists>ev \<in> set evs. stops stop ev)"
    and "mset (accepted (handled stop evs)) = mset (sent s) + mset (dropped s)"
    and "subseq (sent s) (accepted (handled stop evs))"
    and "length (chan_buf (connChan s)) \<le> n"
    and "\<exists>enq ref tkn. go_chan.run (make_chan n) (queue_history (handled stop evs)) = (connChan s, enq, ref, tkn) \<and>
           enq = tkn @ chan_buf (connChan s) \<and> subseq (sent s) enq \<and> subseq (dropped s) ref"
    and "length (go_chan.offered (queue_history (handled stop evs))) \<le> n \<Longrightarrow> dropped s = []"
proof -
  let ?s0 = "start_accepting (make_chan n) :: 'a accept_state"
  have s0: "connChan ?s0 = make_chan n" "sent ?s0 = []" "dropped ?s0 = []"
    by (simp_all add: start_accepting_def)
  have s: "snd (drive stop evs ?s0) = s" "fst (drive stop evs ?s0) = ex" using assms by simp_all
  obtain enq ref tkn where
    r: "go_chan.run (make_chan n) (queue_history (handled stop evs)) = (connChan s, enq, ref, tkn)"
    using drive_queue [of stop evs ?s0] unfolding s s0
    by (cases "go_chan.run (make_chan n) (queue_history (handled stop evs))") auto
  have c: "chan_buf (make_chan n) = ([] :: 'a list)" "chan_cap (make_chan n :: 'a chan) = n"
    by (simp_all add: make_chan_def)
  note ord = drive_order [of ?s0 stop evs, unfolded s s0, OF r]
  show "ex = Returned \<longleftrightarrow> (\<exists>ev \<in> set evs. stops stop ev)"
    using drive_exit [of stop evs ?s0] by (simp add: s)
  show "mset (accepted (handled stop evs)) = mset (sent s) + mset (dropped s)"
    using drive_mset [of stop evs ?s0] by (simp add: s s0)
  show "subseq (sent s) (accepted (handled stop evs))" using ord by auto
  show "length (chan_buf (connChan s)) \<le> n" using go_chan.run_bounded [OF r] by (simp add: c)
  show "\<exists>enq ref tkn. go_chan.run (make_chan n) (queue_history (handled stop evs)) = (connChan s, enq, ref, tkn) \<and>
           enq = tkn @ chan_buf (connChan s) \<and> subseq (sent s) enq \<and> subseq (dropped s) ref"
    using r go_chan.run_fifo [OF r] ord by (auto simp: c)
  assume "length (go_chan.offered (queue_history (handled stop evs))) \<le> n"
  then have "ref = []" using go_chan.run_refuses_none [OF r] by (simp add: c)
  then show "dropped s = []" using ord by auto
qed

section \<open>Properties\<close>

text \<open>
  C20: For every sequence of accept outcomes and every interference of the other goroutines on the
  queue, \<open>KeepAccepting\<close> stops exactly at the first error that says the listener is closed or that
  finds the context done; each connection accepted before is enqueued or closed, never both and
  never lost; the queue never exceeds its capacity; what the consumer takes comes in the order of
  the sends, the loop's own connections in the order they were accepted; and nothing is closed as
  long as all offers fit.
\<close>

theorem KeepAccepting_accounts:
  fixes n :: nat
  assumes "KeepAccepting evs (start_accepting (make_chan n)) = (ex, s)"
  shows "(ex = Returned \<longleftrightarrow> (\<exists>ev \<in> set evs. stops tcp_stop ev)) \<and>
    mset (accepted (handled tcp_stop evs)) = mset (sent s) + mset (dropped s) \<and>
    subseq (sent s) (accepted (handled tcp_stop evs)) \<and>
    length (chan_buf (connChan s)) \<le> n \<and>
    (\<exists>enq ref tkn. go_chan.run (make_chan n) (queue_history (handled tcp_stop evs)) = (connChan s, enq, ref, tkn) \<and>
       enq = tkn @ chan_buf (connChan s) \<and> subseq (sent s) enq \<and> subseq (dropped s) ref) \<and>
    (length (go_chan.offered (queue_history (handled tcp_stop evs))) \<le> n \<longrightarrow> dropped s = [])"
  using drive_accounts [OF assms [unfolded KeepAccepting_drive]] by blast

theorem KeepAccepting_accounts_witness:
  "\<exists>s. KeepAccepting [Accepted (1::nat), Accepted 2, AcceptError ''timeout'' False, Other Take, Accepted 3,
       AcceptError ''use of closed network connection'' False, Accepted 4] (start_accepting (make_chan 1))
     = (Returned, s) \<and> sent s = [1, 3] \<and> dropped s = [2] \<and> mset [1, 2, 3] = mset (sent s) + mset (dropped s)"
proof -
  let ?evs = "[Accepted (1::nat), Accepted 2, AcceptError ''timeout'' False, Other Take, Accepted 3,
       AcceptError ''use of closed network connection'' False, Accepted 4]"
  let ?s = "\<lparr>connChan = \<lparr>chan_buf = [3], chan_cap = 1\<rparr>, sent = [1, 3], dropped = [2::nat]\<rparr>"
  have r: "KeepAccepting ?evs (start_accepting (make_chan 1)) = (Returned, ?s)"
    by (simp add: start_accepting_def make_chan_def deliver_def chan_try_send_def interfere_def
        chan_recv_def IsClosed_def)
  have "mset (accepted (handled tcp_stop ?evs)) = mset (sent ?s) + mset (dropped ?s)"
    using KeepAccepting_accounts [OF r] by blast
  moreover have "accepted (handled tcp_stop ?evs) = [1, 2, 3]"
    by (simp add: tcp_stop_def IsClosed_def)
  ultimately show ?thesis using r by auto
qed

text \<open>
  C32: \<open>ServeMux\<close> on a session that could be created: the first error of any kind ends it, the
  session is closed exactly when it ends, an error is logged only if its text names neither EOF
  nor closed, and the streams are accounted for as the connections of a listener are. If the
  session could not be created, the queue is untouched and nothing is closed.
\<close>

theorem ServeMux_accounts:
  fixes n :: nat
  shows "case session of
      Inl err \<Rightarrow> ServeMux session evs s0 =
        \<lparr>mux_exit = Returned, session_closed = False, logged = (\<not> IsEOF err \<and> \<not> IsClosed err), mux_state = s0\<rparr>
    | Inr _ \<Rightarrow>
       (let r = ServeMux session evs (start_accepting (make_chan n));
            h = takeWhile (\<lambda>ev. \<forall>err done. ev \<noteq> AcceptError err done) evs
        in (mux_exit r = Returned \<longleftrightarrow> h \<noteq> evs) \<and> (session_closed r \<longleftrightarrow> mux_exit r = Returned) \<and>
           (logged r \<longleftrightarrow> (\<exists>err done rest. evs = h @ AcceptError err done # rest \<and> \<not> IsEOF err \<and> \<not> IsClosed err)) \<and>
           mset (accepted h) = mset (sent (mux_state r)) + mset (dropped (mux_state r)) \<and>
           subseq (sent (mux_state r)) (accepted h) \<and> length (chan_buf (connChan (mux_state r))) \<le> n)"
proof (cases session)
  case (Inl err)
  then show ?thesis by (simp add: ServeMux_def)
next
  case (Inr u)
  let ?s0 = "start_accepting (make_chan n) :: 'a accept_state"
  let ?r = "serve_streams evs ?s0"
  let ?h = "takeWhile (\<lambda>ev. \<forall>err done. ev \<noteq> AcceptError err done) evs"
  have st: "stops (\<lambda>_ _. True) ev \<longleftrightarrow> \<not> (\<forall>err done. ev \<noteq> AcceptError err done)" for ev :: "'a accept_event"
    by (cases ev) (auto simp: stops_def)
  have h: "handled (\<lambda>_ _. True) evs = ?h" by (simp add: handled_def st)
  have d: "drive (\<lambda>_ _. True) evs ?s0 = (mux_exit ?r, mux_state ?r)"
    by (simp only: serve_streams_drive)
  have flags: "(mux_exit (serve_streams evs t) = Returned \<longleftrightarrow> ?h \<noteq> evs) \<and>
     (session_closed (serve_streams evs t) \<longleftrightarrow> mux_exit (serve_streams evs t) = Returned) \<and>
     (logged (serve_streams evs t) \<longleftrightarrow>
        (\<exists>err done rest. evs = ?h @ AcceptError err done # rest \<and> \<not> IsEOF err \<and> \<not> IsClosed err))"
    for t :: "'a accept_state"
    by (induction evs t rule: serve_streams.induct) auto
  show ?thesis
    using Inr flags [of ?s0] drive_accounts(2-4) [OF d] by (simp add: ServeMux_def Let_def h)
qed

text \<open>
  A QUIC session's stream loop ends only when one of its two contexts is done and then closes
  the session; an accept that fails for any other reason, whatever its text, is retried; until
  then every accepted stream is enqueued or closed.
\<close>

theorem acceptStreams_accounts:
  fixes n :: nat
  shows "case acceptStreams evs (start_accepting (make_chan n)) of
    (ex, closed, s) \<Rightarrow>
      (closed \<longleftrightarrow> ex = Returned) \<and> (ex = Returned \<longleftrightarrow> (\<exists>err. AcceptError err True \<in> set evs)) \<and>
      mset (accepted (handled (\<lambda>_ done. done) evs)) = mset (sent s) + mset (dropped s) \<and>
      subseq (sent s) (accepted (handled (\<lambda>_ done. done) evs)) \<and> length (chan_buf (connChan s)) \<le> n"
proof -
  let ?s0 = "start_accepting (make_chan n) :: 'a accept_state"
  obtain ex closed s where r: "acceptStreams evs ?s0 = (ex, closed, s)"
    by (cases "acceptStreams evs ?s0") auto
  have d: "drive (\<lambda>_ done. done) evs ?s0 = (ex, s)"
    using acceptStreams_drive [of evs ?s0] by (simp add: r)
  have "acceptStreams evs t = (ex, closed, s) \<Longrightarrow> closed \<longleftrightarrow> ex = Returned" for t
    by (induction evs t rule: acceptStreams.induct) (auto split: if_splits)
  then have "closed \<longleftrightarrow> ex = Returned" using r by blast
  moreover have "(\<exists>ev \<in> set evs. stops (\<lambda>_ done. done) ev) \<longleftrightarrow> (\<exists>err. AcceptError err True \<in> set evs)"
  proof -
    have st: "stops (\<lambda>_ done. done) ev \<longleftrightarrow> (\<exists>err. ev = AcceptError err True)" for ev :: "'a accept_event"
      by (cases ev) (simp_all add: stops_def)
    show ?thesis unfolding st by blast
  qed
  ultimately show ?thesis using drive_accounts(1-4) [OF d] by (simp add: r)
qed

end
