(* ===== verification/WsProxy.thy ===== *)
theory WsProxy
  imports Base64 Streams Accepting Args
begin

text \<open>
  The websocket transports: the client of src/gost/proxy/client/ws.go with its connection that
  delays the dial until the first write, and the upgrade handlers of src/gost/proxy/server/ws.go and
  mws.go. The websocket library is a parameter: what it answers to a dial (the messages that will
  arrive, or an error) and to an upgrade.
\<close>

section \<open>HTTP headers\<close>

text \<open>
  \<open>http.Header\<close> with the operations the code uses; \<open>Set\<close> and \<open>Get\<close> spell a name in the same canonical
  way, so the names are kept as the code writes them.
\<close>

type_synonym header = "(bytes \<times> bytes) list"

definition header_Set :: "bytes \<Rightarrow> bytes \<Rightarrow> header \<Rightarrow> header" where
  "header_Set k v h = AList.update k v h"

definition header_Get :: "bytes \<Rightarrow> header \<Rightarrow> bytes" where
  "header_Get k h = (case map_of h k of None \<Rightarrow> [] | Some v \<Rightarrow> v)"

lemma header_Get_Set: "header_Get k (header_Set k' v h) = (if k = k' then v else header_Get k h)"
  by (simp add: header_Get_def header_Set_def update_conv')

section \<open>The client\<close>

definition DEFAULT_USER_AGENT :: bytes where
  "DEFAULT_USER_AGENT = ''Chrome/78.0.3904.106''"

text \<open>
  What \<open>streamWebsocketConn\<close> hands to the dialer: the URL, the headers, whether compression is
  offered, and whether the hook for TLS connections is set, which replaces the dialer's own TLS
  by the transporter's connection.
\<close>

record ws_request =
  req_url :: bytes
  req_header :: header
  req_compression :: bool
  req_tls_hook :: bool

definition ws_request :: "Options \<Rightarrow> bytes \<Rightarrow> bytes option \<Rightarrow> ws_request" where
  "ws_request o1 url ed =
     (let header = header_Set ''User-Agent'' DEFAULT_USER_AGENT [];
          header = (if Hostname o1 \<noteq> [] then header_Set ''Host'' (Hostname o1) header else header);
          header = (case ed of None \<Rightarrow> header
                    | Some d \<Rightarrow> header_Set ''Sec-WebSocket-Protocol'' (EncodeToString d) header)
      in \<lparr>req_url = url, req_header = header, req_compression = (\<not> Nocomp o1),
          req_tls_hook = strings_HasPrefix url ''wss''\<rparr>)"

type_synonym dialer = "ws_request \<Rightarrow> read_answer list result"

definition streamWebsocketConn :: "dialer \<Rightarrow> Options \<Rightarrow> bytes \<Rightarrow> bytes option \<Rightarrow> websocketConn result" where
  "streamWebsocketConn dialer o1 url ed =
     (case dialer (ws_request o1 url ed) of
        Inl err \<Rightarrow> Inl err
      | Inr answers \<Rightarrow> Inr (NewWebsocketConn answers []))"

text \<open>\<open>dd_dialed\<close> is whether the channel \<open>dialed\<close> is closed; a nil \<open>Conn\<close> is \<open>None\<close>.\<close>

record delayDialConn =
  dd_conn :: "websocketConn option"
  dd_url :: bytes
  dd_ed :: uint
  dd_dialed :: bool
  dd_closed :: bool

definition newDelayDialConn :: "bytes \<Rightarrow> uint \<Rightarrow> delayDialConn" where
  "newDelayDialConn url ed = \<lparr>dd_conn = None, dd_url = url, dd_ed = ed, dd_dialed = False, dd_closed = False\<rparr>"

definition dd_Close :: "go_error option \<Rightarrow> delayDialConn \<Rightarrow> go_error option \<times> delayDialConn" where
  "dd_Close answer d =
     (let d = d\<lparr>dd_closed := True\<rparr> in
      case dd_conn d of
        Some c \<Rightarrow> (case ws_Close answer c of (r, c) \<Rightarrow> (r, d\<lparr>dd_conn := Some c\<rparr>))
      | None \<Rightarrow> (None, d))"

text \<open>The early data of a write: all of it, or none if it is longer than \<open>int(d.ed)\<close>.\<close>

definition dd_early :: "delayDialConn \<Rightarrow> bytes \<Rightarrow> bytes option" where
  "dd_early d b = (if int (length b) > sint (dd_ed d) then None else Some b)"

text \<open>The inner \<open>Write\<close> of a connection that is there.\<close>

definition dd_forward :: "go_error option \<Rightarrow> bytes \<Rightarrow> delayDialConn \<Rightarrow> (nat \<times> go_error option) result \<times> delayDialConn" where
  "dd_forward answer b d =
     (case dd_conn d of
        None \<Rightarrow> (Inl (GoPanic ''nil pointer dereference''), d)
      | Some c \<Rightarrow> (case ws_Write answer b c of (r, c) \<Rightarrow> (Inr r, d\<lparr>dd_conn := Some c\<rparr>)))"

text \<open>What \<open>Write\<close> does once the dial has answered; \<open>close(d.dialed)\<close> panics if it was closed before.\<close>

definition dd_finish ::
  "websocketConn result \<Rightarrow> go_error option \<Rightarrow> bytes \<Rightarrow> bytes option \<Rightarrow> delayDialConn
     \<Rightarrow> (nat \<times> go_error option) result \<times> delayDialConn" where
  "dd_finish dial answer b ed d =
     (case dial of
        Inl err \<Rightarrow> (Inr (0, Some err), snd (dd_Close None (d\<lparr>dd_conn := None\<rparr>)))
      | Inr c \<Rightarrow>
          let d = d\<lparr>dd_conn := Some c\<rparr> in
          if dd_dialed d then (Inl (GoPanic ''close of closed channel''), d)
          else
            let d = d\<lparr>dd_dialed := True\<rparr> in
            (case ed of Some e \<Rightarrow> (Inr (length e, None), d) | None \<Rightarrow> dd_forward answer b d))"

definition dd_Write ::
  "dialer \<Rightarrow> Options \<Rightarrow> go_error option \<Rightarrow> bytes \<Rightarrow> delayDialConn \<Rightarrow> (nat \<times> go_error option) result \<times> delayDialConn" where
  "dd_Write dialer o1 answer b d =
     (if dd_closed d then (Inr (0, Some ClosedPipe), d)
      else case dd_conn d of
        None \<Rightarrow>
          let ed = dd_early d b
          in dd_finish (streamWebsocketConn dialer o1 (dd_url d) ed) answer b ed d
      | Some _ \<Rightarrow> dd_forward answer b d)"

text \<open>\<open>None\<close> is a read that blocks, on the channel or on the connection.\<close>

definition dd_Read :: "nat \<Rightarrow> delayDialConn \<Rightarrow> (read_answer result \<times> delayDialConn) option" where
  "dd_Read n d =
     (if \<not> dd_dialed d then None
      else if dd_closed d then Some (Inr ([], Some ClosedPipe), d)
      else case dd_conn d of
        None \<Rightarrow> Some (Inl (GoPanic ''nil pointer dereference''), d)
      | Some c \<Rightarrow> (case ws_Read n c of
            None \<Rightarrow> None
          | Some (r, c) \<Rightarrow> Some (Inr r, d\<lparr>dd_conn := Some c\<rparr>)))"

datatype ws_client_conn = Direct websocketConn | Delayed delayDialConn

definition websocketClientConn :: "dialer \<Rightarrow> Options \<Rightarrow> bytes \<Rightarrow> ws_client_conn result" where
  "websocketClientConn dialer o1 url =
     (if Ed o1 > 0 then Inr (Delayed (newDelayDialConn url (Ed o1)))
      else bind_result (streamWebsocketConn dialer o1 url None) (Inr \<circ> Direct))"

definition WS_DialConn :: "dialer \<Rightarrow> Options \<Rightarrow> ws_client_conn result" where
  "WS_DialConn dialer o1 = websocketClientConn dialer o1 (''wss://'' @ GetRemoteAddr o1 @ Path o1)"

definition WSS_DialConn :: "dialer \<Rightarrow> Options \<Rightarrow> ws_client_conn result" where
  "WSS_DialConn dialer o1 = websocketClientConn dialer o1 (''wss://'' @ GetRemoteAddr o1 @ Path o1)"

section \<open>The server\<close>

record http_request =
  r_path :: bytes
  r_header :: header

text \<open>The early data of a request, and the error of the decoder.\<close>

definition early_payload :: "header \<Rightarrow> bytes \<times> go_error option" where
  "early_payload h =
     (let str = header_Get ''Sec-WebSocket-Protocol'' h in
      if str \<noteq> [] then DecodeString str else ([], None))"

text \<open>
  What a handler did with the request: answered 404, failed to upgrade, delivered the connection to
  the queue (or closed it there), started \<open>ServeMux\<close> on it, or returned without doing anything with it.
\<close>

datatype upgrade_outcome =
    NotFound404
  | UpgradeFailed go_error
  | Delivered
  | ServingMux websocketConn
  | Abandoned

type_synonym upgrader = "http_request \<Rightarrow> read_answer list result"

definition websocketServerConn :: "read_answer list \<Rightarrow> bytes \<Rightarrow> websocketConn" where
  "websocketServerConn answers ed = NewWebsocketConn answers ed"

definition WS_Upgrade ::
  "bytes \<Rightarrow> upgrader \<Rightarrow> http_request \<Rightarrow> websocketConn accept_state \<Rightarrow> upgrade_outcome \<times> websocketConn accept_state" where
  "WS_Upgrade lpath upgrade r s =
     (if r_path r \<noteq> lpath then (NotFound404, s)
      else case upgrade r of
        Inl err \<Rightarrow> (UpgradeFailed err, s)
      | Inr answers \<Rightarrow>
          let (ed, err) = early_payload (r_header r)
          in (Delivered, deliver (websocketServerConn answers ed) s))"

definition MWS_Upgrade :: "bytes \<Rightarrow> upgrader \<Rightarrow> http_request \<Rightarrow> upgrade_outcome" where
  "MWS_Upgrade lpath upgrade r =
     (if r_path r \<noteq> lpath then NotFound404
      else case upgrade r of
        Inl err \<Rightarrow> UpgradeFailed err
      | Inr answers \<Rightarrow>
          (case early_payload (r_header r) of
             (_, Some err) \<Rightarrow> Abandoned
           | (ed, None) \<Rightarrow> ServingMux (websocketServerConn answers ed)))"

section \<open>Lemmas\<close>

lemma ws_request_simps [simp]:
  "req_url (ws_request o1 url ed) = url"
  "req_compression (ws_request o1 url ed) = (\<not> Nocomp o1)"
  "req_tls_hook (ws_request o1 url ed) = strings_HasPrefix url ''wss''"
  by (simp_all add: ws_request_def Let_def)

lemma ws_request_protocol:
  "header_Get ''Sec-WebSocket-Protocol'' (req_header (ws_request o1 url ed)) =
     (case ed of None \<Rightarrow> [] | Some d \<Rightarrow> EncodeToString d)"
  by (auto simp: ws_request_def Let_def header_Get_Set header_Get_def [of _ "[]"] split: option.splits)

text \<open>What the client put into the header is what the server takes out of it.\<close>

lemma early_payload_request:
  "early_payload (req_header (ws_request o1 url ed)) = (case ed of None \<Rightarrow> [] | Some d \<Rightarrow> d, None)"
  by (auto simp: early_payload_def ws_request_protocol EncodeToString_eq_Nil DecodeString_EncodeToString
      split: option.splits)

text \<open>A sequence of writes on the delayed connection whose messages are all accepted.\<close>

definition dd_write_all :: "dialer \<Rightarrow> Options \<Rightarrow> bytes list \<Rightarrow> delayDialConn \<Rightarrow> delayDialConn" where
  "dd_write_all dialer o1 ms d = fold (\<lambda>m d. snd (dd_Write dialer o1 None m d)) ms d"

lemma dd_write_all_connected:
  "dd_conn d = Some c \<Longrightarrow> \<not> dd_closed d \<Longrightarrow>
     dd_write_all dialer o1 ms d = d\<lparr>dd_conn := Some (ws_write_all ms c)\<rparr>"
proof (induction ms arbitrary: d c)
  case Nil
  then show ?case by (simp add: dd_write_all_def ws_write_all_def)
next
  case (Cons m ms)
  have "dd_write_all dialer o1 (m # ms) d =
      dd_write_all dialer o1 ms (d\<lparr>dd_conn := Some (snd (ws_Write None m c))\<rparr>)"
    using Cons.prems by (simp add: dd_write_all_def dd_Write_def dd_forward_def split: prod.splits)
  then show ?case using Cons by (simp add: ws_write_all_def)
qed

text \<open>The first write of a fresh connection.\<close>

lemma dd_first_write:
  assumes "dialer (ws_request o1 url (dd_early (newDelayDialConn url ed) b)) = Inr answers"
  shows "dd_Write dialer o1 answer b (newDelayDialConn url ed) =
    (case dd_early (newDelayDialConn url ed) b of
       Some e \<Rightarrow> (Inr (length b, None),
         (newDelayDialConn url ed)\<lparr>dd_conn := Some (NewWebsocketConn answers []), dd_dialed := True\<rparr>)
     | None \<Rightarrow> (Inr (length b, answer),
         (newDelayDialConn url ed)\<lparr>dd_conn := Some (snd (ws_Write answer b (NewWebsocketConn answers []))),
           dd_dialed := True\<rparr>))"
  using assms
  by (auto simp: dd_Write_def dd_finish_def dd_forward_def streamWebsocketConn_def Let_def newDelayDialConn_def
      dd_early_def ws_Write_def)

section \<open>Reachable states of a delayed connection\<close>

text \<open>
  One goroutine writes, one reads, one closes. A write is a step of its own except that the
  connection may be closed while it waits for the dial.
\<close>

record dd_world =
  dd :: delayDialConn
  dd_dialing :: "(bytes \<times> bytes option) option"
  dd_panicked :: bool

inductive dd_step :: "Options \<Rightarrow> dd_world \<Rightarrow> dd_world \<Rightarrow> bool" for o1 where
  start_dial: "dd_dialing w = None \<Longrightarrow> \<not> dd_closed (dd w) \<Longrightarrow> dd_conn (dd w) = None \<Longrightarrow>
     dd_step o1 w (w\<lparr>dd_dialing := Some (b, dd_early (dd w) b)\<rparr>)"
| end_dial: "dd_dialing w = Some (b, ed) \<Longrightarrow>
     dd_finish (streamWebsocketConn dialer o1 (dd_url (dd w)) ed) answer b ed (dd w) = (r, d) \<Longrightarrow>
     dd_step o1 w (w\<lparr>dd := d, dd_dialing := None, dd_panicked := (dd_panicked w \<or> isl r)\<rparr>)"
| later_write: "dd_dialing w = None \<Longrightarrow> dd_closed (dd w) \<or> dd_conn (dd w) \<noteq> None \<Longrightarrow>
     dd_Write dialer o1 answer b (dd w) = (r, d) \<Longrightarrow>
     dd_step o1 w (w\<lparr>dd := d, dd_panicked := (dd_panicked w \<or> isl r)\<rparr>)"
| reads: "dd_Read n (dd w) = Some (r, d) \<Longrightarrow>
     dd_step o1 w (w\<lparr>dd := d, dd_panicked := (dd_panicked w \<or> isl r)\<rparr>)"
| closes: "dd_step o1 w (w\<lparr>dd := snd (dd_Close answer (dd w))\<rparr>)"

inductive_cases dd_stepE: "dd_step o1 w w'"

definition dd_start :: "bytes \<Rightarrow> uint \<Rightarrow> dd_world" where
  "dd_start url ed = \<lparr>dd = newDelayDialConn url ed, dd_dialing = None, dd_panicked = False\<rparr>"

definition dd_ok :: "dd_world \<Rightarrow> bool" where
  "dd_ok w \<longleftrightarrow>
     (dd_dialed (dd w) \<longleftrightarrow> dd_conn (dd w) \<noteq> None) \<and> \<not> dd_panicked w \<and>
     (dd_dialing w \<noteq> None \<longrightarrow> dd_conn (dd w) = None)"

lemma dd_ok_start: "dd_ok (dd_start url ed)"
  by (simp add: dd_ok_def dd_start_def newDelayDialConn_def)

lemma dd_Close_simps [simp]:
  "dd_dialed (snd (dd_Close answer d)) = dd_dialed d"
  "dd_conn (snd (dd_Close answer d)) = map_option (\<lambda>c. c\<lparr>ws_closes := Suc (ws_closes c)\<rparr>) (dd_conn d)"
  "dd_closed (snd (dd_Close answer d)) = True"
  by (auto simp: dd_Close_def ws_Close_def Let_def split: option.splits)

lemma dd_forward_ok:
  "dd_forward answer b d = (r, d') \<Longrightarrow> dd_conn d = Some c \<Longrightarrow>
     \<not> isl r \<and> dd_dialed d' = dd_dialed d \<and> dd_conn d' \<noteq> None \<and> dd_closed d' = dd_closed d"
  by (auto simp: dd_forward_def split: prod.splits)

lemma dd_finish_ok:
  assumes "dd_finish dial answer b ed d = (r, d')" and "dd_conn d = None" and "\<not> dd_dialed d"
  shows "\<not> isl r \<and> (dd_dialed d' \<longleftrightarrow> dd_conn d' \<noteq> None)"
proof (cases dial)
  case (Inl err)
  then show ?thesis using assms by (auto simp: dd_finish_def)
next
  case (Inr c)
  show ?thesis
  proof (cases ed)
    case None
    then show ?thesis
      using assms Inr dd_forward_ok [of answer b "d\<lparr>dd_conn := Some c, dd_dialed := True\<rparr>" r d' c]
      by (simp add: dd_finish_def Let_def)
  next
    case (Some e)
    then show ?thesis using assms Inr by (auto simp: dd_finish_def Let_def)
  qed
qed

lemma dd_Read_ok:
  "dd_Read n d = Some (r, d') \<Longrightarrow> (dd_dialed d \<longleftrightarrow> dd_conn d \<noteq> None) \<Longrightarrow>
     \<not> isl r \<and> dd_dialed d' = dd_dialed d \<and> (dd_conn d' = None \<longleftrightarrow> dd_conn d = None) \<and> dd_closed d' = dd_closed d"
  by (auto simp: dd_Read_def split: if_splits option.splits prod.splits)

lemma dd_ok_step:
  assumes "dd_step o1 w w'" and "dd_ok w"
  shows "dd_ok w'"
  using assms(1)
proof (cases rule: dd_step.cases)
  case (later_write dialer answer b r d)
  then show ?thesis
    using assms(2) dd_forward_ok [of answer b "dd w" r d]
    by (auto simp: dd_ok_def dd_Write_def split: if_splits)
next
  case (end_dial b ed dialer answer r d)
  then show ?thesis using assms(2) dd_finish_ok by (fastforce simp: dd_ok_def)
next
  case (reads n r d)
  then show ?thesis using assms(2) dd_Read_ok [of n "dd w" r d] by (auto simp: dd_ok_def)
qed (use assms(2) in \<open>auto simp: dd_ok_def\<close>)

interpretation dd: step_invariant "dd_step o1" dd_ok for o1
  by unfold_locales (rule dd_ok_step)

text \<open>Closed before a connection was made, and not dialling: nothing will ever happen again.\<close>

definition dd_stuck :: "dd_world \<Rightarrow> bool" where
  "dd_stuck w \<longleftrightarrow> dd_closed (dd w) \<and> dd_conn (dd w) = None \<and> \<not> dd_dialed (dd w) \<and> dd_dialing w = None"

lemma dd_stuck_step: "dd_step o1 w w' \<Longrightarrow> dd_stuck w \<Longrightarrow> dd_stuck w'"
  by (erule dd_stepE) (auto simp: dd_stuck_def dd_Write_def dd_Read_def)

interpretation dd_dead: step_invariant "dd_step o1" dd_stuck for o1
  by unfold_locales (rule dd_stuck_step)

section \<open>Properties\<close>

text \<open>
  Early data is not lost, whichever way it travels. When the dial of the first write succeeds, the
  server that upgrades this very request and receives the messages the client sends reads first the
  bytes of the first write and then those of the following ones: if the first write fits into the
  early data it is all in the header and no message carries it, otherwise the header is absent and
  it is the first message.
\<close>

theorem early_data_stream:
  assumes "dialer (ws_request o1 url (dd_early (newDelayDialConn url ed) b)) = Inr answers"
    and "dd_conn (dd_write_all dialer o1 (b # ms) (newDelayDialConn url ed)) = Some c"
    and "r_header r = req_header (ws_request o1 url (dd_early (newDelayDialConn url ed) b))"
    and "r_path r = lpath"
    and "upgrade r = Inr (map (\<lambda>m. (m, None)) (ws_sent c))"
    and "chan_buf (connChan s) = []" and "0 < chan_cap (connChan s)"
  shows "case WS_Upgrade lpath upgrade r s of (outcome, s') \<Rightarrow>
    outcome = Delivered \<and> (\<exists>srv. chan_buf (connChan s') = [srv] \<and> ws_remaining srv = b @ concat ms \<and>
      ws_rb srv = (if int (length b) > sint ed then [] else b) \<and>
      MWS_Upgrade lpath upgrade r = ServingMux srv)"
proof -
  let ?d = "newDelayDialConn url ed"
  have sent: "ws_sent c = (case dd_early ?d b of None \<Rightarrow> b # ms | Some _ \<Rightarrow> ms)"
  proof -
    let ?c0 = "NewWebsocketConn answers []"
    have w: "dd_write_all dialer o1 (b # ms) ?d = dd_write_all dialer o1 ms (snd (dd_Write dialer o1 None b ?d))"
      by (simp add: dd_write_all_def)
    have cl: "\<not> dd_closed (?d\<lparr>dd_conn := X, dd_dialed := True\<rparr>)" for X
      by (simp add: newDelayDialConn_def)
    show ?thesis
    proof (cases "dd_early ?d b")
      case None
      then have "dd_conn (dd_write_all dialer o1 (b # ms) ?d) = Some (ws_write_all ms (snd (ws_Write None b ?c0)))"
        unfolding w dd_first_write [of dialer o1 url ed b answers None, OF assms(1)]
        by (simp add: dd_write_all_connected [OF _ cl])
      then show ?thesis using assms(2) None by (simp add: ws_write_all_sent ws_Write_def NewWebsocketConn_def)
    next
      case (Some e)
      then have "dd_conn (dd_write_all dialer o1 (b # ms) ?d) = Some (ws_write_all ms ?c0)"
        unfolding w dd_first_write [of dialer o1 url ed b answers None, OF assms(1)]
        by (simp add: dd_write_all_connected [OF _ cl])
      then show ?thesis using assms(2) Some by (simp add: ws_write_all_sent NewWebsocketConn_def)
    qed
  qed
  have "dd_early ?d b = (if int (length b) > sint ed then None else Some b)"
    by (simp add: dd_early_def newDelayDialConn_def)
  then show ?thesis
    using assms(3-7) sent
    by (simp add: WS_Upgrade_def MWS_Upgrade_def early_payload_request deliver_def chan_try_send_def
        websocketServerConn_def NewWebsocketConn_def ws_remaining_def o_def)
qed

theorem early_data_stream_witness:
  "\<exists>srv. chan_buf (connChan (snd (WS_Upgrade ''/ws'' (\<lambda>_. Inr [(''two'', None)])
      \<lparr>r_path = ''/ws'', r_header = req_header (ws_request flag_defaults ''wss://h/ws'' (Some ''one''))\<rparr>
      (start_accepting (make_chan 1))))) = [srv] \<and> ws_remaining srv = ''onetwo''"
proof -
  let ?d = "newDelayDialConn ''wss://h/ws'' 8"
  have e: "dd_early ?d ''one'' = Some ''one''" by (simp add: dd_early_def newDelayDialConn_def)
  have c: "dd_conn (dd_write_all (\<lambda>_. Inr []) flag_defaults [''one'', ''two''] ?d) =
      Some (snd (ws_Write None ''two'' (NewWebsocketConn [] [])))"
  proof -
    have "dd_write_all (\<lambda>_. Inr []) flag_defaults [''one'', ''two''] ?d =
        dd_write_all (\<lambda>_. Inr []) flag_defaults [''two''] (snd (dd_Write (\<lambda>_. Inr []) flag_defaults None ''one'' ?d))"
      by (simp add: dd_write_all_def)
    also have "snd (dd_Write (\<lambda>_. Inr []) flag_defaults None ''one'' ?d) =
        ?d\<lparr>dd_conn := Some (NewWebsocketConn [] []), dd_dialed := True\<rparr>"
      by (subst dd_first_write [where answers = "[]"]) (simp_all add: e)
    finally show ?thesis by (simp add: dd_write_all_connected ws_write_all_def newDelayDialConn_def)
  qed
  let ?r = "\<lparr>r_path = ''/ws'', r_header = req_header (ws_request flag_defaults ''wss://h/ws'' (Some ''one''))\<rparr>"
  have u: "(\<lambda>_. Inr [(''two'', None)]) ?r = Inr (map (\<lambda>m. (m, None)) (ws_sent (snd (ws_Write None ''two'' (NewWebsocketConn [] [])))))"
    by (simp add: ws_Write_def NewWebsocketConn_def)
  have "case WS_Upgrade ''/ws'' (\<lambda>_. Inr [(''two'', None)]) ?r (start_accepting (make_chan 1)) of (outcome, s') \<Rightarrow>
    outcome = Delivered \<and> (\<exists>srv. chan_buf (connChan s') = [srv] \<and> ws_remaining srv = ''one'' @ concat [''two''] \<and>
      ws_rb srv = (if int (length ''one'') > sint (8 :: uint) then [] else ''one'') \<and>
      MWS_Upgrade ''/ws'' (\<lambda>_. Inr [(''two'', None)]) ?r = ServingMux srv)"
    by (rule early_data_stream [where dialer = "\<lambda>_. Inr []", OF _ c _ _ u])
      (simp_all add: e start_accepting_def make_chan_def)
  then show ?thesis by (auto split: prod.splits)
qed

text \<open>
  C19: A delayed connection never panics: whatever the dials answer and however writes, reads and
  closes interleave, also with a dial under way, the channel \<open>dialed\<close> is closed at most once and a
  nil connection is never used.
\<close>

theorem dd_never_panics:
  assumes "(dd_step o1)\<^sup>*\<^sup>* (dd_start url ed) w"
  shows "\<not> dd_panicked w \<and> (dd_dialed (dd w) \<longleftrightarrow> dd_conn (dd w) \<noteq> None)"
  using dd.reachable [OF assms dd_ok_start] by (simp add: dd_ok_def)

theorem dd_never_panics_witness:
  "\<exists>w. (dd_step flag_defaults)\<^sup>*\<^sup>* (dd_start ''wss://h/'' 8) w \<and> dd_conn (dd w) \<noteq> None \<and> dd_closed (dd w) \<and> \<not> dd_panicked w"
proof -
  let ?w0 = "dd_start ''wss://h/'' 8"
  let ?w1 = "?w0\<lparr>dd_dialing := Some (''a'', dd_early (dd ?w0) ''a'')\<rparr>"
  let ?w2 = "?w1\<lparr>dd := snd (dd_Close None (dd ?w1))\<rparr>"
  let ?f = "dd_finish (streamWebsocketConn (\<lambda>_. Inr []) flag_defaults (dd_url (dd ?w2)) (dd_early (dd ?w0) ''a''))
     None ''a'' (dd_early (dd ?w0) ''a'') (dd ?w2)"
  obtain r d where f: "?f = (r, d)" by (cases ?f) auto
  let ?w3 = "?w2\<lparr>dd := d, dd_dialing := None, dd_panicked := (dd_panicked ?w2 \<or> isl r)\<rparr>"
  have "dd_step flag_defaults ?w0 ?w1"
    by (rule dd_step.start_dial) (simp_all add: dd_start_def newDelayDialConn_def)
  moreover have "dd_step flag_defaults ?w1 ?w2" by (rule dd_step.closes)
  moreover have "dd_step flag_defaults ?w2 ?w3"
    by (rule dd_step.end_dial [OF _ f]) simp
  ultimately have s: "(dd_step flag_defaults)\<^sup>*\<^sup>* ?w0 ?w3"
    by (meson rtranclp.rtrancl_into_rtrancl rtranclp.rtrancl_refl)
  have "dd_conn d \<noteq> None \<and> dd_closed d"
    using f by (auto simp: dd_finish_def streamWebsocketConn_def dd_start_def newDelayDialConn_def dd_early_def Let_def
        dd_Close_def)
  moreover have "\<not> dd_panicked ?w3" using dd_never_panics [OF s] by blast
  ultimately show ?thesis using s by (intro exI [of _ ?w3]) simp
qed

text \<open>
  C34: A reader of a delayed connection blocks for ever once the connection has been closed without
  being dialled, or its dial has failed: \<open>dialed\<close> stays open in every state reached after that.
\<close>

theorem dd_reader_stuck:
  assumes "dd_dialing w = None" and "dd_conn (dd w) = None" and "\<not> dd_dialed (dd w)" and "\<not> dd_closed (dd w)"
    and "d = snd (dd_Close answer (dd w)) \<or> d = snd (dd_finish (Inl err) answer b early (dd w))"
    and "(dd_step o1)\<^sup>*\<^sup>* (w\<lparr>dd := d\<rparr>) w'"
  shows "dd_closed (dd w') \<and> dd_Read n (dd w') = None"
proof -
  have "dd_stuck (w\<lparr>dd := d\<rparr>)"
    using assms(1-5) by (auto simp: dd_stuck_def dd_finish_def)
  then have "dd_stuck w'" using dd_dead.reachable assms(6) by blast
  then show ?thesis by (simp add: dd_stuck_def dd_Read_def)
qed

theorem dd_reader_stuck_witness:
  "dd_closed (dd ((dd_start ''wss://h/'' 8)\<lparr>dd := snd (dd_Close None (newDelayDialConn ''wss://h/'' 8))\<rparr>)) \<and>
   dd_Read 5 (dd ((dd_start ''wss://h/'' 8)\<lparr>dd := snd (dd_Close None (newDelayDialConn ''wss://h/'' 8))\<rparr>)) = None"
  by (rule dd_reader_stuck [where w = "dd_start ''wss://h/'' 8" and d = "snd (dd_Close None (newDelayDialConn ''wss://h/'' 8))"
        and answer = None and err = "ExtErr ''timeout''" and b = "''a''" and early = None and ?o1.0 = flag_defaults])
    (simp_all add: dd_start_def newDelayDialConn_def)

text \<open>
  A close that comes while the dial is under way has no effect on the connection: the dial
  then succeeds, the new websocket connection is stored in an object that is already closed, it is
  not closed, and every later read and write is refused.
\<close>

theorem dd_close_during_dial:
  assumes "dd_conn d = None" and "\<not> dd_dialed d"
    and "dd_finish (Inr c) answer b (Some e) (snd (dd_Close close_answer d)) = (r, d')"
  shows "r = Inr (length e, None) \<and> dd_conn d' = Some c \<and> dd_closed d' \<and>
    dd_Read n d' = Some (Inr ([], Some ClosedPipe), d') \<and>
    dd_Write dialer o1 answer2 b2 d' = (Inr (0, Some ClosedPipe), d')"
  using assms by (auto simp: dd_finish_def dd_Read_def dd_Write_def Let_def)

theorem dd_close_during_dial_witness:
  "\<exists>d'. dd_finish (Inr (NewWebsocketConn [] [])) None ''a'' (Some ''a'') (snd (dd_Close None (newDelayDialConn ''wss://h/'' 8)))
      = (Inr (1, None), d') \<and> dd_Read 5 d' = Some (Inr ([], Some ClosedPipe), d')"
proof -
  let ?d = "newDelayDialConn ''wss://h/'' 8"
  obtain r d' where f: "dd_finish (Inr (NewWebsocketConn [] [])) None ''a'' (Some ''a'') (snd (dd_Close None ?d)) = (r, d')"
    by (cases "dd_finish (Inr (NewWebsocketConn [] [])) None ''a'' (Some ''a'') (snd (dd_Close None ?d))") auto
  have "dd_conn ?d = None" "\<not> dd_dialed ?d" by (simp_all add: newDelayDialConn_def)
  from dd_close_during_dial [OF this f, of 5] have "r = Inr (1, None) \<and> dd_Read 5 d' = Some (Inr ([], Some ClosedPipe), d')"
    by simp
  with f show ?thesis by auto
qed

text \<open>
  Early data that does not decode is treated differently by the two servers: the websocket
  listener logs the error and delivers the connection with the bytes decoded before the error in
  front; the multiplexing one returns and leaves the upgraded connection neither served nor closed.
\<close>

theorem malformed_early_data:
  assumes "r_path r = lpath" and "upgrade r = Inr answers"
    and "DecodeString (header_Get ''Sec-WebSocket-Protocol'' (r_header r)) = (d, Some err)"
  shows "WS_Upgrade lpath upgrade r s = (Delivered, deliver (websocketServerConn answers d) s) \<and>
    MWS_Upgrade lpath upgrade r = Abandoned"
proof -
  have "header_Get ''Sec-WebSocket-Protocol'' (r_header r) \<noteq> []"
    using assms(3) by (auto simp: DecodeString_def)
  then have "early_payload (r_header r) = (d, Some err)"
    using assms(3) by (simp add: early_payload_def)
  then show ?thesis using assms(1,2) by (simp add: WS_Upgrade_def MWS_Upgrade_def)
qed

theorem malformed_early_data_witness:
  "MWS_Upgrade ''/'' (\<lambda>_. Inr []) \<lparr>r_path = ''/'', r_header = [(''Sec-WebSocket-Protocol'', ''chat'' @ ''!'')]\<rparr> = Abandoned \<and>
   WS_Upgrade ''/'' (\<lambda>_. Inr []) \<lparr>r_path = ''/'', r_header = [(''Sec-WebSocket-Protocol'', ''chat'' @ ''!'')]\<rparr>
      (start_accepting (make_chan 1)) =
   (Delivered, deliver (websocketServerConn [] (from_sextets 28 33 26 45)) (start_accepting (make_chan 1)))"
proof -
  let ?r = "\<lparr>r_path = ''/'', r_header = [(''Sec-WebSocket-Protocol'', ''chat'' @ ''!'')]\<rparr>"
  have c: "decode_char (CHR ''c'') = Some 28" "decode_char (CHR ''h'') = Some 33" "decode_char (CHR ''a'') = Some 26"
    "decode_char (CHR ''t'') = Some 45" "decode_char (CHR ''!'') = None"
    by code_simp+
  have d: "DecodeString (header_Get ''Sec-WebSocket-Protocol'' (r_header ?r)) =
      (from_sextets 28 33 26 45, Some (CorruptInput 4))"
    by (simp add: DecodeString_def header_Get_def decode_loop.simps(2) decodeQuantum.simps(2) c is_newline_def)
  from malformed_early_data [where r = ?r and lpath = "''/''" and upgrade = "\<lambda>_. Inr []" and answers = "[]"
      and d = "from_sextets 28 33 26 45" and err = "CorruptInput 4" and s = "start_accepting (make_chan 1)", OF _ _ d]
  show ?thesis by simp
qed

text \<open>
  Both websocket transporters dial a URL of scheme wss, so that the dialer always takes the
  connection of the transporter as it is; without early data they dial at once and send no
  protocol header, with it they do not dial at all. A value from \<open>2\<^sup>6\<^sup>3\<close> on switches the delay on but
  never sends early data.
\<close>

theorem ws_dial:
  shows "WS_DialConn dialer o1 = WSS_DialConn dialer o1 \<and>
    (let url = ''wss://'' @ GetRemoteAddr o1 @ Path o1 in
     req_tls_hook (ws_request o1 url ed) \<and>
     WS_DialConn dialer o1 =
       (if Ed o1 = 0 then
          (case dialer (ws_request o1 url None) of
             Inl err \<Rightarrow> Inl err
           | Inr answers \<Rightarrow> Inr (Direct (NewWebsocketConn answers [])))
        else Inr (Delayed (newDelayDialConn url (Ed o1)))) \<and>
     header_Get ''Sec-WebSocket-Protocol'' (req_header (ws_request o1 url None)) = [] \<and>
     dd_early (newDelayDialConn url (Ed o1)) b =
       (if Ed o1 < 2 ^ 63 \<and> length b \<le> unat (Ed o1) then Some b else None))"
proof -
  have "int (length b) > sint (Ed o1) \<longleftrightarrow> \<not> (Ed o1 < 2 ^ 63 \<and> length b \<le> unat (Ed o1))"
  proof (cases "Ed o1 < 2 ^ 63")
    case True
    then have "unat (Ed o1) < 2 ^ 63" by (simp add: word_less_nat_alt)
    from sint_low [OF this] show ?thesis using True unfolding not_less [symmetric] by (metis of_nat_less_iff)
  next
    case False
    then have "2 ^ 63 \<le> unat (Ed o1)" by (simp add: word_less_nat_alt)
    from sint_high [OF this] have "sint (Ed o1) < int (length b)" by linarith
    with False show ?thesis by blast
  qed
  then show ?thesis
    by (auto simp: WS_DialConn_def WSS_DialConn_def websocketClientConn_def streamWebsocketConn_def Let_def
        ws_request_protocol dd_early_def newDelayDialConn_def word_gt_0 split: sum.splits)
qed

end
