(* ===== verification/HttpConn.thy ===== *)
theory HttpConn
  imports Streams
begin

text \<open>
  \<open>HttpConnection\<close> (src/gost/protocol/http/conn.go), the connection over the two bodies of an HTTP/2
  exchange, first as a sequential object, then with the goroutine that writes and the one that
  closes running side by side.
\<close>

section \<open>The connection\<close>

text \<open>
  What the code does to the writer and the closer it was given is recorded; the reader is only
  passed through, as in \<open>quic_Read\<close>.
\<close>

record HttpConnection =
  http_flusher :: bool       \<comment> \<open>the writer is an \<open>http.Flusher\<close>\<close>
  http_written :: "bytes list"
  http_flushes :: nat
  http_closes :: nat
  http_local :: net_addr
  http_remote :: net_addr
  http_done :: bool

definition NewHttpConnection :: "bool \<Rightarrow> net_addr option \<Rightarrow> net_addr option \<Rightarrow> HttpConnection" where
  "NewHttpConnection flusher loc remote =
     \<lparr>http_flusher = flusher, http_written = [], http_flushes = 0, http_closes = 0,
      http_local = (case loc of None \<Rightarrow> zero_addr | Some a \<Rightarrow> a),
      http_remote = (case remote of None \<Rightarrow> zero_addr | Some a \<Rightarrow> a),
      http_done = False\<rparr>"

definition http_isClosed :: "HttpConnection \<Rightarrow> bool" where
  "http_isClosed c = (if http_done c then True else False)"

text \<open>The part of \<open>Write\<close> behind the check; \<open>answer\<close> is what the writer answers.\<close>

definition http_forward ::
  "nat \<times> go_error option \<Rightarrow> bytes \<Rightarrow> HttpConnection \<Rightarrow> (nat \<times> go_error option) \<times> HttpConnection" where
  "http_forward answer b c =
     (let c = c\<lparr>http_written := http_written c @ [b]\<rparr> in
      case answer of
        (_, Some err) \<Rightarrow> ((0, Some err), c)
      | (n, None) \<Rightarrow> ((n, None), if http_flusher c then c\<lparr>http_flushes := Suc (http_flushes c)\<rparr> else c))"

definition http_Write ::
  "nat \<times> go_error option \<Rightarrow> bytes \<Rightarrow> HttpConnection \<Rightarrow> (nat \<times> go_error option) \<times> HttpConnection" where
  "http_Write answer b c =
     (if http_isClosed c then ((0, Some ClosedPipe), c) else http_forward answer b c)"

text \<open>The closer is called before the channel is closed, so a second close calls it once more and panics.\<close>

definition http_Close :: "go_error option \<Rightarrow> HttpConnection \<Rightarrow> go_error option result \<times> HttpConnection" where
  "http_Close answer c =
     (let c = c\<lparr>http_closes := Suc (http_closes c)\<rparr> in
      if http_done c then (Inl (GoPanic ''close of closed channel''), c)
      else (Inr answer, c\<lparr>http_done := True\<rparr>))"

text \<open>\<open>chainedClosable.Close\<close> (src/gost/proxy/client/h2.go): every closer is closed, no error is returned.\<close>

definition chained_Close :: "('s \<Rightarrow> go_error option \<times> 's) list \<Rightarrow> 's \<Rightarrow> go_error option \<times> 's" where
  "chained_Close cc s = (None, fold (\<lambda>c s. snd (c s)) cc s)"

section \<open>Sequences of calls\<close>

datatype http_op = OpWrite "nat \<times> go_error option" bytes | OpClose "go_error option"

text \<open>A panic ends the run.\<close>

fun http_run :: "http_op list \<Rightarrow> HttpConnection \<Rightarrow> bool \<times> HttpConnection" where
  "http_run [] c = (True, c)"
| "http_run (OpWrite answer b # ops) c = http_run ops (snd (http_Write answer b c))"
| "http_run (OpClose answer # ops) c =
     (case http_Close answer c of
        (Inl _, c) \<Rightarrow> (False, c)
      | (Inr _, c) \<Rightarrow> http_run ops c)"

fun writes_before_close :: "http_op list \<Rightarrow> ((nat \<times> go_error option) \<times> bytes) list" where
  "writes_before_close [] = []"
| "writes_before_close (OpWrite answer b # ops) = (answer, b) # writes_before_close ops"
| "writes_before_close (OpClose answer # ops) = []"

definition is_close :: "http_op \<Rightarrow> bool" where
  "is_close op1 = (case op1 of OpWrite _ _ \<Rightarrow> False | OpClose _ \<Rightarrow> True)"

lemma is_close_simps [simp]: "\<not> is_close (OpWrite a b)" "is_close (OpClose e)"
  by (simp_all add: is_close_def)

lemma http_run_closed:
  "http_done c \<Longrightarrow> http_written (snd (http_run ops c)) = http_written c \<and>
     http_flushes (snd (http_run ops c)) = http_flushes c \<and> (fst (http_run ops c) \<longleftrightarrow> filter is_close ops = [])"
  by (induction ops c rule: http_run.induct) (auto simp: http_Write_def http_isClosed_def http_Close_def Let_def)

lemma http_forward_fields [simp]:
  "http_done (snd (http_forward answer b c)) = http_done c"
  "http_flusher (snd (http_forward answer b c)) = http_flusher c"
  "http_written (snd (http_forward answer b c)) = http_written c @ [b]"
  "http_flushes (snd (http_forward answer b c)) =
     http_flushes c + (if http_flusher c \<and> snd answer = None then 1 else 0)"
  by (auto simp: http_forward_def Let_def split: prod.splits option.splits)

lemma http_run_open:
  "\<not> http_done c \<Longrightarrow>
     http_written (snd (http_run ops c)) = http_written c @ map snd (writes_before_close ops) \<and>
     http_flushes (snd (http_run ops c)) = http_flushes c +
       (if http_flusher c then length (filter (\<lambda>w. snd (fst w) = None) (writes_before_close ops)) else 0) \<and>
     (fst (http_run ops c) \<longleftrightarrow> length (filter is_close ops) \<le> 1)"
proof (induction ops c rule: http_run.induct)
  case (2 answer b ops c)
  then show ?case by (cases answer) (simp add: http_Write_def http_isClosed_def)
next
  case (3 answer ops c)
  then show ?case
    using http_run_closed [of "c\<lparr>http_closes := Suc (http_closes c), http_done := True\<rparr>" ops]
    by (simp add: http_Close_def Let_def le_Suc_eq)
qed simp

section \<open>A writer and a closer side by side\<close>

text \<open>
  The writing goroutine checks \<open>isClosed\<close> and then calls the writer: two steps. Between them the
  other one may close the connection, and the HTTP handler that waits on \<open>Done\<close> may return; from
  then on the response writer must not be used. \<open>late\<close> collects the writes that are made after that.
\<close>

record http_race =
  race_conn :: HttpConnection
  race_checked :: "bytes option"
  race_returned :: bool
  race_late :: "bytes list"

definition race_start :: http_race where
  "race_start = \<lparr>race_conn = NewHttpConnection True None None, race_checked = None, race_returned = False, race_late = []\<rparr>"

inductive race_step :: "http_race \<Rightarrow> http_race \<Rightarrow> bool" where
  checks: "race_checked s = None \<Longrightarrow> \<not> http_isClosed (race_conn s) \<Longrightarrow>
     race_step s (s\<lparr>race_checked := Some b\<rparr>)"
| writes: "race_checked s = Some b \<Longrightarrow>
     race_step s (s\<lparr>race_checked := None, race_conn := snd (http_forward answer b (race_conn s)),
       race_late := (if race_returned s then race_late s @ [b] else race_late s)\<rparr>)"
| closes: "http_Close answer (race_conn s) = (Inr e, c) \<Longrightarrow> race_step s (s\<lparr>race_conn := c\<rparr>)"
| handler_returns: "http_isClosed (race_conn s) \<Longrightarrow> race_step s (s\<lparr>race_returned := True\<rparr>)"

inductive_cases race_stepE: "race_step s t"

definition race_inv :: "http_race \<Rightarrow> bool" where
  "race_inv s \<longleftrightarrow>
     (race_returned s \<longrightarrow> http_done (race_conn s)) \<and>
     length (race_late s) + (if race_checked s = None then 0 else 1) \<le> (1 :: nat) \<and>
     (race_late s \<noteq> [] \<longrightarrow> race_returned s)"

lemma http_Close_done: "http_Close answer c = (Inr e, c') \<Longrightarrow> \<not> http_done c \<and> http_done c'"
  by (auto simp: http_Close_def Let_def split: if_splits)

lemma race_inv_step: "race_step s t \<Longrightarrow> race_inv s \<Longrightarrow> race_inv t"
  by (erule race_stepE) (auto simp: race_inv_def http_isClosed_def dest: http_Close_done split: if_splits)

interpretation race: step_invariant race_step race_inv
  by unfold_locales (rule race_inv_step)

section \<open>Properties\<close>

text \<open>
  C35: In any sequence of calls on a fresh connection exactly the writes before the first close reach
  the writer, in order, each followed by one flush if it succeeded and the writer can flush; the
  later ones are refused. The sequence runs without a panic if and only if it closes at most once.
\<close>

theorem http_calls:
  shows "case http_run ops (NewHttpConnection flusher loc remote) of (ok, c) \<Rightarrow>
    http_written c = map snd (writes_before_close ops) \<and>
    http_flushes c = (if flusher then length (filter (\<lambda>w. snd (fst w) = None) (writes_before_close ops)) else 0) \<and>
    (ok \<longleftrightarrow> length (filter is_close ops) \<le> 1)"
  using http_run_open [of "NewHttpConnection flusher loc remote" ops]
  by (auto simp: NewHttpConnection_def split: prod.splits)

text \<open>
  When writer and closer run side by side, a write may reach the response writer after the HTTP
  handler has returned, because the check and the write are not one step; it can happen once and,
  whatever the interleaving, no more than once.
\<close>

theorem http_late_write:
  "(\<exists>s. race_step\<^sup>*\<^sup>* race_start s \<and> race_late s = [b]) \<and>
   (\<nexists>s. race_step\<^sup>*\<^sup>* race_start s \<and> 1 < length (race_late s))"
proof
  let ?c = "NewHttpConnection True None None"
  let ?s1 = "race_start\<lparr>race_checked := Some b\<rparr>"
  let ?s2 = "?s1\<lparr>race_conn := snd (http_Close None ?c)\<rparr>"
  let ?s3 = "?s2\<lparr>race_returned := True\<rparr>"
  let ?s4 = "?s3\<lparr>race_checked := None, race_conn := snd (http_forward (0, None) b (race_conn ?s3)), race_late := [b]\<rparr>"
  have "race_step race_start ?s1"
    by (rule race_step.checks) (simp_all add: race_start_def NewHttpConnection_def http_isClosed_def)
  moreover have "race_step ?s1 ?s2"
    by (rule race_step.closes [of None _ None]) (simp add: race_start_def NewHttpConnection_def http_Close_def)
  moreover have "race_step ?s2 ?s3"
    by (rule race_step.handler_returns) (simp add: NewHttpConnection_def http_Close_def http_isClosed_def)
  moreover have "race_step ?s3 ?s4"
    using race_step.writes [of ?s3 b "(0, None)"] by (simp add: race_start_def)
  ultimately have "race_step\<^sup>*\<^sup>* race_start ?s4"
    by (meson rtranclp.rtrancl_into_rtrancl rtranclp.rtrancl_refl)
  then show "\<exists>s. race_step\<^sup>*\<^sup>* race_start s \<and> race_late s = [b]" by (intro exI [of _ ?s4]) simp
next
  have "race_inv race_start" by (simp add: race_inv_def race_start_def)
  then have "race_inv s" if "race_step\<^sup>*\<^sup>* race_start s" for s using race.reachable that by blast
  then show "\<nexists>s. race_step\<^sup>*\<^sup>* race_start s \<and> 1 < length (race_late s)"
    unfolding race_inv_def by (metis add_leD1 not_less)
qed

end
