(* ===== verification/MuxPool.thy ===== *)
theory MuxPool
  imports Args
begin

text \<open>
  Package \<open>mux\<close> (src/mux/mux.go, src/mux/client.go): the pool of smux sessions of a multiplexing
  transporter. smux itself is a library: what the pool calls of it is a record of functions on an
  opaque session state, an argument of every operation. The pool's lock makes each operation
  atomic, so an operation is a function of the pool; between two operations the peer may change
  the state of any session. Go does not fix the order in which a map is ranged over: the order is
  an argument too, a duplicate-free list of the keys.
\<close>

section \<open>State\<close>

type_synonym muxID = "32 word"

text \<open>
  The calls into smux: \<open>IsClosed\<close>, \<open>NumStreams\<close>, \<open>OpenStream\<close> (with the new state of the
  session), \<open>Close\<close>, and \<open>smux.Client\<close> on a connection.
\<close>

record ('c, 'k, 's) smux =
  smux_IsClosed :: "'c \<Rightarrow> bool"
  smux_NumStreams :: "'c \<Rightarrow> nat"
  smux_OpenStream :: "'c \<Rightarrow> 's result \<times> 'c"
  smux_Close :: "'c \<Rightarrow> 'c"
  smux_Client :: "'k \<Rightarrow> 'c result"

record ('c, 'k) muxSession =
  mid :: muxID
  client :: 'c
  underlayConn :: 'k
  lastActiveTime :: int

record ('c, 'k) MuxPool =
  concurrency :: uint
  timeout :: int
  sessions :: "muxID \<rightharpoonup> ('c, 'k) muxSession"

text \<open>What an operation closes, in order: underlying connections and smux sessions.\<close>

datatype ('c, 'k) effect = CloseConn 'k | CloseClient 'c

type_synonym ('c, 'k) pool_state = "('c, 'k) MuxPool \<times> ('c, 'k) effect list"

text \<open>\<open>NewMuxPool\<close>: the concurrency comes from the option \<open>mux\<close>, the timeout is thirty seconds.\<close>

definition NewMuxPool :: "Options \<Rightarrow> ('c, 'k) MuxPool" where
  "NewMuxPool options =
     \<lparr>concurrency = Mux options, timeout = 30 * 1000000000, sessions = Map.empty\<rparr>"

section \<open>Dialling\<close>

definition delete_session :: "muxID \<Rightarrow> ('c, 'k) MuxPool \<Rightarrow> ('c, 'k) MuxPool" where
  "delete_session i p = p\<lparr>sessions := (sessions p)(i := None)\<rparr>"

definition put_session :: "('c, 'k) muxSession \<Rightarrow> ('c, 'k) MuxPool \<Rightarrow> ('c, 'k) MuxPool" where
  "put_session sess p = p\<lparr>sessions := (sessions p)(mid sess \<mapsto> sess)\<rparr>"

text \<open>
  The closure \<open>openNewStream\<close>: the time of the last activity is set whether or not the stream
  opens; a failure closes connection and session and drops the session from the map.
\<close>

definition openNewStream ::
  "('c, 'k, 's) smux \<Rightarrow> int \<Rightarrow> ('c, 'k) muxSession \<Rightarrow> ('c, 'k) pool_state \<Rightarrow> 's result \<times> ('c, 'k) pool_state" where
  "openNewStream ops now sess st =
     (case st of (p, eff) \<Rightarrow>
      case smux_OpenStream ops (client sess) of
        (r, c) \<Rightarrow>
          let sess = sess\<lparr>client := c, lastActiveTime := now\<rparr> in
          (case r of
             Inl err \<Rightarrow> (Inl err, delete_session (mid sess) p, eff @ [CloseConn (underlayConn sess), CloseClient c])
           | Inr rwc \<Rightarrow> (Inr rwc, put_session sess p, eff)))"

text \<open>
  The test of the range loop. \<open>int(p.concurrency)\<close> reads the 64 bits as a signed number, the second
  comparison is unsigned.
\<close>

definition has_room :: "('c, 'k, 's) smux \<Rightarrow> uint \<Rightarrow> 'c \<Rightarrow> bool" where
  "has_room ops conc c \<longleftrightarrow> int (smux_NumStreams ops c) < sint conc \<or> conc \<le> 0"

text \<open>The loop \<open>for _, sess := range p.sessions\<close>; \<open>None\<close> is falling out of it.\<close>

fun dial_scan ::
  "('c, 'k, 's) smux \<Rightarrow> int \<Rightarrow> muxID list \<Rightarrow> ('c, 'k) pool_state \<Rightarrow> 's result option \<times> ('c, 'k) pool_state" where
  "dial_scan ops now [] st = (None, st)"
| "dial_scan ops now (i # order) (p, eff) =
     (case sessions p i of
        None \<Rightarrow> dial_scan ops now order (p, eff)
      | Some sess \<Rightarrow>
          if smux_IsClosed ops (client sess) then
            dial_scan ops now order (delete_session (mid sess) p, eff)
          else if has_room ops (concurrency p) (client sess) then
            apfst Some (openNewStream ops now sess (p, eff))
          else dial_scan ops now order (p, eff))"

text \<open>
  After the loop, a new session: \<open>newConn\<close> is what the transporter's dial answers, \<open>i\<close> the random
  identifier. When \<open>smux.Client\<close> fails the connection is just dropped.
\<close>

definition dial_new ::
  "('c, 'k, 's) smux \<Rightarrow> 'k result \<Rightarrow> muxID \<Rightarrow> int \<Rightarrow> ('c, 'k) pool_state \<Rightarrow> 's result \<times> ('c, 'k) pool_state" where
  "dial_new ops newConn i now st =
     (case newConn of
        Inl err \<Rightarrow> (Inl err, st)
      | Inr conn \<Rightarrow>
          (case smux_Client ops conn of
             Inl err \<Rightarrow> (Inl err, st)
           | Inr c \<Rightarrow>
               let sess = \<lparr>mid = i, client = c, underlayConn = conn, lastActiveTime = 0\<rparr>
               in openNewStream ops now sess (put_session sess (fst st), snd st)))"

definition DialMux ::
  "('c, 'k, 's) smux \<Rightarrow> 'k result \<Rightarrow> muxID \<Rightarrow> int \<Rightarrow> muxID list \<Rightarrow> ('c, 'k) pool_state
     \<Rightarrow> 's result \<times> ('c, 'k) pool_state" where
  "DialMux ops newConn i now order st =
     (case dial_scan ops now order st of
        (Some r, st) \<Rightarrow> (r, st)
      | (None, st) \<Rightarrow> dial_new ops newConn i now st)"

section \<open>The clean-up loop\<close>

text \<open>One tick of \<open>cleanLoop\<close>: closed sessions go, and idle ones past the timeout.\<close>

definition expired :: "('c, 'k, 's) smux \<Rightarrow> int \<Rightarrow> int \<Rightarrow> ('c, 'k) muxSession \<Rightarrow> bool" where
  "expired ops now limit sess \<longleftrightarrow>
     smux_IsClosed ops (client sess) \<or>
     smux_NumStreams ops (client sess) = 0 \<and> now - lastActiveTime sess > limit"

definition drop_session :: "muxID \<Rightarrow> ('c, 'k) muxSession \<Rightarrow> ('c, 'k) pool_state \<Rightarrow> ('c, 'k) pool_state" where
  "drop_session i sess st =
     (delete_session i (fst st), snd st @ [CloseClient (client sess), CloseConn (underlayConn sess)])"

fun clean_tick ::
  "('c, 'k, 's) smux \<Rightarrow> int \<Rightarrow> muxID list \<Rightarrow> ('c, 'k) pool_state \<Rightarrow> ('c, 'k) pool_state" where
  "clean_tick ops now [] st = st"
| "clean_tick ops now (i # order) st =
     (case sessions (fst st) i of
        None \<Rightarrow> clean_tick ops now order st
      | Some sess \<Rightarrow>
          if smux_IsClosed ops (client sess) then clean_tick ops now order (drop_session i sess st)
          else if smux_NumStreams ops (client sess) = 0 \<and> now - lastActiveTime sess > timeout (fst st)
          then clean_tick ops now order (drop_session i sess st)
          else clean_tick ops now order st)"

text \<open>The end of the context: everything is closed.\<close>

fun clean_done :: "muxID list \<Rightarrow> ('c, 'k) pool_state \<Rightarrow> ('c, 'k) pool_state" where
  "clean_done [] st = st"
| "clean_done (i # order) st =
     (case sessions (fst st) i of
        None \<Rightarrow> clean_done order st
      | Some sess \<Rightarrow> clean_done order (drop_session i sess st))"

text \<open>The select of \<open>cleanLoop\<close>, over the events it may see; it returns when the context is done.\<close>

datatype clean_event = TimerFires int "muxID list" | ContextDone "muxID list"

fun cleanLoop :: "('c, 'k, 's) smux \<Rightarrow> clean_event list \<Rightarrow> ('c, 'k) pool_state \<Rightarrow> bool \<times> ('c, 'k) pool_state" where
  "cleanLoop ops [] st = (False, st)"
| "cleanLoop ops (TimerFires now order # evs) st = cleanLoop ops evs (clean_tick ops now order st)"
| "cleanLoop ops (ContextDone order # evs) st = (True, clean_done order st)"

section \<open>Well-formed pools\<close>

definition pool_wf :: "('c, 'k) MuxPool \<Rightarrow> bool" where
  "pool_wf p \<longleftrightarrow> (\<forall>i sess. sessions p i = Some sess \<longrightarrow> mid sess = i)"

definition ranges_over :: "('c, 'k) MuxPool \<Rightarrow> muxID list \<Rightarrow> bool" where
  "ranges_over p order \<longleftrightarrow> distinct order \<and> set order = dom (sessions p)"

lemma pool_wf_mid: "pool_wf p \<Longrightarrow> sessions p i = Some sess \<Longrightarrow> mid sess = i"
  by (simp add: pool_wf_def)

lemma pool_simps [simp]:
  "sessions (delete_session i p) = (sessions p)(i := None)"
  "concurrency (delete_session i p) = concurrency p"
  "timeout (delete_session i p) = timeout p"
  "sessions (put_session sess p) = (sessions p)(mid sess \<mapsto> sess)"
  "concurrency (put_session sess p) = concurrency p"
  "timeout (put_session sess p) = timeout p"
  by (simp_all add: delete_session_def put_session_def)

lemma pool_wf_delete [simp]: "pool_wf p \<Longrightarrow> pool_wf (delete_session i p)"
  by (simp add: pool_wf_def)

lemma pool_wf_put [simp]: "pool_wf p \<Longrightarrow> pool_wf (put_session sess p)"
  by (simp add: pool_wf_def)

lemma pool_wf_new: "pool_wf (NewMuxPool options)"
  by (simp add: pool_wf_def NewMuxPool_def)

lemma openNewStream_wf:
  "pool_wf (fst st) \<Longrightarrow> pool_wf (fst (snd (openNewStream ops now sess st)))"
  by (cases st) (auto simp: openNewStream_def Let_def split: prod.splits sum.splits)

lemma dial_scan_wf:
  "pool_wf (fst st) \<Longrightarrow> pool_wf (fst (snd (dial_scan ops now order st)))"
  by (induction ops now order st rule: dial_scan.induct)
    (auto simp: openNewStream_wf split: option.splits)

lemma DialMux_wf:
  "pool_wf (fst st) \<Longrightarrow> pool_wf (fst (snd (DialMux ops newConn i now order st)))"
  using dial_scan_wf [of st ops now order]
  by (auto simp: DialMux_def dial_new_def Let_def openNewStream_wf split: prod.splits option.splits sum.splits)

section \<open>Which session a dial uses\<close>

text \<open>A session a dial would take, and the pool without those of the listed sessions that are closed.\<close>

definition usable :: "('c, 'k, 's) smux \<Rightarrow> ('c, 'k) MuxPool \<Rightarrow> muxID \<Rightarrow> bool" where
  "usable ops p i =
     (case sessions p i of
        None \<Rightarrow> False
      | Some sess \<Rightarrow> \<not> smux_IsClosed ops (client sess) \<and> has_room ops (concurrency p) (client sess))"

definition prune :: "('c, 'k, 's) smux \<Rightarrow> muxID list \<Rightarrow> ('c, 'k) MuxPool \<Rightarrow> ('c, 'k) MuxPool" where
  "prune ops is p =
     p\<lparr>sessions := (\<lambda>i. case sessions p i of
          None \<Rightarrow> None
        | Some sess \<Rightarrow> if i \<in> set is \<and> smux_IsClosed ops (client sess) then None else Some sess)\<rparr>"

lemma prune_simps [simp]:
  "concurrency (prune ops is p) = concurrency p"
  "timeout (prune ops is p) = timeout p"
  by (simp_all add: prune_def)

lemma sessions_prune:
  "sessions (prune ops is p) i = Some sess \<longleftrightarrow>
     sessions p i = Some sess \<and> \<not> (i \<in> set is \<and> smux_IsClosed ops (client sess))"
  by (auto simp: prune_def split: option.splits)

lemma prune_wf: "pool_wf p \<Longrightarrow> pool_wf (prune ops is p)"
  by (simp add: pool_wf_def sessions_prune)

lemma pool_eqI:
  "concurrency p = concurrency q \<Longrightarrow> timeout p = timeout q \<Longrightarrow> (\<And>i. sessions p i = sessions q i) \<Longrightarrow> p = (q :: ('c, 'k) MuxPool)"
  by (cases p; cases q) (simp add: fun_eq_iff)

lemma prune_Nil [simp]: "prune ops [] p = p"
  by (rule pool_eqI) (auto simp: prune_def split: option.splits)

lemma prune_Cons_closed:
  "sessions p i = Some sess \<Longrightarrow> smux_IsClosed ops (client sess) \<Longrightarrow>
     prune ops (i # is) p = prune ops is (delete_session i p)"
  by (rule pool_eqI) (auto simp: prune_def split: option.splits)

lemma prune_Cons_kept:
  "(\<And>sess. sessions p i = Some sess \<Longrightarrow> \<not> smux_IsClosed ops (client sess)) \<Longrightarrow>
     prune ops (i # is) p = prune ops is p"
  by (rule pool_eqI) (auto simp: prune_def split: option.splits)

lemma usable_None: "sessions p i = None \<Longrightarrow> \<not> usable ops p i"
  by (simp add: usable_def)

lemma usable_Some:
  "sessions p i = Some sess \<Longrightarrow>
     usable ops p i \<longleftrightarrow> \<not> smux_IsClosed ops (client sess) \<and> has_room ops (concurrency p) (client sess)"
  by (simp add: usable_def)

lemma usable_delete [simp]: "i \<noteq> j \<Longrightarrow> usable ops (delete_session i p) j = usable ops p j"
  by (cases "sessions p j") (simp_all add: usable_None usable_Some)

lemma dial_scan_selects:
  assumes "pool_wf p" and "distinct order"
  shows "dial_scan ops now order (p, eff) =
    (case dropWhile (\<lambda>j. \<not> usable ops p j) order of
       [] \<Rightarrow> (None, prune ops order p, eff)
     | j # _ \<Rightarrow> apfst Some (openNewStream ops now (the (sessions p j))
                  (prune ops (takeWhile (\<lambda>j. \<not> usable ops p j) order) p, eff)))"
  using assms
proof (induction order arbitrary: p)
  case (Cons i order)
  show ?case
  proof (cases "sessions p i")
    case None
    then have pr: "prune ops (i # is) p = prune ops is p" for "is" by (intro prune_Cons_kept) simp
    show ?thesis using Cons None 
      by (cases "dropWhile (\<lambda>j. \<not> usable ops p j) order") (simp_all add: usable_None pr del: dropWhile_eq_Nil_conv)
  next
    case (Some sess)
    note m = pool_wf_mid [OF Cons.prems(1) Some]
    show ?thesis
    proof (cases "smux_IsClosed ops (client sess)")
      case True
      have u: "usable ops (delete_session i p) j = usable ops p j" if "j \<in> set order" for j
        using that Cons.prems(2) by (intro usable_delete) auto
      have s: "sessions (delete_session i p) j = sessions p j" if "j \<in> set order" for j
        using that Cons.prems(2) by auto
      have dw: "dropWhile (\<lambda>j. \<not> usable ops (delete_session i p) j) order = dropWhile (\<lambda>j. \<not> usable ops p j) order"
        by (rule dropWhile_cong) (simp_all add: u)
      have tw: "takeWhile (\<lambda>j. \<not> usable ops (delete_session i p) j) order = takeWhile (\<lambda>j. \<not> usable ops p j) order"
        by (rule takeWhile_cong) (simp_all add: u)
      have "\<not> usable ops p i" using Some True by (simp add: usable_Some)
      moreover have "sessions (delete_session i p) k = sessions p k"
        if "dropWhile (\<lambda>j. \<not> usable ops p j) order = k # ks" for k ks
        using s [of k] set_dropWhileD [of k "\<lambda>j. \<not> usable ops p j" order] that by auto
      ultimately show ?thesis
        using Cons.IH [of "delete_session i p"] Cons.prems Some True m
        by (cases "dropWhile (\<lambda>j. \<not> usable ops p j) order") (simp_all add: prune_Cons_closed dw tw del: dropWhile_eq_Nil_conv)
    next
      case False
      then have pr: "prune ops (i # is) p = prune ops is p" for "is"
        using Some by (intro prune_Cons_kept) simp
      show ?thesis using Cons Some False 
        by (cases "dropWhile (\<lambda>j. \<not> usable ops p j) order") (simp_all add: usable_Some [OF Some] pr del: dropWhile_eq_Nil_conv)
    qed
  qed
qed simp

lemma DialMux_selection:
  assumes "pool_wf p" and "distinct order"
  shows "DialMux ops newConn i now order (p, eff) =
    (case dropWhile (\<lambda>j. \<not> usable ops p j) order of
       [] \<Rightarrow> dial_new ops newConn i now (prune ops order p, eff)
     | j # _ \<Rightarrow> openNewStream ops now (the (sessions p j))
                 (prune ops (takeWhile (\<lambda>j. \<not> usable ops p j) order) p, eff))"
proof (cases "dropWhile (\<lambda>j. \<not> usable ops p j) order")
  case Nil
  then show ?thesis
    using dial_scan_selects [OF assms, of ops now eff] by (simp add: DialMux_def del: dropWhile_eq_Nil_conv)
next
  case (Cons j js)
  obtain r st where o: "openNewStream ops now (the (sessions p j))
      (prune ops (takeWhile (\<lambda>j. \<not> usable ops p j) order) p, eff) = (r, st)"
    by (cases "openNewStream ops now (the (sessions p j))
      (prune ops (takeWhile (\<lambda>j. \<not> usable ops p j) order) p, eff)") auto
  show ?thesis
    using Cons dial_scan_selects [OF assms, of ops now eff] by (simp add: DialMux_def o)
qed

lemma dropWhile_Cons_mem: "dropWhile P xs = y # ys \<Longrightarrow> y \<in> set xs \<and> \<not> P y"
  by (metis hd_dropWhile list.distinct(1) list.sel(1) list.set_intros(1) set_dropWhileD)

lemma first_usable:
  assumes "dropWhile (\<lambda>j. \<not> usable ops p j) order = j # js"
  obtains sess where "sessions p j = Some sess" "\<not> smux_IsClosed ops (client sess)"
    "has_room ops (concurrency p) (client sess)"
  using dropWhile_Cons_mem [OF assms] by (cases "sessions p j") (auto simp: usable_None usable_Some)

text \<open>What \<open>openNewStream\<close> does to the pool and the effects.\<close>

lemma openNewStream_result:
  "openNewStream ops now sess (p, eff) = (r, p', eff') \<Longrightarrow>
     concurrency p' = concurrency p \<and> timeout p' = timeout p \<and>
     (case r of
        Inl _ \<Rightarrow> p' = delete_session (mid sess) p \<and>
          eff' = eff @ [CloseConn (underlayConn sess), CloseClient (snd (smux_OpenStream ops (client sess)))]
      | Inr _ \<Rightarrow> eff' = eff \<and>
          p' = put_session (sess\<lparr>client := snd (smux_OpenStream ops (client sess)), lastActiveTime := now\<rparr>) p)"
  by (auto simp: openNewStream_def Let_def split: prod.splits sum.splits)

lemma openNewStream_accounts:
  assumes "openNewStream ops now sess (p, eff) = (r, p', eff')"
  shows "j \<noteq> mid sess \<Longrightarrow> sessions p' j = sessions p j"
    and "map_option underlayConn (sessions p' (mid sess)) = Some (underlayConn sess) \<or>
         CloseConn (underlayConn sess) \<in> set eff'"
    and "set eff \<subseteq> set eff'"
  using openNewStream_result [OF assms] by (auto split: sum.splits)

text \<open>A session that a dial passes without using it is kept unless smux has closed it.\<close>

lemma prune_accounts:
  "sessions p j = Some sess \<Longrightarrow>
     map_option underlayConn (sessions (prune ops is p) j) = Some (underlayConn sess) \<or> smux_IsClosed ops (client sess)"
  by (auto simp: prune_def)

lemma dial_new_accounts:
  assumes "dial_new ops newConn i now (p, eff) = (r, p', eff')"
  shows "j \<noteq> i \<Longrightarrow> sessions p' j = sessions p j"
    and "newConn = Inr k \<Longrightarrow> smux_Client ops k = Inr c \<Longrightarrow>
           map_option underlayConn (sessions p' i) = Some k \<or> CloseConn k \<in> set eff'"
  using assms openNewStream_accounts [of ops now]
  by (fastforce simp: dial_new_def Let_def split: sum.splits, fastforce simp: dial_new_def Let_def split: sum.splits)

section \<open>What the clean-up does\<close>

definition closing :: "('c, 'k) MuxPool \<Rightarrow> muxID \<Rightarrow> ('c, 'k) effect list" where
  "closing p i =
     (case sessions p i of None \<Rightarrow> [] | Some sess \<Rightarrow> [CloseClient (client sess), CloseConn (underlayConn sess)])"

text \<open>The pool without the sessions of \<open>order\<close> that satisfy \<open>P\<close>.\<close>

definition without :: "(('c, 'k) muxSession \<Rightarrow> bool) \<Rightarrow> muxID list \<Rightarrow> ('c, 'k) MuxPool \<Rightarrow> ('c, 'k) MuxPool" where
  "without P order p =
     p\<lparr>sessions := (\<lambda>i. case sessions p i of
          None \<Rightarrow> None | Some sess \<Rightarrow> if i \<in> set order \<and> P sess then None else Some sess)\<rparr>"

lemma without_simps [simp]:
  "concurrency (without P order p) = concurrency p"
  "timeout (without P order p) = timeout p"
  by (simp_all add: without_def)

lemma sessions_without:
  "sessions (without P order p) i = Some sess \<longleftrightarrow> sessions p i = Some sess \<and> \<not> (i \<in> set order \<and> P sess)"
  by (auto simp: without_def split: option.splits)

lemma without_Nil [simp]: "without P [] p = p"
  by (rule pool_eqI) (auto simp: without_def split: option.splits)

lemma without_Cons_dropped:
  "sessions p i = Some sess \<Longrightarrow> P sess \<Longrightarrow> without P (i # is) p = without P is (delete_session i p)"
  by (rule pool_eqI) (auto simp: without_def split: option.splits)

lemma without_Cons_kept:
  "(\<And>sess. sessions p i = Some sess \<Longrightarrow> \<not> P sess) \<Longrightarrow> without P (i # is) p = without P is p"
  by (rule pool_eqI) (auto simp: without_def split: option.splits)

lemma closing_delete [simp]: "i \<noteq> j \<Longrightarrow> closing (delete_session i p) j = closing p j"
  by (simp add: closing_def)

definition selects :: "(('c, 'k) muxSession \<Rightarrow> bool) \<Rightarrow> ('c, 'k) MuxPool \<Rightarrow> muxID \<Rightarrow> bool" where
  "selects P p i = (case sessions p i of None \<Rightarrow> False | Some sess \<Rightarrow> P sess)"

lemma selects_None: "sessions p i = None \<Longrightarrow> \<not> selects P p i"
  by (simp add: selects_def)

lemma selects_Some: "sessions p i = Some sess \<Longrightarrow> selects P p i \<longleftrightarrow> P sess"
  by (simp add: selects_def)

lemma selects_delete [simp]: "i \<noteq> j \<Longrightarrow> selects P (delete_session i p) j = selects P p j"
  by (simp add: selects_def)

text \<open>Both sweeps have the same shape.\<close>

lemma sweep_step:
  assumes "i \<notin> set order" and "sessions p i = Some sess" and "P sess"
  shows "concat (map (closing p) (filter (selects P p) (i # order))) =
    [CloseClient (client sess), CloseConn (underlayConn sess)] @
    concat (map (closing (delete_session i p)) (filter (selects P (delete_session i p)) order))"
proof -
  have "filter (selects P (delete_session i p)) order = filter (selects P p) order"
    using assms(1) by (intro filter_cong refl selects_delete) auto
  moreover have "map (closing (delete_session i p)) (filter (selects P p) order) = map (closing p) (filter (selects P p) order)"
    using assms(1) by (intro map_cong refl closing_delete) auto
  moreover have "closing p i = [CloseClient (client sess), CloseConn (underlayConn sess)]"
    using assms(2) by (simp add: closing_def)
  ultimately show ?thesis using assms(2,3) by (simp add: selects_Some del: map_eq_conv)
qed

lemma clean_tick_sweep:
  "distinct order \<Longrightarrow> clean_tick ops now order (p, eff) =
     (without (expired ops now (timeout p)) order p,
      eff @ concat (map (closing p) (filter (selects (expired ops now (timeout p)) p) order)))"
proof (induction order arbitrary: p eff)
  case (Cons i order)
  show ?case
  proof (cases "sessions p i")
    case None
    then have "without P (i # order) p = without P order p" for P by (intro without_Cons_kept) simp
    then show ?thesis using Cons None by (simp add: selects_None)
  next
    case (Some sess)
    have c: "clean_tick ops now (i # order) (p, eff) =
      clean_tick ops now order (if expired ops now (timeout p) sess then drop_session i sess (p, eff) else (p, eff))"
      using Some by (simp add: expired_def)
    show ?thesis
    proof (cases "expired ops now (timeout p) sess")
      case True
      have n: "i \<notin> set order" and d: "distinct order" using Cons.prems by auto
      show ?thesis
        unfolding c using Cons.IH [OF d, of "delete_session i p"] True
        by (simp add: drop_session_def sweep_step [of i order p sess "expired ops now (timeout p)", OF n Some True]
              without_Cons_dropped [of p i sess "expired ops now (timeout p)", OF Some True]
            del: filter.simps clean_tick.simps clean_done.simps(1))
    next
      case False
      then have "without (expired ops now (timeout p)) (i # order) p = without (expired ops now (timeout p)) order p"
        using Some by (intro without_Cons_kept) simp
      then show ?thesis unfolding c
        using Cons False by (simp add: selects_Some [OF Some] del: clean_tick.simps)
    qed
  qed
qed simp

lemma clean_done_sweep:
  "distinct order \<Longrightarrow> clean_done order (p, eff) =
     (without (\<lambda>_. True) order p, eff @ concat (map (closing p) (filter (selects (\<lambda>_. True) p) order)))"
proof (induction order arbitrary: p eff)
  case (Cons i order)
  show ?case
  proof (cases "sessions p i")
    case None
    then have "without P (i # order) p = without P order p" for P by (intro without_Cons_kept) simp
    then show ?thesis using Cons None by (simp add: selects_None)
  next
    case (Some sess)
    have n: "i \<notin> set order" and d: "distinct order" using Cons.prems by auto
    show ?thesis
      using Cons.IH [OF d, of "delete_session i p"] Some
      by (simp add: drop_session_def sweep_step [of i order p sess "\<lambda>_. True", OF n Some TrueI]
          without_Cons_dropped [of p i sess "\<lambda>_. True", OF Some TrueI] del: filter.simps)
  qed
qed simp

lemma clean_done_closes:
  "CloseConn k \<in> set (snd (clean_done order st)) \<Longrightarrow>
     CloseConn k \<in> set (snd st) \<or> (\<exists>j sess. sessions (fst st) j = Some sess \<and> underlayConn sess = k)"
proof (induction order st rule: clean_done.induct)
  case (2 i order st)
  then show ?case by (cases "sessions (fst st) i") (fastforce simp: drop_session_def split: if_splits)+
qed simp

text \<open>
  A small instance of the library for the concrete cases: a session is its number of streams and
  whether it is closed, a connection is a number, a stream the number it got.
\<close>

definition demo_smux :: "(nat \<times> bool, nat, nat) smux" where
  "demo_smux =
     \<lparr>smux_IsClosed = snd, smux_NumStreams = fst,
      smux_OpenStream = (\<lambda>(n, b). if b then (Inl (ExtErr ''io: closed''), (n, b)) else (Inr n, (Suc n, b))),
      smux_Close = (\<lambda>(n, b). (0, True)),
      smux_Client = (\<lambda>k. Inr (0, False))\<rparr>"

lemma demo_smux_simps [simp]:
  "smux_IsClosed demo_smux (n, b) = b"
  "smux_NumStreams demo_smux (n, b) = n"
  "smux_OpenStream demo_smux (n, b) = (if b then (Inl (ExtErr ''io: closed''), (n, b)) else (Inr n, (Suc n, b)))"
  "smux_Client demo_smux k = Inr (0, False)"
  by (simp_all add: demo_smux_def)

text \<open>A pool with a closed session 1, a full session 2 and a session 3 that has room.\<close>

definition demo_pool :: "(nat \<times> bool, nat) MuxPool" where
  "demo_pool =
     \<lparr>concurrency = 2, timeout = 30,
      sessions = [1 \<mapsto> \<lparr>mid = 1, client = (0, True), underlayConn = 11, lastActiveTime = 0\<rparr>,
                  2 \<mapsto> \<lparr>mid = 2, client = (2, False), underlayConn = 12, lastActiveTime = 0\<rparr>,
                  3 \<mapsto> \<lparr>mid = 3, client = (0, False), underlayConn = 13, lastActiveTime = 0\<rparr>]\<rparr>"

lemma demo_pool_ok: "pool_wf demo_pool" "ranges_over demo_pool [1, 2, 3]" "sessions demo_pool 4 = None"
  by (auto simp: pool_wf_def ranges_over_def demo_pool_def split: if_splits)

section \<open>All operations together\<close>

text \<open>
  The steps of a pool: dials, ticks, the end of the context, and a session that changes on its own
  (streams end, the peer goes away), which never adds streams: the server opens none.
\<close>

inductive pool_step :: "('c, 'k, 's) smux \<Rightarrow> ('c, 'k) pool_state \<Rightarrow> ('c, 'k) pool_state \<Rightarrow> bool"
  for ops where
  dial: "ranges_over (fst st) order \<Longrightarrow> pool_step ops st (snd (DialMux ops newConn i now order st))"
| tick: "ranges_over (fst st) order \<Longrightarrow> pool_step ops st (clean_tick ops now order st)"
| finish: "ranges_over (fst st) order \<Longrightarrow> pool_step ops st (clean_done order st)"
| change: "sessions p i = Some sess \<Longrightarrow> smux_NumStreams ops c \<le> smux_NumStreams ops (client sess) \<Longrightarrow>
     pool_step ops (p, eff) (put_session (sess\<lparr>client := c\<rparr>) p, eff)"

inductive_cases pool_stepE: "pool_step ops st st'"

text \<open>
  What the pool relies on of smux: opening a stream adds at most one, and a fresh client has none.
\<close>

definition smux_laws :: "('c, 'k, 's) smux \<Rightarrow> bool" where
  "smux_laws ops \<longleftrightarrow>
     (\<forall>c. smux_NumStreams ops (snd (smux_OpenStream ops c)) \<le> Suc (smux_NumStreams ops c)) \<and>
     (\<forall>k c. smux_Client ops k = Inr c \<longrightarrow> smux_NumStreams ops c = 0)"

definition within_limit :: "('c, 'k, 's) smux \<Rightarrow> uint \<Rightarrow> ('c, 'k) MuxPool \<Rightarrow> bool" where
  "within_limit ops conc p \<longleftrightarrow>
     pool_wf p \<and> concurrency p = conc \<and>
     (\<forall>i sess. sessions p i = Some sess \<longrightarrow> int (smux_NumStreams ops (client sess)) \<le> sint conc)"

lemma within_limit_put:
  "within_limit ops conc p \<Longrightarrow> int (smux_NumStreams ops (client sess)) \<le> sint conc \<Longrightarrow>
     within_limit ops conc (put_session sess p)"
  by (simp add: within_limit_def)

lemma within_limit_delete: "within_limit ops conc p \<Longrightarrow> within_limit ops conc (delete_session i p)"
  by (simp add: within_limit_def)

lemma within_limit_prune: "within_limit ops conc p \<Longrightarrow> within_limit ops conc (prune ops is p)"
  by (auto simp: within_limit_def prune_wf sessions_prune)

lemma within_limit_without: "within_limit ops conc p \<Longrightarrow> within_limit ops conc (without P is p)"
  by (auto simp: within_limit_def pool_wf_def sessions_without)

lemma within_limit_open:
  assumes "smux_laws ops" and "within_limit ops conc p"
    and "int (smux_NumStreams ops (client sess)) < sint conc"
  shows "within_limit ops conc (fst (snd (openNewStream ops now sess (p, eff))))"
proof -
  have "int (smux_NumStreams ops (snd (smux_OpenStream ops (client sess)))) \<le> sint conc"
    using assms(1,3) unfolding smux_laws_def by (smt (verit) of_nat_Suc of_nat_mono)
  then show ?thesis using assms(2)
    by (auto simp: openNewStream_def Let_def intro!: within_limit_put within_limit_delete
        split: prod.splits sum.splits)
qed

lemma within_limit_dial:
  assumes laws: "smux_laws ops" and pos: "0 < sint conc" and order: "ranges_over p order"
    and inv: "within_limit ops conc p"
  shows "within_limit ops conc (fst (snd (DialMux ops newConn i now order (p, eff))))"
proof -
  have wf: "pool_wf p" and conc: "concurrency p = conc" and d: "distinct order"
    using inv order by (simp_all add: within_limit_def ranges_over_def)
  note sel = DialMux_selection [OF wf d, of ops newConn i now eff]
  show ?thesis
  proof (cases "dropWhile (\<lambda>j. \<not> usable ops p j) order")
    case Nil
    have "within_limit ops conc (fst (snd (dial_new ops newConn i now (q, eff))))"
      if q: "within_limit ops conc q" for q
    proof (cases newConn)
      case (Inr k)
      show ?thesis
      proof (cases "smux_Client ops k")
        case (Inr c)
        then have "smux_NumStreams ops c = 0" using laws by (simp add: smux_laws_def)
        then show ?thesis using \<open>newConn = Inr k\<close> Inr q pos
          by (auto simp: dial_new_def Let_def intro!: within_limit_open [OF laws] within_limit_put)
      qed (use \<open>newConn = Inr k\<close> q in \<open>simp add: dial_new_def\<close>)
    qed (use q in \<open>simp add: dial_new_def\<close>)
    then show ?thesis using sel Nil within_limit_prune [OF inv] by (simp del: dropWhile_eq_Nil_conv)
  next
    case (Cons j js)
    obtain sess where s: "sessions p j = Some sess" "has_room ops (concurrency p) (client sess)"
      using first_usable [OF Cons] by blast
    have "conc \<noteq> 0" using pos by auto
    then have "int (smux_NumStreams ops (client sess)) < sint conc"
      using s(2) by (simp add: has_room_def conc)
    then show ?thesis using sel Cons s(1) within_limit_open [OF laws within_limit_prune [OF inv]] by simp
  qed
qed

lemma within_limit_step:
  assumes "pool_step ops st st'" and laws: "smux_laws ops" and pos: "0 < sint conc"
    and inv: "within_limit ops conc (fst st)"
  shows "within_limit ops conc (fst st')"
  using assms(1)
proof (cases rule: pool_step.cases)
  case (dial order newConn i now)
  then show ?thesis using within_limit_dial [OF laws pos _ inv, of order newConn i now "snd st"] by simp
next
  case (tick order now)
  then show ?thesis using clean_tick_sweep [of order ops now "fst st" "snd st"] within_limit_without [OF inv]
    by (simp add: ranges_over_def)
next
  case (finish order)
  then show ?thesis using clean_done_sweep [of order "fst st" "snd st"] within_limit_without [OF inv]
    by (simp add: ranges_over_def)
next
  case (change p i sess c eff)
  have "int (smux_NumStreams ops (client sess)) \<le> sint conc"
    using inv change by (auto simp: within_limit_def)
  then show ?thesis using change inv by (auto intro!: within_limit_put)
qed

interpretation pool: step_invariant "pool_step ops"
  "\<lambda>st. smux_laws ops \<and> 0 < sint conc \<longrightarrow> within_limit ops conc (fst st)"
  for ops :: "('c, 'k, 's) smux" and conc
  by unfold_locales (auto intro: within_limit_step)

section \<open>Properties of a dial\<close>

text \<open>
  C18: A dial takes the first session in the order of the range that is open and has room, after
  dropping the closed ones it passed; only if there is none does it call the transporter's dial,
  and then every session left in the pool is open and full.
\<close>

theorem DialMux_selects:
  assumes "pool_wf p" and "ranges_over p order"
  shows "case dropWhile (\<lambda>j. \<not> usable ops p j) order of
      [] \<Rightarrow> DialMux ops newConn i now order (p, eff) = dial_new ops newConn i now (prune ops order p, eff) \<and>
        (\<forall>j sess. sessions (prune ops order p) j = Some sess \<longrightarrow>
           \<not> smux_IsClosed ops (client sess) \<and> \<not> has_room ops (concurrency p) (client sess))
    | j # _ \<Rightarrow> DialMux ops newConn i now order (p, eff) =
        openNewStream ops now (the (sessions p j)) (prune ops (takeWhile (\<lambda>j. \<not> usable ops p j) order) p, eff)"
proof (cases "dropWhile (\<lambda>j. \<not> usable ops p j) order")
  case Nil
  have "\<not> smux_IsClosed ops (client sess) \<and> \<not> has_room ops (concurrency p) (client sess)"
    if "sessions (prune ops order p) j = Some sess" for j sess
    using that Nil assms(2) usable_Some [of p j sess ops] by (auto simp: sessions_prune ranges_over_def)
  with Nil assms show ?thesis
    by (simp add: DialMux_selection ranges_over_def del: dropWhile_eq_Nil_conv)
next
  case (Cons j js)
  with assms show ?thesis by (simp add: DialMux_selection ranges_over_def)
qed

theorem DialMux_selects_witness:
  "DialMux demo_smux (Inr 14) 4 100 [1, 2, 3] (demo_pool, []) =
     openNewStream demo_smux 100 (the (sessions demo_pool 3)) (prune demo_smux [1, 2] demo_pool, [])"
proof -
  have "dropWhile (\<lambda>j. \<not> usable demo_smux demo_pool j) [1, 2, 3] = [3]"
    and "takeWhile (\<lambda>j. \<not> usable demo_smux demo_pool j) [1, 2, 3] = [1, 2]"
    by (simp_all add: usable_def demo_pool_def has_room_def)
  then show ?thesis using DialMux_selects [OF demo_pool_ok(1,2), of demo_smux "Inr 14" 4 100 "[]"] by simp
qed

text \<open>
  C29: What becomes of the connections in a dial whose random identifier is not in use. A session
  of the pool stays with its connection, or was already closed by smux, or its connection is closed
  by the pool. The connection of a new session is in the pool or closed. A connection is forgotten in one case: if
  the smux client cannot be created, the dial fails with that error, closes nothing and stores nothing.
\<close>

theorem DialMux_accounts:
  assumes wf: "pool_wf p" and order: "ranges_over p order" and fresh: "sessions p i = None"
    and result: "DialMux ops newConn i now order (p, []) = (r, p', eff')"
  shows "(\<forall>j sess. sessions p j = Some sess \<longrightarrow>
       map_option underlayConn (sessions p' j) = Some (underlayConn sess) \<or>
       smux_IsClosed ops (client sess) \<or> CloseConn (underlayConn sess) \<in> set eff') \<and>
    (\<forall>k. newConn = Inr k \<and> (\<forall>j. \<not> usable ops p j) \<longrightarrow>
       (case smux_Client ops k of
          Inr c \<Rightarrow> map_option underlayConn (sessions p' i) = Some k \<or> CloseConn k \<in> set eff'
        | Inl err \<Rightarrow> r = Inl err \<and> eff' = [] \<and> p' = prune ops order p))"
proof -
  have dist: "distinct order" using order by (simp add: ranges_over_def)
  show ?thesis
proof (cases "dropWhile (\<lambda>j. \<not> usable ops p j) order")
  case Nil
  then have d: "dial_new ops newConn i now (prune ops order p, []) = (r, p', eff')"
    using DialMux_selection [OF wf dist, of ops newConn i now "[]"] result by (simp del: dropWhile_eq_Nil_conv)
  have "map_option underlayConn (sessions p' j) = Some (underlayConn sess) \<or> smux_IsClosed ops (client sess)"
    if "sessions p j = Some sess" for j sess
    using that fresh dial_new_accounts(1) [OF d, of j] prune_accounts [OF that, of ops order] by (cases "j = i") auto
  moreover have "case smux_Client ops k of
        Inr c \<Rightarrow> map_option underlayConn (sessions p' i) = Some k \<or> CloseConn k \<in> set eff'
      | Inl err \<Rightarrow> r = Inl err \<and> eff' = [] \<and> p' = prune ops order p" if "newConn = Inr k" for k
    using dial_new_accounts(2) [OF d that] d that by (auto simp: dial_new_def split: sum.split)
  ultimately show ?thesis by blast
next
  case (Cons j js)
  then have o: "openNewStream ops now (the (sessions p j))
      (prune ops (takeWhile (\<lambda>j. \<not> usable ops p j) order) p, []) = (r, p', eff')"
    using DialMux_selection [OF wf dist, of ops newConn i now "[]"] result by simp
  obtain sess where s: "sessions p j = Some sess" and u: "usable ops p j"
    using dropWhile_Cons_mem [OF Cons] by (cases "sessions p j") (auto simp: usable_None)
  have m: "mid (the (sessions p j)) = j" using pool_wf_mid [OF wf s] s by simp
  have "map_option underlayConn (sessions p' k) = Some (underlayConn sess') \<or>
      smux_IsClosed ops (client sess') \<or> CloseConn (underlayConn sess') \<in> set eff'"
    if k: "sessions p k = Some sess'" for k sess'
    using openNewStream_accounts(1) [OF o, of k] openNewStream_accounts(2) [OF o] prune_accounts [OF k] k
    unfolding m by (cases "k = j") auto
  then show ?thesis using u by blast
qed
qed

theorem DialMux_accounts_witness:
  "\<exists>r p' eff'. DialMux demo_smux (Inr 14) 4 100 [1, 2, 3] (demo_pool, []) = (r, p', eff') \<and>
     (map_option underlayConn (sessions p' 2) = Some 12 \<or> CloseConn 12 \<in> set eff')"
proof -
  obtain r p' eff' where d: "DialMux demo_smux (Inr 14) 4 100 [1, 2, 3] (demo_pool, []) = (r, p', eff')"
    by (cases "DialMux demo_smux (Inr 14) 4 100 [1, 2, 3] (demo_pool, [])") auto
  have "sessions demo_pool 2 = Some \<lparr>mid = 2, client = (2, False), underlayConn = 12, lastActiveTime = 0\<rparr>"
    by (simp add: demo_pool_def)
  then have "map_option underlayConn (sessions p' 2) = Some 12 \<or> CloseConn 12 \<in> set eff'"
    using DialMux_accounts [OF demo_pool_ok d] by fastforce
  with d show ?thesis by blast
qed

text \<open>
  The random identifiers of two sessions may coincide. Then the dial that opens the second one
  overwrites the first in the map: the first session is open and in use, but neither is its
  connection in the pool any more nor has it been closed, so that no clean-up will ever close it.
\<close>

theorem DialMux_collision:
  assumes wf: "pool_wf p" and order: "ranges_over p order"
    and full: "\<forall>j. \<not> usable ops p j"
    and old: "sessions p i = Some sess" "\<not> smux_IsClosed ops (client sess)"
    and own: "\<forall>j sess'. sessions p j = Some sess' \<and> underlayConn sess' = underlayConn sess \<longrightarrow> j = i"
    and new: "newConn = Inr k" "smux_Client ops k = Inr c" "smux_OpenStream ops c = (Inr rwc, c')"
      "k \<noteq> underlayConn sess"
  shows "case DialMux ops newConn i now order (p, []) of
    (r, p', eff') \<Rightarrow> r = Inr rwc \<and> eff' = [] \<and>
      (\<forall>j sess'. sessions p' j = Some sess' \<longrightarrow> underlayConn sess' \<noteq> underlayConn sess) \<and>
      (\<forall>order'. CloseConn (underlayConn sess) \<notin> set (snd (clean_done order' (p', eff'))))"
proof -
  have d: "distinct order" using order by (simp add: ranges_over_def)
  have "dropWhile (\<lambda>j. \<not> usable ops p j) order = []" using full by simp
  then have r: "DialMux ops newConn i now order (p, []) = dial_new ops newConn i now (prune ops order p, [])"
    using DialMux_selection [OF wf d, of ops newConn i now "[]"] by (simp del: dropWhile_eq_Nil_conv)
  define q where "q = put_session \<lparr>mid = i, client = c', underlayConn = k, lastActiveTime = now\<rparr> (prune ops order p)"
  have q: "underlayConn sess' \<noteq> underlayConn sess" if "sessions q j = Some sess'" for j sess'
    using that own new(4) by (auto simp: q_def sessions_prune split: if_splits)
  have n: "dial_new ops newConn i now (prune ops order p, []) = (Inr rwc, q, [])"
    using new by (simp add: dial_new_def openNewStream_def q_def put_session_def)
  have "CloseConn (underlayConn sess) \<notin> set (snd (clean_done order' (q, [])))" for order'
    using clean_done_closes [of "underlayConn sess" order' "(q, [])"] q by auto
  then show ?thesis using q by (simp add: r n)
qed

text \<open>
  In every state a pool reaches from its creation by dials, ticks and changes of its sessions,
  no session carries more streams than the option \<open>mux\<close> allows, for a limit between 1 and the
  largest signed number.
\<close>

theorem pool_within_limit:
  assumes "smux_laws ops" and "0 < Mux options" and "Mux options < 2 ^ 63"
    and "(pool_step ops)\<^sup>*\<^sup>* (NewMuxPool options, []) (p, eff)"
    and "sessions p i = Some sess"
  shows "smux_NumStreams ops (client sess) \<le> unat (Mux options)"
proof -
  have m: "unat (Mux options) < 2 ^ 63" and z: "0 < unat (Mux options)"
    using assms(2,3) by (simp_all add: word_less_nat_alt)
  note s = sint_low [OF m]
  have "within_limit ops (Mux options) (NewMuxPool options)"
    by (simp add: within_limit_def pool_wf_new, simp add: NewMuxPool_def)
  then have "within_limit ops (Mux options) p"
    using pool.reachable [OF assms(4), of "Mux options"] assms(1) z unfolding s of_nat_0_less_iff by simp
  then have "int (smux_NumStreams ops (client sess)) \<le> int (unat (Mux options))"
    using assms(5) unfolding within_limit_def s by blast
  then show ?thesis unfolding of_nat_le_iff .
qed

theorem pool_within_limit_example:
  "\<exists>p eff sess. (pool_step demo_smux)\<^sup>*\<^sup>* (NewMuxPool (flag_defaults\<lparr>Mux := 2\<rparr>), []) (p, eff) \<and>
     sessions p 7 = Some sess \<and> smux_NumStreams demo_smux (client sess) = 1 \<and>
     smux_NumStreams demo_smux (client sess) \<le> unat (2 :: uint)"
proof -
  let ?o = "flag_defaults\<lparr>Mux := 2\<rparr>"
  let ?st = "snd (DialMux demo_smux (Inr 14) 7 100 [] (NewMuxPool ?o, []))"
  let ?sess = "\<lparr>mid = 7, client = (1::nat, False), underlayConn = 14::nat, lastActiveTime = 100\<rparr>"
  have d: "sessions (fst ?st) 7 = Some ?sess"
    by (simp add: DialMux_def dial_new_def openNewStream_def NewMuxPool_def)
  have "ranges_over (NewMuxPool ?o :: (nat \<times> bool, nat) MuxPool) []"
    by (simp add: ranges_over_def NewMuxPool_def)
  then have "pool_step demo_smux (NewMuxPool ?o, []) ?st" by (intro pool_step.dial) simp
  then have r: "(pool_step demo_smux)\<^sup>*\<^sup>* (NewMuxPool ?o, []) (fst ?st, snd ?st)" by simp
  have l: "smux_laws demo_smux" by (auto simp: smux_laws_def demo_smux_def split: prod.splits)
  have "smux_NumStreams demo_smux (client ?sess) \<le> unat (Mux ?o)"
    by (rule pool_within_limit [OF l _ _ r d]) simp_all
  then have le: "smux_NumStreams demo_smux (client ?sess) \<le> unat (2 :: uint)" by simp
  have "smux_NumStreams demo_smux (client ?sess) = 1" by (simp add: demo_smux_def)
  with r d le show ?thesis by blast
qed

theorem DialMux_collision_witness:
  "\<exists>p. pool_wf p \<and> sessions p 9 = Some \<lparr>mid = 9, client = (1, False), underlayConn = 11, lastActiveTime = 0\<rparr> \<and>
     (case DialMux demo_smux (Inr 12) 9 100 [9] (p, []) of
       (r, p', eff') \<Rightarrow> r = Inr 0 \<and> eff' = [] \<and>
         (\<forall>j sess'. sessions p' j = Some sess' \<longrightarrow> underlayConn sess' \<noteq> 11))"
proof -
  let ?sess = "\<lparr>mid = 9, client = (1::nat, False), underlayConn = 11::nat, lastActiveTime = 0\<rparr>"
  let ?p = "\<lparr>concurrency = 1, timeout = 30, sessions = [9 \<mapsto> ?sess]\<rparr>"
  have wf: "pool_wf ?p" and o: "ranges_over ?p [9]" and f: "\<forall>j. \<not> usable demo_smux ?p j"
    by (simp_all add: pool_wf_def ranges_over_def usable_def has_room_def)
  have "case DialMux demo_smux (Inr 12) 9 100 [9] (?p, []) of
    (r, p', eff') \<Rightarrow> r = Inr 0 \<and> eff' = [] \<and>
      (\<forall>j sess'. sessions p' j = Some sess' \<longrightarrow> underlayConn sess' \<noteq> underlayConn ?sess) \<and>
      (\<forall>order'. CloseConn (underlayConn ?sess) \<notin> set (snd (clean_done order' (p', eff'))))"
    by (rule DialMux_collision [OF wf o f, where c = "(0, False)" and k = 12 and c' = "(1, False)"]) auto
  with wf show ?thesis by (intro exI [of _ ?p]) (auto split: prod.splits)
qed

text \<open>
  The option is unsigned but compared as a signed number: with zero any open session is used
  whatever it carries, and from \<open>2\<^sup>6\<^sup>3\<close> on no session is ever used again and every dial opens a
  connection.
\<close>

theorem extreme_concurrency:
  shows "usable ops p j \<longleftrightarrow> (\<exists>sess. sessions p j = Some sess \<and> \<not> smux_IsClosed ops (client sess) \<and>
    (concurrency p = 0 \<or> concurrency p < 2 ^ 63 \<and> smux_NumStreams ops (client sess) < unat (concurrency p)))"
proof -
  have "has_room ops (concurrency p) c \<longleftrightarrow>
      concurrency p = 0 \<or> concurrency p < 2 ^ 63 \<and> smux_NumStreams ops c < unat (concurrency p)" for c
  proof (cases "concurrency p < 2 ^ 63")
    case True
    then have m: "unat (concurrency p) < 2 ^ 63" by (simp add: word_less_nat_alt)
    have "concurrency p \<le> 0 \<longleftrightarrow> concurrency p = 0" by simp
    with True show ?thesis unfolding has_room_def sint_low [OF m] of_nat_less_iff by blast
  next
    case False
    then have "2 ^ 63 \<le> unat (concurrency p)" by (simp add: word_less_nat_alt)
    then have "sint (concurrency p) < 0" by (rule sint_high)
    then have "\<not> int (smux_NumStreams ops c) < sint (concurrency p)" by linarith
    moreover have "concurrency p \<le> 0 \<longleftrightarrow> concurrency p = 0" by simp
    ultimately show ?thesis using False unfolding has_room_def by auto
  qed
  then show ?thesis by (cases "sessions p j") (simp_all add: usable_None usable_Some)
qed

section \<open>Properties of the clean-up\<close>

lemma ranges_over_iff: "ranges_over p order \<Longrightarrow> i \<in> set order \<longleftrightarrow> (\<exists>sess. sessions p i = Some sess)"
  by (auto simp: ranges_over_def)

lemma sessions_without_all:
  "ranges_over p order \<Longrightarrow> sessions (without P order p) i = (if selects P p i then None else sessions p i)"
  using ranges_over_iff [of p order i] by (auto simp: without_def selects_def split: option.splits)

lemma clean_done_all:
  assumes "ranges_over p order"
  shows "sessions (fst (clean_done order (p, eff))) = Map.empty"
    and "snd (clean_done order (p, eff)) = eff @ concat (map (closing p) order)"
proof -
  have d: "distinct order" using assms by (simp add: ranges_over_def)
  have f: "filter (selects (\<lambda>_. True) p) order = order"
    using ranges_over_iff [OF assms] by (auto simp: filter_id_conv selects_def)
  show "sessions (fst (clean_done order (p, eff))) = Map.empty"
    by (rule ext) (simp add: clean_done_sweep [OF d] sessions_without_all [OF assms] selects_def split: option.split)
  show "snd (clean_done order (p, eff)) = eff @ concat (map (closing p) order)"
    by (simp add: clean_done_sweep [OF d] f)
qed

text \<open>
  C28: A tick removes from the pool exactly the sessions that smux has closed and those that carry no
  stream and have been idle for longer than the timeout, closes client and connection of each of
  them and of nothing else, and leaves every other session as it is; the end of the context does
  the same to all sessions, so the pool is empty afterwards.
\<close>

theorem clean_exact:
  assumes "ranges_over p order"
  shows "(case clean_tick ops now order (p, eff) of
      (p', eff') \<Rightarrow>
        (\<forall>i. sessions p' i = (if selects (expired ops now (timeout p)) p i then None else sessions p i)) \<and>
        eff' = eff @ concat (map (closing p) (filter (selects (expired ops now (timeout p)) p) order))) \<and>
    (case clean_done order (p, eff) of
      (p', eff') \<Rightarrow> sessions p' = Map.empty \<and> eff' = eff @ concat (map (closing p) order))"
proof -
  have d: "distinct order" using assms by (simp add: ranges_over_def)
  have e: "clean_done order (p, eff) = (fst (clean_done order (p, eff)), snd (clean_done order (p, eff)))" by simp
  show ?thesis
    by (subst e) (simp add: clean_tick_sweep [OF d] sessions_without_all [OF assms] clean_done_all [OF assms])
qed

theorem clean_exact_witness:
  "sessions (fst (clean_tick demo_smux 100 [1, 2, 3] (demo_pool, []))) 3 = None \<and>
   sessions (fst (clean_tick demo_smux 100 [1, 2, 3] (demo_pool, []))) 2 = sessions demo_pool 2 \<and>
   snd (clean_done [1, 2, 3] (demo_pool, [])) = concat (map (closing demo_pool) [1, 2, 3])"
proof -
  obtain p1 e1 where 1: "clean_tick demo_smux 100 [1, 2, 3] (demo_pool, []) = (p1, e1)"
    by (cases "clean_tick demo_smux 100 [1, 2, 3] (demo_pool, [])") auto
  obtain p2 e2 where 2: "clean_done [1, 2, 3] (demo_pool, []) = (p2, e2)"
    by (cases "clean_done [1, 2, 3] (demo_pool, [])") auto
  show ?thesis
    using clean_exact [OF demo_pool_ok(2), of demo_smux 100 "[]"] unfolding 1 2
    by (simp add: selects_def expired_def demo_pool_def)
qed

text \<open>
  The clean-up loop runs until the context is done, whatever ticks come before, and after its
  last sweep no session is left; as long as the context lives it never returns.
\<close>

theorem cleanLoop_ends:
  assumes "\<forall>order. ContextDone order \<notin> set ticks"
    and "ranges_over (fst (snd (cleanLoop ops ticks st))) order"
  shows "\<not> fst (cleanLoop ops ticks st) \<and>
    (case cleanLoop ops (ticks @ ContextDone order # evs) st of
      (returned, p, eff) \<Rightarrow> returned \<and> sessions p = Map.empty)"
proof -
  have "\<not> fst (cleanLoop ops ticks st) \<and>
      cleanLoop ops (ticks @ ContextDone order # evs) st = (True, clean_done order (snd (cleanLoop ops ticks st)))"
    using assms(1) by (induction ops ticks st rule: cleanLoop.induct) auto
  then show ?thesis
    using clean_done_all(1) [OF assms(2), of "snd (snd (cleanLoop ops ticks st))"] by (auto split: prod.splits)
qed

theorem cleanLoop_ends_witness:
  "case cleanLoop demo_smux ([TimerFires 5 [1, 2, 3]] @ ContextDone [2, 3] # []) (demo_pool, []) of
     (returned, p, eff) \<Rightarrow> returned \<and> sessions p = Map.empty"
proof -
  have "ranges_over (fst (snd (cleanLoop demo_smux [TimerFires 5 [1, 2, 3]] (demo_pool, [])))) [2, 3]"
    by (auto simp: ranges_over_def demo_pool_def drop_session_def split: if_splits)
  then show ?thesis using cleanLoop_ends [of "[TimerFires 5 [1, 2, 3]]" demo_smux "(demo_pool, [])" "[2, 3]" "[]"]
    by auto
qed

end
