(* ===== verification/Registry.thy ===== *)
theory Registry
  imports Args
begin

text \<open>
  Package \<open>registry\<close> (src/registry/registry.go): the tables of listener and transporter
  constructors by mode name and the lists of socket controllers, and the registrations that the
  \<open>init\<close> functions of the packages make. The two global tables and the two global lists are the
  fields of one record. A table is read through a locale, since both have the same contract.
\<close>

section \<open>The tables\<close>

record ('l, 't, 'c) registry =
  listenerRegistry :: "bytes \<rightharpoonup> 'l"
  transporterRegistry :: "bytes \<rightharpoonup> 't"
  dialControllers :: "'c list"
  listenControllers :: "'c list"

definition empty_registry :: "('l, 't, 'c) registry" where
  "empty_registry =
     \<lparr>listenerRegistry = Map.empty, transporterRegistry = Map.empty,
      dialControllers = [], listenControllers = []\<rparr>"

definition RegisterListener :: "bytes \<Rightarrow> 'l \<Rightarrow> ('l, 't, 'c) registry \<Rightarrow> ('l, 't, 'c) registry" where
  "RegisterListener name l r = r\<lparr>listenerRegistry := (listenerRegistry r)(name \<mapsto> l)\<rparr>"

definition RegisterTransporter :: "bytes \<Rightarrow> 't \<Rightarrow> ('l, 't, 'c) registry \<Rightarrow> ('l, 't, 'c) registry" where
  "RegisterTransporter name t r = r\<lparr>transporterRegistry := (transporterRegistry r)(name \<mapsto> t)\<rparr>"

definition GetListenerCreator :: "bytes \<Rightarrow> ('l, 't, 'c) registry \<Rightarrow> 'l result" where
  "GetListenerCreator name r =
     (case listenerRegistry r name of None \<Rightarrow> Inl ListenerNotFound | Some l \<Rightarrow> Inr l)"

definition GetTransporterCreator :: "bytes \<Rightarrow> ('l, 't, 'c) registry \<Rightarrow> 't result" where
  "GetTransporterCreator name r =
     (case transporterRegistry r name of None \<Rightarrow> Inl TransporterNotFound | Some t \<Rightarrow> Inr t)"

text \<open>A controller is an optional value: \<open>None\<close> is the nil function, which is refused.\<close>

definition RegisterDialController ::
  "'c option \<Rightarrow> ('l, 't, 'c) registry \<Rightarrow> go_error option \<times> ('l, 't, 'c) registry" where
  "RegisterDialController ctl r =
     (case ctl of None \<Rightarrow> (Some NilController, r)
                | Some f \<Rightarrow> (None, r\<lparr>dialControllers := dialControllers r @ [f]\<rparr>))"

definition RegisterListenController ::
  "'c option \<Rightarrow> ('l, 't, 'c) registry \<Rightarrow> go_error option \<times> ('l, 't, 'c) registry" where
  "RegisterListenController ctl r =
     (case ctl of None \<Rightarrow> (Some NilController, r)
                | Some f \<Rightarrow> (None, r\<lparr>listenControllers := listenControllers r @ [f]\<rparr>))"

section \<open>The contract of a table\<close>

locale named_table =
  fixes reg :: "bytes \<Rightarrow> 'v \<Rightarrow> 's \<Rightarrow> 's"
    and get :: "bytes \<Rightarrow> 's \<Rightarrow> 'v result"
  assumes get_same: "get n (reg n v s) = Inr v"
    and get_other: "m \<noteq> n \<Longrightarrow> get m (reg n v s) = get m s"
begin

definition reg_all :: "(bytes \<times> 'v) list \<Rightarrow> 's \<Rightarrow> 's" where
  "reg_all nvs s = foldl (\<lambda>s (n, v). reg n v s) s nvs"

text \<open>After a list of registrations the last one for a name counts.\<close>

lemma get_reg_all:
  "get m (reg_all nvs s) = (case map_of (rev nvs) m of None \<Rightarrow> get m s | Some v \<Rightarrow> Inr v)"
proof (induction nvs arbitrary: s)
  case Nil
  show ?case by (simp add: reg_all_def)
next
  case (Cons nv nvs)
  obtain n v where [simp]: "nv = (n, v)" by (cases nv)
  have "reg_all (nv # nvs) s = reg_all nvs (reg n v s)" by (simp add: reg_all_def)
  then show ?case
    using Cons.IH [of "reg n v s"]
    by (auto simp: map_add_def get_same get_other split: option.splits)
qed

lemma get_reg_all_distinct:
  assumes "distinct (map fst nvs)"
  shows "get m (reg_all nvs s) = (case map_of nvs m of None \<Rightarrow> get m s | Some v \<Rightarrow> Inr v)"
proof -
  have "map_of (rev nvs) = map_of nvs"
    using assms by (intro map_of_inject_set [THEN iffD2]) (simp_all add: rev_map [symmetric])
  then show ?thesis by (simp add: get_reg_all)
qed

end

interpretation listeners: named_table RegisterListener GetListenerCreator
  by unfold_locales (auto simp: RegisterListener_def GetListenerCreator_def)

interpretation transporters: named_table RegisterTransporter GetTransporterCreator
  by unfold_locales (auto simp: RegisterTransporter_def GetTransporterCreator_def)

lemma get_across [simp]:
  "GetListenerCreator m (RegisterTransporter n t r) = GetListenerCreator m r"
  "GetTransporterCreator m (RegisterListener n l r) = GetTransporterCreator m r"
  by (simp_all add: GetListenerCreator_def GetTransporterCreator_def
      RegisterListener_def RegisterTransporter_def)

section \<open>Constructors and the init functions\<close>

text \<open>The constructors of the packages \<open>proxy\<close>, \<open>client\<close> and \<open>server\<close>, named by the Go function.\<close>

datatype ListenerCreator =
    Ctor_NewTCPListener | Ctor_NewTLSListener | Ctor_NewMTLSListener | Ctor_NewWSListener
  | Ctor_NewWSSListener | Ctor_NewMWSListener | Ctor_NewMWSSListener | Ctor_NewH2Listener
  | Ctor_NewQUICListener | Ctor_NewGunListener

datatype TransporterCreator =
    Ctor_NewTCPTransporter | Ctor_NewTLSTransporter | Ctor_NewMTLSTransporter | Ctor_NewWSTransporter
  | Ctor_NewWSSTransporter | Ctor_NewMWSTransporter | Ctor_NewMWSSTransporter | Ctor_NewH2Transporter
  | Ctor_NewQUICTransporter | Ctor_NewGunTransporter

type_synonym 'c plugin_registry = "(ListenerCreator, TransporterCreator, 'c) registry"

definition init_proxy :: "'c plugin_registry \<Rightarrow> 'c plugin_registry" where
  "init_proxy r = RegisterTransporter ''tcp'' Ctor_NewTCPTransporter (RegisterListener ''tcp'' Ctor_NewTCPListener r)"

definition init_client_gun :: "'c plugin_registry \<Rightarrow> 'c plugin_registry" where
  "init_client_gun r = RegisterTransporter ''gun'' Ctor_NewGunTransporter (RegisterTransporter ''grpc'' Ctor_NewGunTransporter r)"

definition init_client_h2 :: "'c plugin_registry \<Rightarrow> 'c plugin_registry" where
  "init_client_h2 r = RegisterTransporter ''h2'' Ctor_NewH2Transporter r"

definition init_client_mtls :: "'c plugin_registry \<Rightarrow> 'c plugin_registry" where
  "init_client_mtls r = RegisterTransporter ''mtls'' Ctor_NewMTLSTransporter r"

definition init_client_mws :: "'c plugin_registry \<Rightarrow> 'c plugin_registry" where
  "init_client_mws r = RegisterTransporter ''mwss'' Ctor_NewMWSSTransporter (RegisterTransporter ''mws'' Ctor_NewMWSTransporter r)"

definition init_client_quic :: "'c plugin_registry \<Rightarrow> 'c plugin_registry" where
  "init_client_quic r = RegisterTransporter ''quic'' Ctor_NewQUICTransporter r"

definition init_client_tls :: "'c plugin_registry \<Rightarrow> 'c plugin_registry" where
  "init_client_tls r = RegisterTransporter ''tls'' Ctor_NewTLSTransporter r"

definition init_client_ws :: "'c plugin_registry \<Rightarrow> 'c plugin_registry" where
  "init_client_ws r = RegisterTransporter ''wss'' Ctor_NewWSSTransporter (RegisterTransporter ''ws'' Ctor_NewWSTransporter r)"

definition init_server_gun :: "'c plugin_registry \<Rightarrow> 'c plugin_registry" where
  "init_server_gun r = RegisterListener ''gun'' Ctor_NewGunListener (RegisterListener ''grpc'' Ctor_NewGunListener r)"

definition init_server_h2 :: "'c plugin_registry \<Rightarrow> 'c plugin_registry" where
  "init_server_h2 r = RegisterListener ''h2'' Ctor_NewH2Listener r"

definition init_server_mtls :: "'c plugin_registry \<Rightarrow> 'c plugin_registry" where
  "init_server_mtls r = RegisterListener ''mtls'' Ctor_NewMTLSListener r"

definition init_server_mws :: "'c plugin_registry \<Rightarrow> 'c plugin_registry" where
  "init_server_mws r = RegisterListener ''mwss'' Ctor_NewMWSSListener (RegisterListener ''mws'' Ctor_NewMWSListener r)"

definition init_server_quic :: "'c plugin_registry \<Rightarrow> 'c plugin_registry" where
  "init_server_quic r = RegisterListener ''quic'' Ctor_NewQUICListener r"

definition init_server_tls :: "'c plugin_registry \<Rightarrow> 'c plugin_registry" where
  "init_server_tls r = RegisterListener ''tls'' Ctor_NewTLSListener r"

definition init_server_ws :: "'c plugin_registry \<Rightarrow> 'c plugin_registry" where
  "init_server_ws r = RegisterListener ''wss'' Ctor_NewWSSListener (RegisterListener ''ws'' Ctor_NewWSListener r)"

text \<open>
  The blank imports of src/main.go initialise \<open>proxy\<close> (a dependency), then \<open>client\<close> and \<open>server\<close>,
  the files of a package in the order of their names.
\<close>

definition init_packages :: "'c plugin_registry \<Rightarrow> 'c plugin_registry" where
  "init_packages r =
     init_server_ws (init_server_tls (init_server_quic (init_server_mws (init_server_mtls
       (init_server_h2 (init_server_gun (init_client_ws (init_client_tls (init_client_quic
         (init_client_mws (init_client_mtls (init_client_h2 (init_client_gun (init_proxy r))))))))))))))"

definition listener_table :: "(bytes \<times> ListenerCreator) list" where
  "listener_table =
     [(''tcp'', Ctor_NewTCPListener), (''grpc'', Ctor_NewGunListener), (''gun'', Ctor_NewGunListener),
      (''h2'', Ctor_NewH2Listener), (''mtls'', Ctor_NewMTLSListener), (''mws'', Ctor_NewMWSListener),
      (''mwss'', Ctor_NewMWSSListener), (''quic'', Ctor_NewQUICListener), (''tls'', Ctor_NewTLSListener),
      (''ws'', Ctor_NewWSListener), (''wss'', Ctor_NewWSSListener)]"

definition transporter_table :: "(bytes \<times> TransporterCreator) list" where
  "transporter_table =
     [(''tcp'', Ctor_NewTCPTransporter), (''grpc'', Ctor_NewGunTransporter), (''gun'', Ctor_NewGunTransporter),
      (''h2'', Ctor_NewH2Transporter), (''mtls'', Ctor_NewMTLSTransporter), (''mws'', Ctor_NewMWSTransporter),
      (''mwss'', Ctor_NewMWSSTransporter), (''quic'', Ctor_NewQUICTransporter), (''tls'', Ctor_NewTLSTransporter),
      (''ws'', Ctor_NewWSTransporter), (''wss'', Ctor_NewWSSTransporter)]"

lemmas init_defs = init_packages_def init_proxy_def
  init_client_gun_def init_client_h2_def init_client_mtls_def init_client_mws_def
  init_client_quic_def init_client_tls_def init_client_ws_def
  init_server_gun_def init_server_h2_def init_server_mtls_def init_server_mws_def
  init_server_quic_def init_server_tls_def init_server_ws_def

lemma listeners_after_init:
  "GetListenerCreator m (init_packages r) = GetListenerCreator m (listeners.reg_all listener_table r)"
  by (simp add: GetListenerCreator_def init_defs listener_table_def listeners.reg_all_def
      RegisterListener_def RegisterTransporter_def)

lemma transporters_after_init:
  "GetTransporterCreator m (init_packages r) = GetTransporterCreator m (transporters.reg_all transporter_table r)"
  by (simp add: GetTransporterCreator_def init_defs transporter_table_def transporters.reg_all_def
      RegisterListener_def RegisterTransporter_def)

lemma get_empty [simp]:
  "GetListenerCreator m empty_registry = Inl ListenerNotFound"
  "GetTransporterCreator m empty_registry = Inl TransporterNotFound"
  by (simp_all add: GetListenerCreator_def GetTransporterCreator_def empty_registry_def)

lemma listener_lookup:
  "GetListenerCreator m (init_packages empty_registry) =
     (case map_of listener_table m of None \<Rightarrow> Inl ListenerNotFound | Some l \<Rightarrow> Inr l)"
proof -
  have "distinct (map fst listener_table)" by (simp add: listener_table_def)
  then show ?thesis by (simp add: listeners_after_init listeners.get_reg_all_distinct split: option.split)
qed

lemma transporter_lookup:
  "GetTransporterCreator m (init_packages empty_registry) =
     (case map_of transporter_table m of None \<Rightarrow> Inl TransporterNotFound | Some t \<Rightarrow> Inr t)"
proof -
  have "distinct (map fst transporter_table)" by (simp add: transporter_table_def)
  then show ?thesis by (simp add: transporters_after_init transporters.get_reg_all_distinct split: option.split)
qed

section \<open>Properties\<close>

text \<open>
  After the package initialisation the two tables hold exactly the eleven modes: a mode is
  found in the listener table if and only if it is found in the transporter table, each name gives
  the constructor of its transport, and any other name is answered with the not-found error.
\<close>

theorem registered_modes:
  "GetListenerCreator m (init_packages empty_registry) =
     (case map_of listener_table m of None \<Rightarrow> Inl ListenerNotFound | Some l \<Rightarrow> Inr l) \<and>
   GetTransporterCreator m (init_packages empty_registry) =
     (case map_of transporter_table m of None \<Rightarrow> Inl TransporterNotFound | Some t \<Rightarrow> Inr t) \<and>
   (map_of listener_table m = None \<longleftrightarrow> map_of transporter_table m = None)"
  by (simp add: listener_lookup transporter_lookup) (simp add: listener_table_def transporter_table_def)

end
