(* ===== verification/AncilFd.thy ===== *)
theory AncilFd
  imports GoPrelude "HOL-Library.Word"
begin

text \<open>
  The C side of src/hook/vpn_android.go: the control message that hands a file descriptor to another
  process. Objects of C are byte sequences with uninitialised bytes, a store or a load outside an
  object is undefined (None), and the layout of \<open>struct cmsghdr\<close> depends on the size \<open>p\<close> of a
  \<open>size_t\<close>: 4 on the 32-bit and 8 on the 64-bit ABIs of Android, all of them little-endian.
\<close>

section \<open>Memory\<close>

type_synonym byte = "8 word"
type_synonym c_int = "32 word"

text \<open>The bytes of one object; None is a byte never written.\<close>

type_synonym c_object = "byte option list"

definition uninit :: "nat \<Rightarrow> c_object" where
  "uninit n = replicate n None"

definition store :: "nat \<Rightarrow> byte list \<Rightarrow> c_object \<Rightarrow> c_object option" where
  "store off bs m =
     (if off + length bs \<le> length m then Some (take off m @ map Some bs @ drop (off + length bs) m)
      else None)"

definition load :: "nat \<Rightarrow> nat \<Rightarrow> c_object \<Rightarrow> byte list option" where
  "load off n m =
     (if off + n \<le> length m \<and> None \<notin> set (take n (drop off m)) then Some (map the (take n (drop off m)))
      else None)"

fun le_bytes :: "nat \<Rightarrow> nat \<Rightarrow> byte list" where
  "le_bytes 0 x = []"
| "le_bytes (Suc w) x = word_of_nat x # le_bytes w (x div 256)"

fun le_val :: "byte list \<Rightarrow> nat" where
  "le_val [] = 0"
| "le_val (b # bs) = unat b + 256 * le_val bs"

lemma length_le_bytes [simp]: "length (le_bytes w x) = w"
  by (induction w arbitrary: x) auto

lemma le_val_le_bytes: "x < 256 ^ w \<Longrightarrow> le_val (le_bytes w x) = x"
proof (induction w arbitrary: x)
  case (Suc w)
  have "x div 256 < 256 ^ w" using Suc.prems by (simp add: less_mult_imp_div_less mult.commute)
  then show ?case using Suc.IH [of "x div 256"] by (simp add: unat_of_nat)
qed simp

lemma length_store: "store off bs m = Some m' \<Longrightarrow> length m' = length m"
  by (auto simp: store_def split: if_splits)

lemma store_defined: "off + length bs \<le> length m \<Longrightarrow> \<exists>m'. store off bs m = Some m'"
  by (simp add: store_def)

lemma load_store_same: "store off bs m = Some m' \<Longrightarrow> load off (length bs) m' = Some bs"
  by (auto simp: store_def load_def comp_def split: if_splits)

lemma load_take: "o1 + n \<le> off \<Longrightarrow> off \<le> length m \<Longrightarrow> load o1 n (take off m @ ms) = load o1 n m"
  by (simp add: load_def drop_take)

lemma load_store_below: "store off bs m = Some m' \<Longrightarrow> o1 + n \<le> off \<Longrightarrow> load o1 n m' = load o1 n m"
  by (auto simp: store_def load_take split: if_splits)

lemma load_store_above:
  "store off bs m = Some m' \<Longrightarrow> off + length bs \<le> o1 \<Longrightarrow> load o1 n m' = load o1 n m"
  by (auto simp: store_def load_def split: if_splits)

section \<open>Control messages\<close>

definition SOL_SOCKET :: nat where "SOL_SOCKET = 1"
definition SCM_RIGHTS :: nat where "SCM_RIGHTS = 1"

text \<open>
  \<open>struct cmsghdr\<close>: the length (a \<open>size_t\<close>) at offset 0, the level and the type (two ints) after it.
  \<open>CMSG_DATA\<close> is the header's size rounded up to a multiple of \<open>p\<close>.
\<close>

definition sizeof_int :: nat where "sizeof_int = 4"
definition sizeof_cmsghdr :: "nat \<Rightarrow> nat" where "sizeof_cmsghdr p = p + 2 * sizeof_int"
definition CMSG_ALIGN :: "nat \<Rightarrow> nat \<Rightarrow> nat" where "CMSG_ALIGN p n = (n + p - 1) div p * p"
definition CMSG_DATA :: "nat \<Rightarrow> nat" where "CMSG_DATA p = CMSG_ALIGN p (sizeof_cmsghdr p)"

text \<open>The structure \<open>ANCIL_FD_BUFFER(n)\<close>: a header and \<open>n\<close> ints, padded to the header's alignment.\<close>

definition ANCIL_FD_BUFFER :: "nat \<Rightarrow> nat \<Rightarrow> c_object" where
  "ANCIL_FD_BUFFER p n = uninit (CMSG_ALIGN p (sizeof_cmsghdr p + sizeof_int * n))"

text \<open>The fields of \<open>struct msghdr\<close> the code sets; the name is always null.\<close>

record msghdr =
  msg_iov :: "byte list list"
  msg_control :: c_object
  msg_controllen :: nat
  msg_flags :: nat

text \<open>The loop over the descriptors. Reading past them is undefined, and so is \<open>i++\<close> at the largest int.\<close>

function copy_fds :: "nat \<Rightarrow> c_int list \<Rightarrow> nat \<Rightarrow> nat \<Rightarrow> c_object \<Rightarrow> c_object option" where
  "copy_fds p fds n i buffer =
     (if i < n then
        (if length fds \<le> i \<or> 2 ^ 31 - 1 \<le> i then None
         else case store (CMSG_DATA p + sizeof_int * i) (le_bytes sizeof_int (unat (fds ! i))) buffer of
             None \<Rightarrow> None
           | Some buffer \<Rightarrow> copy_fds p fds n (Suc i) buffer)
      else Some buffer)"
  by auto
termination by (relation "measure (\<lambda>(p, fds, n, i, buffer). n - i)") auto

declare copy_fds.simps [simp del]

text \<open>
  The message \<open>ancil_send_fds_with_buffer\<close> fills in. The length wraps at the width of \<open>size_t\<close>;
  \<open>CMSG_FIRSTHDR\<close> is null for a length below the header's, and writing through it is undefined.
\<close>

definition ancil_message :: "nat \<Rightarrow> c_int list \<Rightarrow> 32 word \<Rightarrow> c_object \<Rightarrow> msghdr option" where
  "ancil_message p fds n_fds buffer =
     (let controllen = (sizeof_cmsghdr p + sizeof_int * unat n_fds) mod 2 ^ (8 * p) in
      if controllen < sizeof_cmsghdr p then None
      else case store 0 (le_bytes p controllen) buffer of None \<Rightarrow> None | Some b1 \<Rightarrow>
        (case store p (le_bytes sizeof_int SOL_SOCKET) b1 of None \<Rightarrow> None | Some b2 \<Rightarrow>
        (case store (p + sizeof_int) (le_bytes sizeof_int SCM_RIGHTS) b2 of None \<Rightarrow> None | Some b3 \<Rightarrow>
        (case copy_fds p fds (unat n_fds) 0 b3 of None \<Rightarrow> None | Some b4 \<Rightarrow>
           Some \<lparr>msg_iov = [[0x21]], msg_control = b4, msg_controllen = controllen, msg_flags = 0\<rparr>))))"

section \<open>What the receiver of a message gets\<close>

text \<open>
  The descriptors a message passes, as unix(7) and cmsg(3) describe it: a header inside the control
  data, of level \<open>SOL_SOCKET\<close> and type \<open>SCM_RIGHTS\<close>, followed by as many ints as its length covers. None
  is a message the system rejects or one with bytes that were never written.
\<close>

fun load_ints :: "nat \<Rightarrow> nat \<Rightarrow> c_object \<Rightarrow> c_int list option" where
  "load_ints off 0 m = Some []"
| "load_ints off (Suc k) m =
     (case load off sizeof_int m of
        None \<Rightarrow> None
      | Some bs \<Rightarrow> map_option ((#) (word_of_nat (le_val bs))) (load_ints (off + sizeof_int) k m))"

definition passed_fds :: "nat \<Rightarrow> msghdr \<Rightarrow> c_int list option" where
  "passed_fds p msg =
     (case (load 0 p (msg_control msg), load p sizeof_int (msg_control msg),
            load (p + sizeof_int) sizeof_int (msg_control msg)) of
        (Some len, Some level, Some typ) \<Rightarrow>
          if sizeof_cmsghdr p \<le> le_val len \<and> le_val len \<le> msg_controllen msg \<and>
             msg_controllen msg \<le> length (msg_control msg) \<and>
             le_val level = SOL_SOCKET \<and> le_val typ = SCM_RIGHTS
          then load_ints (CMSG_DATA p) ((le_val len - sizeof_cmsghdr p) div sizeof_int) (msg_control msg)
          else None
      | _ \<Rightarrow> None)"

section \<open>The copy loop\<close>

lemma copy_fds_defined:
  assumes "i \<le> n" "n \<le> length fds" "n < 2 ^ 31" "CMSG_DATA p + sizeof_int * n \<le> length buffer"
  shows "\<exists>b. copy_fds p fds n i buffer = Some b \<and> length b = length buffer \<and>
           (\<forall>j. i \<le> j \<and> j < n \<longrightarrow>
              load (CMSG_DATA p + sizeof_int * j) sizeof_int b = Some (le_bytes sizeof_int (unat (fds ! j)))) \<and>
           (\<forall>o1 m. o1 + m \<le> CMSG_DATA p + sizeof_int * i \<longrightarrow> load o1 m b = load o1 m buffer)"
  using assms
proof (induction p fds n i buffer rule: copy_fds.induct)
  case (1 p fds n i buffer)
  show ?case
  proof (cases "i < n")
    case False
    then show ?thesis by (subst copy_fds.simps) auto
  next
    case True
    let ?bs = "le_bytes sizeof_int (unat (fds ! i))"
    have "sizeof_int * Suc i \<le> sizeof_int * n" using True by (intro mult_le_mono2) simp
    then have "CMSG_DATA p + sizeof_int * i + length ?bs \<le> length buffer" using "1.prems"(4) by simp
    then obtain b1 where b1: "store (CMSG_DATA p + sizeof_int * i) ?bs buffer = Some b1"
      using store_defined by blast
    have in_range: "\<not> (length fds \<le> i \<or> 2 ^ 31 - 1 \<le> i)" using True "1.prems" by auto
    obtain b where b: "copy_fds p fds n (Suc i) b1 = Some b" "length b = length b1"
      and ints: "\<And>j. Suc i \<le> j \<Longrightarrow> j < n \<Longrightarrow>
         load (CMSG_DATA p + sizeof_int * j) sizeof_int b = Some (le_bytes sizeof_int (unat (fds ! j)))"
      and below: "\<And>o1 m. o1 + m \<le> CMSG_DATA p + sizeof_int * Suc i \<Longrightarrow> load o1 m b = load o1 m b1"
      using "1.IH" [OF True in_range b1] "1.prems" True length_store [OF b1] by auto
    have "load (CMSG_DATA p + sizeof_int * i) sizeof_int b = Some ?bs"
      using load_store_same [OF b1] below [of "CMSG_DATA p + sizeof_int * i" sizeof_int] by simp
    then have "load (CMSG_DATA p + sizeof_int * j) sizeof_int b = Some (le_bytes sizeof_int (unat (fds ! j)))"
      if "i \<le> j" "j < n" for j using ints [of j] that by (cases "j = i") auto
    moreover have "load o1 m b = load o1 m buffer" if "o1 + m \<le> CMSG_DATA p + sizeof_int * i" for o1 m
      using that below [of o1 m] load_store_below [OF b1 that] by simp
    moreover have "copy_fds p fds n i buffer = Some b"
      using True in_range b1 b(1) by (subst copy_fds.simps) simp
    ultimately show ?thesis using b(2) length_store [OF b1] by auto
  qed
qed

lemma copy_fds_bounds:
  "copy_fds p fds n i buffer = Some b \<Longrightarrow> i < n \<Longrightarrow>
     n \<le> length fds \<and> CMSG_DATA p + sizeof_int * n \<le> length buffer"
proof (induction p fds n i buffer rule: copy_fds.induct)
  case (1 p fds n i buffer)
  from "1.prems" obtain b1 where in_range: "\<not> (length fds \<le> i \<or> 2 ^ 31 - 1 \<le> i)"
    and b1: "store (CMSG_DATA p + sizeof_int * i) (le_bytes sizeof_int (unat (fds ! i))) buffer = Some b1"
    and rest: "copy_fds p fds n (Suc i) b1 = Some b"
    by (subst (asm) copy_fds.simps) (auto split: if_splits option.splits)
  have fits: "CMSG_DATA p + sizeof_int * Suc i \<le> length buffer"
    using b1 by (auto simp: store_def split: if_splits)
  show ?case
  proof (cases "Suc i < n")
    case True
    then show ?thesis using "1.IH" [OF "1.prems"(2) in_range b1 rest] length_store [OF b1] by simp
  next
    case False
    then have "n = Suc i" using "1.prems"(2) by simp
    then show ?thesis using fits in_range by simp
  qed
qed

section \<open>The message\<close>

text \<open>The two sizes of a \<open>size_t\<close>, and the layout they give.\<close>

definition android_size :: "nat \<Rightarrow> bool" where
  "android_size p \<longleftrightarrow> p \<in> {4, 8}"

lemma sizeof_int [simp]: "sizeof_int = 4"
  by (simp add: sizeof_int_def)

lemma cmsg_layout: "android_size p \<Longrightarrow> CMSG_DATA p = p + 8 \<and> sizeof_cmsghdr p = p + 8"
  by (auto simp: android_size_def CMSG_DATA_def CMSG_ALIGN_def sizeof_cmsghdr_def)

lemma controllen_no_wrap:
  assumes "android_size p" "n < 2 ^ 28"
  shows "p + 8 + 4 * n < 256 ^ p" "(p + 8 + 4 * n) mod 2 ^ (8 * p) = p + 8 + 4 * n"
  using assms by (auto simp: android_size_def)

lemma load_ints_words:
  "(\<And>j. j < k \<Longrightarrow> load (off + 4 * j) 4 m = Some (le_bytes 4 (unat (ws ! j)))) \<Longrightarrow> k \<le> length ws \<Longrightarrow>
     load_ints off k m = Some (take k ws)"
proof (induction k arbitrary: off ws)
  case (Suc k)
  obtain w ws1 where ws: "ws = w # ws1" using Suc.prems(2) by (cases ws) auto
  have "unat w < 256 ^ 4" using unsigned_less [of w] by simp
  moreover have "load_ints (off + 4) k m = Some (take k ws1)"
    using Suc.prems(1) [of "Suc _"] Suc.prems(2) by (intro Suc.IH) (auto simp: ws add.assoc)
  ultimately show ?case using Suc.prems(1) [of 0]
    by (simp add: ws le_val_le_bytes)
qed simp

lemma ancil_message_defined:
  assumes "android_size p" "unat n < 2 ^ 28" "unat n \<le> length fds"
    "sizeof_cmsghdr p + sizeof_int * unat n \<le> length buffer"
  shows "\<exists>msg. ancil_message p fds n buffer = Some msg \<and> msg_iov msg = [[0x21]] \<and>
           msg_controllen msg = p + 8 + 4 * unat n \<and> passed_fds p msg = Some (take (unat n) fds)"
proof -
  note layout = cmsg_layout [OF assms(1)]
  let ?len = "p + 8 + 4 * unat n"
  note wrap = controllen_no_wrap [OF assms(1,2)]
  have fits: "?len \<le> length buffer" using assms(4) layout by simp
  obtain b1 where b1: "store 0 (le_bytes p ?len) buffer = Some b1"
    using store_defined [of 0 "le_bytes p ?len" buffer] fits by auto
  obtain b2 where b2: "store p (le_bytes 4 SOL_SOCKET) b1 = Some b2"
    using store_defined [of p "le_bytes 4 SOL_SOCKET" b1] fits length_store [OF b1] by auto
  obtain b3 where b3: "store (p + 4) (le_bytes 4 SCM_RIGHTS) b2 = Some b3"
    using store_defined [of "p + 4" "le_bytes 4 SCM_RIGHTS" b2] fits length_store [OF b1] length_store [OF b2]
    by auto
  have l3: "length b3 = length buffer"
    using length_store [OF b1] length_store [OF b2] length_store [OF b3] by simp
  obtain b4 where b4: "copy_fds p fds (unat n) 0 b3 = Some b4" "length b4 = length buffer"
    and ints: "\<And>j. j < unat n \<Longrightarrow> load (p + 8 + 4 * j) 4 b4 = Some (le_bytes 4 (unat (fds ! j)))"
    and below: "\<And>o1 m. o1 + m \<le> p + 8 \<Longrightarrow> load o1 m b4 = load o1 m b3"
    using copy_fds_defined [of 0 "unat n" fds p b3] assms(2,3) fits l3 layout by auto
  have msg: "ancil_message p fds n buffer =
      Some \<lparr>msg_iov = [[0x21]], msg_control = b4, msg_controllen = ?len, msg_flags = 0\<rparr>"
    using b1 b2 b3 b4(1) layout by (simp add: ancil_message_def wrap(2) Let_def)
  have "load 0 p b4 = Some (le_bytes p ?len)"
    using below [of 0 p] load_store_below [OF b3, of 0 p] load_store_below [OF b2, of 0 p] load_store_same [OF b1]
    by simp
  moreover have "load p 4 b4 = Some (le_bytes 4 SOL_SOCKET)"
    using below [of p 4] load_store_below [OF b3, of p 4] load_store_same [OF b2] by simp
  moreover have "load (p + 4) 4 b4 = Some (le_bytes 4 SCM_RIGHTS)"
    using below [of "p + 4" 4] load_store_same [OF b3] by simp
  moreover have "load_ints (p + 8) (unat n) b4 = Some (take (unat n) fds)"
    using ints assms(3) by (rule load_ints_words)
  ultimately have "passed_fds p \<lparr>msg_iov = [[0x21]], msg_control = b4, msg_controllen = ?len, msg_flags = 0\<rparr>
      = Some (take (unat n) fds)"
    using layout fits b4(2) wrap(1)
    by (simp add: passed_fds_def le_val_le_bytes SOL_SOCKET_def SCM_RIGHTS_def)
  then show ?thesis using msg by simp
qed

lemma ancil_message_bounds:
  assumes "android_size p" "unat n < 2 ^ 28" "ancil_message p fds n buffer = Some msg"
  shows "unat n \<le> length fds \<and> sizeof_cmsghdr p + sizeof_int * unat n \<le> length buffer"
proof -
  note layout = cmsg_layout [OF assms(1)]
  obtain b1 b2 b3 b4 where b: "store 0 (le_bytes p (p + 8 + 4 * unat n)) buffer = Some b1"
      "store p (le_bytes 4 SOL_SOCKET) b1 = Some b2" "store (p + 4) (le_bytes 4 SCM_RIGHTS) b2 = Some b3"
      "copy_fds p fds (unat n) 0 b3 = Some b4"
    using assms(3) controllen_no_wrap(2) [OF assms(1,2)] layout
    by (auto simp: ancil_message_def Let_def split: if_splits option.splits)
  have l3: "length b3 = length buffer" using b length_store by metis
  show ?thesis
  proof (cases "unat n = 0")
    case True
    then show ?thesis using b(3) layout length_store [OF b(1)] length_store [OF b(2)]
      by (auto simp: store_def split: if_splits)
  next
    case False
    then show ?thesis using copy_fds_bounds [OF b(4)] layout l3 by simp
  qed
qed

text \<open>
  C39: Filling in the message that carries \<open>n\<close> descriptors is defined exactly when the descriptors
  are there and the buffer holds a header and \<open>n\<close> ints, and then the message is one data byte \<open>!\<close> with
  control data from which the receiver gets exactly the first \<open>n\<close> descriptors, in order, with every
  byte of it written.
\<close>

theorem ancil_message_passes:
  assumes "android_size p" "unat n < 2 ^ 28"
  shows "if unat n \<le> length fds \<and> sizeof_cmsghdr p + sizeof_int * unat n \<le> length buffer
         then \<exists>msg. ancil_message p fds n buffer = Some msg \<and> msg_iov msg = [[0x21]] \<and>
                passed_fds p msg = Some (take (unat n) fds)
         else ancil_message p fds n buffer = None"
  using ancil_message_defined [OF assms] ancil_message_bounds [OF assms]
  by (cases "ancil_message p fds n buffer") fastforce+

theorem ancil_message_passes_witness:
  "(\<exists>msg. ancil_message 8 [7, 9] 2 (uninit 24) = Some msg \<and> msg_iov msg = [[0x21]] \<and>
      passed_fds 8 msg = Some [7, 9]) \<and>
   ancil_message 8 [7, 9] 2 (ANCIL_FD_BUFFER 8 0) = None"
  using ancil_message_passes [of 8 2 "[7, 9]" "uninit 24"]
    ancil_message_passes [of 8 2 "[7, 9]" "ANCIL_FD_BUFFER 8 0"]
  by (simp add: android_size_def sizeof_cmsghdr_def uninit_def ANCIL_FD_BUFFER_def CMSG_ALIGN_def)

text \<open>The structure \<open>ANCIL_FD_BUFFER(1)\<close> is large enough for one descriptor.\<close>

lemma ancil_one_fd:
  assumes "android_size p"
  shows "\<exists>msg. ancil_message p [fd] 1 (ANCIL_FD_BUFFER p 1) = Some msg \<and> passed_fds p msg = Some [fd]"
proof -
  have "sizeof_cmsghdr p + sizeof_int * unat (1 :: 32 word) \<le> length (ANCIL_FD_BUFFER p 1)"
    using assms cmsg_layout [OF assms] by (auto simp: android_size_def ANCIL_FD_BUFFER_def uninit_def CMSG_ALIGN_def)
  then show ?thesis using ancil_message_defined [OF assms, of 1 "[fd]"] by auto
qed

end
