(* ===== verification/Hooks.thy ===== *)
theory Hooks
  imports Registry AncilFd
begin

text \<open>
  The socket controllers: how src/registry/registry.go runs them when a socket is created, and the
  controllers of src/hook for TCP fast open (Linux, Windows) and for the VPN protection on
  Android, whose C part rests on AncilFd. The operating system is a parameter: a kernel answers a system call from the history of
  all calls made so far, and a model of a function extends that history.
\<close>

section \<open>System calls\<close>

datatype syscall =
    SysSetsockoptInt nat nat nat nat   \<comment> \<open>descriptor, level, option, value\<close>
  | SysSocket                          \<comment> \<open>a Unix stream socket\<close>
  | SysClose nat
  | SysSetsockoptTimeval c_int nat nat nat nat   \<comment> \<open>descriptor, level, option, seconds, microseconds\<close>
  | SysConnect nat bytes
  | SysSendmsg c_int msghdr
  | SysRead nat nat                    \<comment> \<open>descriptor, number of bytes asked for\<close>
  | OutOfBounds                        \<comment> \<open>not a call: the C code left the bounds of an object\<close>

type_synonym history = "syscall list"
type_synonym kernel = "history \<Rightarrow> syscall \<Rightarrow> nat result"

text \<open>A controller gets the options from the context, the network, the address and the descriptor.\<close>

type_synonym controller = "Options \<Rightarrow> bytes \<Rightarrow> bytes \<Rightarrow> nat \<Rightarrow> history \<Rightarrow> go_error option \<times> history"

definition sys :: "kernel \<Rightarrow> syscall \<Rightarrow> history \<Rightarrow> nat result \<times> history" where
  "sys k c h = (k h c, h @ [c])"

definition err_of :: "'a result \<Rightarrow> go_error option" where
  "err_of r = (case r of Inl e \<Rightarrow> Some e | Inr _ \<Rightarrow> None)"

section \<open>Running the controllers\<close>

text \<open>
  The closure that \<open>GetDialControl\<close> and \<open>GetListenControl\<close> hand to \<open>RawConn.Control\<close>: every
  controller runs, an error is logged and does not stop the loop.
\<close>

fun run_controllers ::
  "controller list \<Rightarrow> Options \<Rightarrow> bytes \<Rightarrow> bytes \<Rightarrow> nat \<Rightarrow> history \<Rightarrow> go_error list \<times> history" where
  "run_controllers [] o1 network address fd h = ([], h)"
| "run_controllers (ctl # ctls) o1 network address fd h =
     (case ctl o1 network address fd h of
        (Some err, h1) \<Rightarrow> apfst ((#) err) (run_controllers ctls o1 network address fd h1)
      | (None, h1) \<Rightarrow> run_controllers ctls o1 network address fd h1)"

text \<open>
  \<open>RawConn.Control\<close> either fails without calling the closure or calls it with the descriptor and
  returns no error; \<open>raw\<close> is which of the two. The result is the returned error, the logged errors
  and the history.
\<close>

definition GetDialControl ::
  "('l, 't, controller) registry \<Rightarrow> Options \<Rightarrow> bytes \<Rightarrow> bytes \<Rightarrow> nat result \<Rightarrow> history
     \<Rightarrow> go_error option \<times> go_error list \<times> history" where
  "GetDialControl r o1 network address raw h =
     (case raw of
        Inl e \<Rightarrow> (Some e, [], h)
      | Inr fd \<Rightarrow> (None, run_controllers (dialControllers r) o1 network address fd h))"

definition GetListenControl ::
  "('l, 't, controller) registry \<Rightarrow> Options \<Rightarrow> bytes \<Rightarrow> bytes \<Rightarrow> nat result \<Rightarrow> history
     \<Rightarrow> go_error option \<times> go_error list \<times> history" where
  "GetListenControl r o1 network address raw h =
     (case raw of
        Inl e \<Rightarrow> (Some e, [], h)
      | Inr fd \<Rightarrow> (None, run_controllers (listenControllers r) o1 network address fd h))"

section \<open>TCP fast open\<close>

definition SOL_TCP :: nat where "SOL_TCP = 6"
definition TCP_FASTOPEN :: nat where "TCP_FASTOPEN = 23"
definition TCP_FASTOPEN_CONNECT :: nat where "TCP_FASTOPEN_CONNECT = 30"
definition TCP_FASTOPEN_windows :: nat where "TCP_FASTOPEN_windows = 15"

definition SetOutboundTFO :: "kernel \<Rightarrow> controller" where
  "SetOutboundTFO k o1 network address s h =
     (if FastOpen o1 then apfst err_of (sys k (SysSetsockoptInt s SOL_TCP TCP_FASTOPEN_CONNECT 1) h)
      else (None, h))"

definition SetInboundTFO :: "kernel \<Rightarrow> controller" where
  "SetInboundTFO k o1 network address s h =
     (if FastOpen o1 then apfst err_of (sys k (SysSetsockoptInt s SOL_TCP TCP_FASTOPEN 1) h)
      else (None, h))"

definition SetTFO :: "kernel \<Rightarrow> controller" where
  "SetTFO k o1 network address s h =
     (if FastOpen o1 then apfst err_of (sys k (SysSetsockoptInt s SOL_TCP TCP_FASTOPEN_windows 1) h)
      else (None, h))"

section \<open>VPN protection on Android\<close>

definition SO_RCVTIMEO :: nat where "SO_RCVTIMEO = 20"
definition SO_SNDTIMEO :: nat where "SO_SNDTIMEO = 21"

text \<open>The C functions: their int arguments have 32 bits, the results of the two calls are dropped.\<close>

definition C_int :: "nat \<Rightarrow> c_int" where
  "C_int n = word_of_nat n"

definition set_timeout :: "kernel \<Rightarrow> c_int \<Rightarrow> history \<Rightarrow> history" where
  "set_timeout k sock h =
     (let h = snd (sys k (SysSetsockoptTimeval sock SOL_SOCKET SO_RCVTIMEO 3 0) h)
      in snd (sys k (SysSetsockoptTimeval sock SOL_SOCKET SO_SNDTIMEO 3 0) h))"

definition ancil_send_fds_with_buffer ::
  "kernel \<Rightarrow> nat \<Rightarrow> c_int \<Rightarrow> c_int list \<Rightarrow> 32 word \<Rightarrow> c_object \<Rightarrow> history \<Rightarrow> int option \<times> history" where
  "ancil_send_fds_with_buffer k p sock fds n_fds buffer h =
     (case ancil_message p fds n_fds buffer of
        None \<Rightarrow> (None, h @ [OutOfBounds])
      | Some msg \<Rightarrow> (case sys k (SysSendmsg sock msg) h of
          (Inl e, h) \<Rightarrow> (Some (- 1), h)
        | (Inr n, h) \<Rightarrow> (Some 0, h)))"

definition ancil_send_fd :: "kernel \<Rightarrow> nat \<Rightarrow> c_int \<Rightarrow> c_int \<Rightarrow> history \<Rightarrow> int option \<times> history" where
  "ancil_send_fd k p sock fd h = ancil_send_fds_with_buffer k p sock [fd] 1 (ANCIL_FD_BUFFER p 1) h"

text \<open>
  The descriptor is sent to a Unix socket named \<open>protect_path\<close> and one byte is read back. The
  deferred close runs on every path after the socket exists. The result of \<open>ancil_send_fd\<close> is not
  looked at.
\<close>

definition ControlOnConnSetup :: "kernel \<Rightarrow> nat \<Rightarrow> controller" where
  "ControlOnConnSetup k p o1 network address s h =
     (if Vpn o1 then
        (case sys k SysSocket h of
           (Inl err, h) \<Rightarrow> (Some err, h)
         | (Inr socket, h) \<Rightarrow>
             let defer_close = (\<lambda>(r :: go_error option, h). (r, snd (sys k (SysClose socket) h)));
                 h = set_timeout k (C_int socket) h
             in defer_close
                 (case sys k (SysConnect socket ''protect_path'') h of
                    (Inl err, h) \<Rightarrow> (Some err, h)
                  | (Inr _, h) \<Rightarrow>
                      let h = snd (ancil_send_fd k p (C_int socket) (C_int s) h) in
                      (case sys k (SysRead socket 1) h of
                         (Inl err, h) \<Rightarrow> (Some err, h)
                       | (Inr n, h) \<Rightarrow> if n \<noteq> 1 then (Some (ProtectFailed s), h) else (None, h))))
      else (None, h))"

section \<open>Registration per operating system\<close>

datatype goos = GOOS_linux | GOOS_android | GOOS_windows | GOOS_other

text \<open>
  Which files of src/hook are built: fastopen_linux.go on Linux and Android, fastopen_windows.go on
  Windows, vpn_android.go on Android, in the order of the file names.
\<close>

definition init_fastopen_linux :: "kernel \<Rightarrow> ('l, 't, controller) registry \<Rightarrow> ('l, 't, controller) registry" where
  "init_fastopen_linux k r =
     snd (RegisterListenController (Some (SetInboundTFO k)) (snd (RegisterDialController (Some (SetOutboundTFO k)) r)))"

definition init_fastopen_windows :: "kernel \<Rightarrow> ('l, 't, controller) registry \<Rightarrow> ('l, 't, controller) registry" where
  "init_fastopen_windows k r =
     snd (RegisterListenController (Some (SetTFO k)) (snd (RegisterDialController (Some (SetTFO k)) r)))"

definition init_vpn_android :: "kernel \<Rightarrow> nat \<Rightarrow> ('l, 't, controller) registry \<Rightarrow> ('l, 't, controller) registry" where
  "init_vpn_android k p r =
     snd (RegisterListenController (Some (ControlOnConnSetup k p)) (snd (RegisterDialController (Some (ControlOnConnSetup k p)) r)))"

definition init_hooks :: "goos \<Rightarrow> kernel \<Rightarrow> nat \<Rightarrow> ('l, 't, controller) registry \<Rightarrow> ('l, 't, controller) registry" where
  "init_hooks os k p r =
     (case os of
        GOOS_linux \<Rightarrow> init_fastopen_linux k r
      | GOOS_android \<Rightarrow> init_vpn_android k p (init_fastopen_linux k r)
      | GOOS_windows \<Rightarrow> init_fastopen_windows k r
      | GOOS_other \<Rightarrow> r)"

lemmas register_controller_defs =
  RegisterDialController_def RegisterListenController_def init_fastopen_linux_def
  init_fastopen_windows_def init_vpn_android_def init_hooks_def

lemma dial_controllers_init:
  "dialControllers (init_hooks os k p r) = dialControllers r @
     (case os of GOOS_linux \<Rightarrow> [SetOutboundTFO k]
       | GOOS_android \<Rightarrow> [SetOutboundTFO k, ControlOnConnSetup k p]
       | GOOS_windows \<Rightarrow> [SetTFO k] | GOOS_other \<Rightarrow> [])"
  by (cases os) (simp_all add: register_controller_defs)

lemma listen_controllers_init:
  "listenControllers (init_hooks os k p r) = listenControllers r @
     (case os of GOOS_linux \<Rightarrow> [SetInboundTFO k]
       | GOOS_android \<Rightarrow> [SetInboundTFO k, ControlOnConnSetup k p]
       | GOOS_windows \<Rightarrow> [SetTFO k] | GOOS_other \<Rightarrow> [])"
  by (cases os) (simp_all add: register_controller_defs)

section \<open>Properties\<close>

text \<open>The history and the errors of a list of controllers, each on the history the ones before left.\<close>

fun controller_trace ::
  "controller list \<Rightarrow> Options \<Rightarrow> bytes \<Rightarrow> bytes \<Rightarrow> nat \<Rightarrow> history \<Rightarrow> (go_error option \<times> history) list" where
  "controller_trace [] o1 network address fd h = []"
| "controller_trace (c # cs) o1 network address fd h =
     c o1 network address fd h # controller_trace cs o1 network address fd (snd (c o1 network address fd h))"

lemma length_controller_trace [simp]:
  "length (controller_trace cs o1 network address fd h) = length cs"
  by (induction cs arbitrary: h) auto

lemma run_controllers_trace:
  "run_controllers cs o1 network address fd h =
     (List.map_filter fst (controller_trace cs o1 network address fd h),
      last (h # map snd (controller_trace cs o1 network address fd h)))"
proof (induction cs arbitrary: h)
  case Nil
  show ?case by (simp add: map_filter_simps)
next
  case (Cons c cs)
  then show ?case
    by (cases "c o1 network address fd h") (simp add: map_filter_simps split: option.splits)
qed

text \<open>
  A dial runs every registered controller exactly once and in the order of registration, each
  on the state the one before left; an error of one of them is logged, neither stops the ones
  after it nor fails the dial. On Linux and Android the fast-open controller comes first.
\<close>

theorem dial_control_runs_all:
  "GetDialControl (init_hooks os k p empty_registry) o1 network address (Inr fd) h =
     (let cs = (case os of GOOS_linux \<Rightarrow> [SetOutboundTFO k]
                 | GOOS_android \<Rightarrow> [SetOutboundTFO k, ControlOnConnSetup k p]
                 | GOOS_windows \<Rightarrow> [SetTFO k] | GOOS_other \<Rightarrow> []);
          tr = controller_trace cs o1 network address fd h
      in (None, List.map_filter fst tr, last (h # map snd tr)))"
  by (simp add: GetDialControl_def dial_controllers_init run_controllers_trace Let_def empty_registry_def)

definition closes :: "history \<Rightarrow> nat list" where
  "closes h = List.map_filter (\<lambda>c. case c of SysClose n \<Rightarrow> Some n | _ \<Rightarrow> None) h"

text \<open>
  C38: The VPN protection never leaks its socket and touches nothing when it is off: without the VPN
  option no system call is made; with it, a failed socket call is the only call; otherwise
  exactly one close is made, of that socket, as the last call. A failed connect is returned and nothing is sent.
  After a connect the message is sent that passes exactly the descriptor of the connection, one byte is read, and no
  error is returned exactly if that read gave one byte: whether the message could be sent is not looked
  at. The C part never leaves the bounds of its buffer.
\<close>

theorem vpn_protect_closes:
  assumes "android_size p"
  shows "case ControlOnConnSetup k p o1 network address fd h of (r, h') \<Rightarrow>
     \<exists>calls. h' = h @ calls \<and> OutOfBounds \<notin> set calls \<and>
       (if \<not> Vpn o1 then calls = [] \<and> r = None
        else case k h SysSocket of
          Inl e \<Rightarrow> calls = [SysSocket] \<and> r = Some e
        | Inr socket \<Rightarrow>
            hd calls = SysSocket \<and> last calls = SysClose socket \<and> closes calls = [socket] \<and>
            (case k (h @ take 3 calls) (SysConnect socket ''protect_path'') of
               Inl e \<Rightarrow> r = Some e \<and> calls =
                    [SysSocket, SysSetsockoptTimeval (C_int socket) SOL_SOCKET SO_RCVTIMEO 3 0,
                     SysSetsockoptTimeval (C_int socket) SOL_SOCKET SO_SNDTIMEO 3 0,
                     SysConnect socket ''protect_path'', SysClose socket]
             | Inr _ \<Rightarrow>
                 (\<exists>msg. calls =
                    [SysSocket, SysSetsockoptTimeval (C_int socket) SOL_SOCKET SO_RCVTIMEO 3 0,
                     SysSetsockoptTimeval (C_int socket) SOL_SOCKET SO_SNDTIMEO 3 0,
                     SysConnect socket ''protect_path'', SysSendmsg (C_int socket) msg,
                     SysRead socket 1, SysClose socket] \<and>
                    passed_fds p msg = Some [C_int fd]) \<and>
                 r = (case k (h @ take 5 calls) (SysRead socket 1) of
                        Inl e \<Rightarrow> Some e
                      | Inr n \<Rightarrow> if n = 1 then None else Some (ProtectFailed fd))))"
proof -
  obtain msg where msg: "ancil_message p [C_int fd] 1 (ANCIL_FD_BUFFER p 1) = Some msg"
      "passed_fds p msg = Some [C_int fd]"
    using ancil_one_fd [OF assms] by blast
  have sent: "snd (ancil_send_fd k p (C_int socket) (C_int fd) h1) = h1 @ [SysSendmsg (C_int socket) msg]"
    for socket h1
    by (simp add: ancil_send_fd_def ancil_send_fds_with_buffer_def msg [simplified One_nat_def] sys_def split: sum.splits)
  show ?thesis
    using msg(2) by (auto simp: ControlOnConnSetup_def sent set_timeout_def sys_def Let_def closes_def
        map_filter_simps split: sum.splits)
qed

text \<open>A kernel on which every call works: sockets get the descriptor 5, a read gives one byte.\<close>

definition demo_kernel :: kernel where
  "demo_kernel h c = (case c of SysSocket \<Rightarrow> Inr 5 | SysRead _ _ \<Rightarrow> Inr 1 | _ \<Rightarrow> Inr 0)"

theorem vpn_protect_closes_witness:
  "\<exists>h' msg. ControlOnConnSetup demo_kernel 8 (flag_defaults\<lparr>Vpn := True\<rparr>) ''tcp'' ''192.0.2.1:443'' 9 [] = (None, h') \<and>
     h' = [SysSocket, SysSetsockoptTimeval 5 SOL_SOCKET SO_RCVTIMEO 3 0,
           SysSetsockoptTimeval 5 SOL_SOCKET SO_SNDTIMEO 3 0, SysConnect 5 ''protect_path'',
           SysSendmsg 5 msg, SysRead 5 1, SysClose 5] \<and> passed_fds 8 msg = Some [9]"
proof -
  let ?o = "flag_defaults\<lparr>Vpn := True\<rparr>"
  obtain r h' where c: "ControlOnConnSetup demo_kernel 8 ?o ''tcp'' ''192.0.2.1:443'' 9 [] = (r, h')"
    by (cases "ControlOnConnSetup demo_kernel 8 ?o ''tcp'' ''192.0.2.1:443'' 9 []") auto
  have "r = None"
    using c by (simp add: ControlOnConnSetup_def sys_def demo_kernel_def Let_def split: prod.splits)
  then show ?thesis
    using vpn_protect_closes [where k = demo_kernel and p = 8 and ?o1.0 = ?o and network = "''tcp''"
        and address = "''192.0.2.1:443''" and fd = 9 and h = "[]"] unfolding c
    by (auto simp: demo_kernel_def android_size_def C_int_def)
qed

end
