(* ===== verification/Transporters.thy ===== *)
theory Transporters
  imports TlsClient WsProxy HttpConn MuxPool Hooks
begin

text \<open>
  The transporters of src/gost/proxy/tcp.go and src/gost/proxy/client: the TCP dial, the HTTP/2 request,
  the gRPC call, the QUIC session that dials share, and the constructors with their type
  assertions. Sockets, sessions and library answers are parameters.
\<close>

section \<open>TCP\<close>

text \<open>The dialer of \<open>TCPTransporter.DialConn\<close>; times are in nanoseconds.\<close>

record tcp_dialer =
  dial_Timeout :: int
  dial_DualStack :: bool
  dial_LocalAddr :: "net_addr option"
  dial_Control :: "bytes \<Rightarrow> bytes \<Rightarrow> nat result \<Rightarrow> history \<Rightarrow> go_error option \<times> go_error list \<times> history"

definition TCP_DialConn ::
  "('l, 't, controller) registry \<Rightarrow> (tcp_dialer \<Rightarrow> bytes \<Rightarrow> bytes \<Rightarrow> 'k result) \<Rightarrow> Options \<Rightarrow> 'k result" where
  "TCP_DialConn reg dial o1 =
     dial \<lparr>dial_Timeout = 16 * 1000000000, dial_DualStack = True, dial_LocalAddr = None,
           dial_Control = GetDialControl reg o1\<rparr> ''tcp'' (GetRemoteAddr o1)"

section \<open>HTTP/2\<close>

record h2_request =
  h2_Method :: bytes
  h2_Scheme :: bytes
  h2_URLHost :: bytes
  h2_Path :: bytes
  h2_Host :: bytes
  h2_Header :: header

definition h2_request :: "Options \<Rightarrow> h2_request" where
  "h2_request o1 =
     \<lparr>h2_Method = ''PUT'', h2_Scheme = ''https'', h2_URLHost = GetRemoteAddr o1, h2_Path = Path o1,
      h2_Host = (if Hostname o1 \<noteq> [] then Hostname o1 else []),
      h2_Header = header_Set ''Accept-Encoding'' ''identity'' []\<rparr>"

text \<open>
  \<open>respond\<close> is \<open>client.Do\<close> with the status of the response. The connection reads the response body and
  writes the pipe whose other end is the request body; closing it closes these three. The last
  component lists what the dial itself closed.
\<close>

datatype h2_closable = PipeReader | PipeWriter | ResponseBody

definition h2_DialConn ::
  "(h2_request \<Rightarrow> nat result) \<Rightarrow> Options \<Rightarrow> (HttpConnection \<times> h2_closable list) result \<times> h2_closable list" where
  "h2_DialConn respond o1 =
     (case respond (h2_request o1) of
        Inl err \<Rightarrow> (Inl err, [])
      | Inr status \<Rightarrow>
          if status \<noteq> 200 then (Inl (UnexpectedStatus status), [])
          else (Inr (NewHttpConnection False None None, [PipeReader, PipeWriter, ResponseBody]), []))"

section \<open>gRPC\<close>

record service_desc =
  ServiceDesc_name :: bytes
  Stream_name :: bytes
  ServerStreams :: bool
  ClientStreams :: bool
  ServiceDesc_metadata :: bytes

definition ServerDesc :: "bytes \<Rightarrow> service_desc" where
  "ServerDesc name =
     \<lparr>ServiceDesc_name = name, Stream_name = ''Tun'', ServerStreams = True, ClientStreams = True,
      ServiceDesc_metadata = ''gost/protocol/gun/gun.proto''\<rparr>"

text \<open>\<open>TunCustomName\<close>: \<open>new_stream\<close> is the client connection's \<open>NewStream\<close>.\<close>

definition TunCustomName :: "(service_desc \<Rightarrow> bytes \<Rightarrow> 's result) \<Rightarrow> bytes \<Rightarrow> 's result" where
  "TunCustomName new_stream name =
     (case new_stream (ServerDesc name) (''/'' @ name @ ''/Tun'') of
        Inl err \<Rightarrow> Inl err
      | Inr strm \<Rightarrow> Inr strm)"

definition gun_DialConn ::
  "(service_desc \<Rightarrow> bytes \<Rightarrow> (bytes result list \<times> net_addr option) result) \<Rightarrow> Options \<Rightarrow> GunConnection result" where
  "gun_DialConn new_stream o1 =
     (case TunCustomName new_stream (ServiceName o1) of
        Inl err \<Rightarrow> Inl err
      | Inr (answers, pr) \<Rightarrow> Inr (NewGunConnection answers pr None))"

text \<open>The path under which a gRPC server finds a stream of a registered service.\<close>

definition service_path :: "service_desc \<Rightarrow> bytes" where
  "service_path desc = ''/'' @ ServiceDesc_name desc @ ''/'' @ Stream_name desc"

section \<open>QUIC\<close>

record 's QUICTransporter =
  quic_session :: "'s option"

text \<open>\<open>ended\<close> is whether the context of the session is done at the time of the check.\<close>

definition isSessionActive :: "bool \<Rightarrow> 's QUICTransporter \<Rightarrow> bool" where
  "isSessionActive ended t =
     (case quic_session t of None \<Rightarrow> False | Some _ \<Rightarrow> if ended then False else True)"

text \<open>The answers of the library and the system during one dial.\<close>

record ('s, 'p, 'r) quic_answers =
  ended_first :: bool          \<comment> \<open>at the check of \<open>DialConn\<close>\<close>
  ended_second :: bool         \<comment> \<open>at the check of \<open>openStream\<close>\<close>
  opened_stream :: "'r result"
  local_remote :: "net_addr \<times> net_addr"
  closed_session :: "go_error option"
  packet_socket :: "'p result"
  dialed_session :: "'s result"

datatype ('s, 'p) quic_effect =
    SessionClosed_effect 's
  | SocketOpened 'p
  | SocketClosed 'p
  | SessionDialed 's

definition quic_openStream ::
  "('s, 'p, 'r) quic_answers \<Rightarrow> 's QUICTransporter \<Rightarrow> 'r interConn result" where
  "quic_openStream a t =
     (if \<not> isSessionActive (ended_second a) t then Inl SessionClosed
      else case opened_stream a of
        Inl err \<Rightarrow> Inl err
      | Inr strm \<Rightarrow> Inr (NewQUICConn strm (fst (local_remote a)) (snd (local_remote a))))"

definition quic_DialConn ::
  "('s, 'p, 'r) quic_answers \<Rightarrow> 's QUICTransporter
     \<Rightarrow> 'r interConn result \<times> 's QUICTransporter \<times> ('s, 'p) quic_effect list" where
  "quic_DialConn a t =
     (if isSessionActive (ended_first a) t then (quic_openStream a t, t, [])
      else
        let eff = (case quic_session t of Some s \<Rightarrow> [SessionClosed_effect s] | None \<Rightarrow> [])
        in (case packet_socket a of
              Inl err \<Rightarrow> (Inl err, t, eff)
            | Inr pConn \<Rightarrow>
                let eff = eff @ [SocketOpened pConn]
                in (case dialed_session a of
                      Inl err \<Rightarrow> (Inl err, t, eff)
                    | Inr s \<Rightarrow>
                        let t = t\<lparr>quic_session := Some s\<rparr>
                        in (quic_openStream a t, t, eff @ [SessionDialed s]))))"

text \<open>The configuration of the dial.\<close>

definition quic_client_tls :: "Options \<Rightarrow> tls_config" where
  "quic_client_tls o1 = (buildClientTLSConfig o1)\<lparr>cfg_NextProtos := [''h3'']\<rparr>"

fun quic_dials ::
  "('s, 'p, 'r) quic_answers list \<Rightarrow> 's QUICTransporter \<Rightarrow> 's QUICTransporter \<times> ('s, 'p) quic_effect list" where
  "quic_dials [] t = (t, [])"
| "quic_dials (a # as) t =
     (case quic_DialConn a t of (_, t, eff) \<Rightarrow> apsnd ((@) eff) (quic_dials as t))"

section \<open>Constructors\<close>

text \<open>
  The transporters by their Go types; a field for every embedded transporter, configuration or pool
  (by the options it was made from).
\<close>

datatype transporter =
    TCPTransporter
  | TLSTransporter transporter
  | MTLSTransporter transporter uint
  | WSTransporter transporter
  | WSSTransporter transporter
  | MWSTransporter transporter uint
  | MWSSTransporter transporter uint
  | H2Transporter transporter tls_config
  | QUICTransporterT
  | GunTransporter transporter grpcTLS

text \<open>A type assertion panics on any other type.\<close>

definition assert_type :: "(transporter \<Rightarrow> bool) \<Rightarrow> transporter \<Rightarrow> transporter result" where
  "assert_type P t = (if P t then Inr t else Inl (GoPanic ''interface conversion''))"

fun is_TCP :: "transporter \<Rightarrow> bool" where "is_TCP TCPTransporter = True" | "is_TCP _ = False"
fun is_TLS :: "transporter \<Rightarrow> bool" where "is_TLS (TLSTransporter _) = True" | "is_TLS _ = False"
fun is_WS :: "transporter \<Rightarrow> bool" where "is_WS (WSTransporter _) = True" | "is_WS _ = False"
fun is_WSS :: "transporter \<Rightarrow> bool" where "is_WSS (WSSTransporter _) = True" | "is_WSS _ = False"

definition NewTCPTransporter :: "Options \<Rightarrow> transporter result" where
  "NewTCPTransporter o1 = Inr TCPTransporter"

definition NewTLSTransporter :: "Options \<Rightarrow> transporter result" where
  "NewTLSTransporter o1 =
     bind_result (NewTCPTransporter o1) (\<lambda>inner. bind_result (assert_type is_TCP inner) (\<lambda>t. Inr (TLSTransporter t)))"

definition pool_limit :: "Options \<Rightarrow> uint" where
  "pool_limit o1 = concurrency (NewMuxPool o1 :: (unit, unit) MuxPool)"

definition NewMTLSTransporter :: "Options \<Rightarrow> transporter result" where
  "NewMTLSTransporter o1 =
     bind_result (NewTLSTransporter o1)
       (\<lambda>inner. bind_result (assert_type is_TLS inner) (\<lambda>t. Inr (MTLSTransporter t (pool_limit o1))))"

definition NewWSTransporter :: "Options \<Rightarrow> transporter result" where
  "NewWSTransporter o1 =
     bind_result (NewTCPTransporter o1) (\<lambda>inner. bind_result (assert_type is_TCP inner) (\<lambda>t. Inr (WSTransporter t)))"

definition NewWSSTransporter :: "Options \<Rightarrow> transporter result" where
  "NewWSSTransporter o1 =
     bind_result (NewTLSTransporter o1) (\<lambda>inner. bind_result (assert_type is_TLS inner) (\<lambda>t. Inr (WSSTransporter t)))"

definition NewMWSTransporter :: "Options \<Rightarrow> transporter result" where
  "NewMWSTransporter o1 =
     bind_result (NewWSTransporter o1)
       (\<lambda>inner. bind_result (assert_type is_WS inner) (\<lambda>t. Inr (MWSTransporter t (pool_limit o1))))"

definition NewMWSSTransporter :: "Options \<Rightarrow> transporter result" where
  "NewMWSSTransporter o1 =
     bind_result (NewWSSTransporter o1)
       (\<lambda>inner. bind_result (assert_type is_WSS inner) (\<lambda>t. Inr (MWSSTransporter t (pool_limit o1))))"

definition NewH2Transporter :: "Options \<Rightarrow> transporter result" where
  "NewH2Transporter o1 =
     bind_result (NewTCPTransporter o1)
       (\<lambda>inner. bind_result (assert_type is_TCP inner)
          (\<lambda>t. Inr (H2Transporter t ((buildClientTLSConfig o1)\<lparr>cfg_NextProtos := [''h2'']\<rparr>))))"

definition NewQUICTransporter :: "Options \<Rightarrow> transporter result" where
  "NewQUICTransporter o1 = Inr QUICTransporterT"

text \<open>The backoff of the gRPC connection in milliseconds, the jitter left out.\<close>

definition gun_backoff :: "nat \<times> nat" where
  "gun_backoff = (500, 19)"   \<comment> \<open>\<open>BaseDelay\<close>, \<open>MaxDelay\<close>\<close>

text \<open>\<open>grpc_dial\<close> is \<open>grpc.Dial\<close>, which does not connect yet but may refuse the target.\<close>

definition NewGunTransporter :: "(bytes \<Rightarrow> grpcTLS \<Rightarrow> go_error option) \<Rightarrow> Options \<Rightarrow> transporter result" where
  "NewGunTransporter grpc_dial o1 =
     bind_result (NewTCPTransporter o1)
       (\<lambda>inner.
          let creds = NewGrpcTLS ((buildClientTLSConfig o1)\<lparr>cfg_NextProtos := [''h2'']\<rparr>) (Fingerprint o1)
          in case grpc_dial (GetRemoteAddr o1) creds of
               Some err \<Rightarrow> Inl err
             | None \<Rightarrow> bind_result (assert_type is_TCP inner) (\<lambda>t. Inr (GunTransporter t creds)))"

fun run_TransporterCreator ::
  "(bytes \<Rightarrow> grpcTLS \<Rightarrow> go_error option) \<Rightarrow> TransporterCreator \<Rightarrow> Options \<Rightarrow> transporter result" where
  "run_TransporterCreator g Ctor_NewTCPTransporter o1 = NewTCPTransporter o1"
| "run_TransporterCreator g Ctor_NewTLSTransporter o1 = NewTLSTransporter o1"
| "run_TransporterCreator g Ctor_NewMTLSTransporter o1 = NewMTLSTransporter o1"
| "run_TransporterCreator g Ctor_NewWSTransporter o1 = NewWSTransporter o1"
| "run_TransporterCreator g Ctor_NewWSSTransporter o1 = NewWSSTransporter o1"
| "run_TransporterCreator g Ctor_NewMWSTransporter o1 = NewMWSTransporter o1"
| "run_TransporterCreator g Ctor_NewMWSSTransporter o1 = NewMWSSTransporter o1"
| "run_TransporterCreator g Ctor_NewH2Transporter o1 = NewH2Transporter o1"
| "run_TransporterCreator g Ctor_NewQUICTransporter o1 = NewQUICTransporter o1"
| "run_TransporterCreator g Ctor_NewGunTransporter o1 = NewGunTransporter g o1"

section \<open>Dials through a pool\<close>

text \<open>
  The multiplexing transporters hand the dial of the transporter they embed to the pool, which runs it
  only when no session has room.
\<close>

definition MTLS_DialConn ::
  "('c, 'k tls_conn, 's) smux \<Rightarrow> ('k tls_conn \<Rightarrow> go_error option) \<Rightarrow> Options \<Rightarrow> 'k result \<Rightarrow> muxID \<Rightarrow> int \<Rightarrow> muxID list
     \<Rightarrow> ('c, 'k tls_conn) pool_state \<Rightarrow> 's result \<times> ('c, 'k tls_conn) pool_state" where
  "MTLS_DialConn ops handshake o1 dial i now order st =
     DialMux ops (fst (TLS_DialConn handshake o1 dial)) i now order st"

definition MWS_DialConn ::
  "('c, ws_client_conn, 's) smux \<Rightarrow> dialer \<Rightarrow> Options \<Rightarrow> muxID \<Rightarrow> int \<Rightarrow> muxID list
     \<Rightarrow> ('c, ws_client_conn) pool_state \<Rightarrow> 's result \<times> ('c, ws_client_conn) pool_state" where
  "MWS_DialConn ops dialer o1 i now order st = DialMux ops (WS_DialConn dialer o1) i now order st"

definition MWSS_DialConn ::
  "('c, ws_client_conn, 's) smux \<Rightarrow> dialer \<Rightarrow> Options \<Rightarrow> muxID \<Rightarrow> int \<Rightarrow> muxID list
     \<Rightarrow> ('c, ws_client_conn) pool_state \<Rightarrow> 's result \<times> ('c, ws_client_conn) pool_state" where
  "MWSS_DialConn ops dialer o1 i now order st = DialMux ops (WSS_DialConn dialer o1) i now order st"

lemma DialMux_reuses:
  assumes "pool_wf p" "distinct order" "j \<in> set order" "usable ops p j"
  shows "DialMux ops d1 i now order (p, eff) = DialMux ops d2 i' now order (p, eff)"
  using assms(3,4) by (cases "dropWhile (\<lambda>j. \<not> usable ops p j) order")
    (auto simp: DialMux_selection [OF assms(1,2)] dropWhile_eq_Nil_conv)

text \<open>
  A dial of a multiplexing transporter does not touch the network when a session has room: whatever the
  TLS or websocket dial would answer, the result and the pool are the same.
\<close>

lemma mux_dials_reuse:
  assumes "pool_wf p" "distinct order" "j \<in> set order" "usable ops p j"
    and "pool_wf q" "usable wops q j"
  shows "MTLS_DialConn ops handshake o1 dial i now order (p, eff) = MTLS_DialConn ops handshake' o2 dial' i' now order (p, eff) \<and>
    MWS_DialConn wops dialer o1 i now order (q, weff) = MWS_DialConn wops dialer' o2 i' now order (q, weff) \<and>
    MWSS_DialConn wops dialer o1 i now order (q, weff) = MWSS_DialConn wops dialer' o2 i' now order (q, weff)"
  unfolding MTLS_DialConn_def MWS_DialConn_def MWSS_DialConn_def
  using DialMux_reuses [OF assms(1-4)] DialMux_reuses [OF assms(5,2,3,6)] by blast

lemmas transporter_constructors =
  NewTCPTransporter_def NewTLSTransporter_def NewMTLSTransporter_def NewWSTransporter_def
  NewWSSTransporter_def NewMWSTransporter_def NewMWSSTransporter_def NewH2Transporter_def
  NewQUICTransporter_def NewGunTransporter_def assert_type_def

section \<open>Properties\<close>

lemma quic_DialConn_session:
  assumes "quic_DialConn a t = (r, t', eff)"
  shows "t' = t \<and> (\<forall>s. SessionDialed s \<notin> set eff) \<or>
    (\<exists>s. t' = t\<lparr>quic_session := Some s\<rparr> \<and> (\<forall>s'. SessionDialed s' \<in> set eff \<longrightarrow> s' = s) \<and>
       (\<forall>s0. quic_session t = Some s0 \<longrightarrow> SessionClosed_effect s0 \<in> set eff))"
  using assms by (auto simp: quic_DialConn_def Let_def split: if_splits sum.splits option.splits)

lemma quic_DialConn_sockets:
  "quic_DialConn a t = (r, t', eff) \<Longrightarrow> SocketClosed p \<notin> set eff"
  by (auto simp: quic_DialConn_def Let_def split: if_splits sum.splits option.splits)

lemma quic_dials_sessions:
  "quic_dials as t = (t', eff) \<Longrightarrow>
     (\<forall>s. quic_session t = Some s \<or> SessionDialed s \<in> set eff \<longrightarrow>
        quic_session t' = Some s \<or> SessionClosed_effect s \<in> set eff)"
proof (induction as arbitrary: t t' eff)
  case (Cons a as)
  obtain r t1 eff1 where d: "quic_DialConn a t = (r, t1, eff1)" by (cases "quic_DialConn a t") auto
  obtain t2 eff2 where ds: "quic_dials as t1 = (t2, eff2)" by (cases "quic_dials as t1") auto
  have eq: "t' = t2" "eff = eff1 @ eff2" using Cons.prems d ds by simp_all
  show ?case using Cons.IH [OF ds] quic_DialConn_session [OF d] unfolding eq by auto
qed simp

text \<open>The dials that need a new session and get a socket for it.\<close>

fun sockets_wanted :: "('s, 'p, 'r) quic_answers list \<Rightarrow> 's QUICTransporter \<Rightarrow> 'p list" where
  "sockets_wanted [] t = []"
| "sockets_wanted (a # as) t =
     (if isSessionActive (ended_first a) t then [] else case packet_socket a of Inl _ \<Rightarrow> [] | Inr p \<Rightarrow> [p]) @
     sockets_wanted as (fst (snd (quic_DialConn a t)))"

definition opened_sockets :: "('s, 'p) quic_effect list \<Rightarrow> 'p list" where
  "opened_sockets eff = List.map_filter (\<lambda>e. case e of SocketOpened p \<Rightarrow> Some p | _ \<Rightarrow> None) eff"

lemma opened_sockets_simps [simp]:
  "opened_sockets [] = []"
  "opened_sockets (SocketOpened p # eff) = p # opened_sockets eff"
  "opened_sockets (SocketClosed p # eff) = opened_sockets eff"
  "opened_sockets (SessionClosed_effect s # eff) = opened_sockets eff"
  "opened_sockets (SessionDialed s # eff) = opened_sockets eff"
  by (simp_all add: opened_sockets_def map_filter_simps)

lemma opened_sockets_append [simp]: "opened_sockets (eff1 @ eff2) = opened_sockets eff1 @ opened_sockets eff2"
  by (simp add: opened_sockets_def map_filter_def)

lemma quic_DialConn_opened:
  "quic_DialConn a t = (r, t', eff) \<Longrightarrow>
     opened_sockets eff =
       (if isSessionActive (ended_first a) t then [] else case packet_socket a of Inl _ \<Rightarrow> [] | Inr p \<Rightarrow> [p])"
  by (auto simp: quic_DialConn_def Let_def split: if_splits sum.splits option.splits)

lemma quic_dials_sockets:
  "quic_dials as t = (t', eff) \<Longrightarrow> opened_sockets eff = sockets_wanted as t \<and> (\<forall>p. SocketClosed p \<notin> set eff)"
proof (induction as arbitrary: t t' eff)
  case (Cons a as)
  obtain r t1 eff1 where d: "quic_DialConn a t = (r, t1, eff1)" by (cases "quic_DialConn a t") auto
  obtain t2 eff2 where ds: "quic_dials as t1 = (t2, eff2)" by (cases "quic_dials as t1") auto
  have "eff = eff1 @ eff2" using Cons.prems d ds by simp
  then show ?case using Cons.IH [OF ds] quic_DialConn_opened [OF d] quic_DialConn_sockets [OF d] d by simp
qed simp

text \<open>
  C33: Dials share one QUIC session. After any sequence of dials every session that was ever opened is the
  current one or has been closed; one UDP socket was opened for each dial that found no living
  session, and no socket is ever closed, neither when its session ends nor when the dial on it fails.
\<close>

theorem quic_sessions:
  "case quic_dials as \<lparr>quic_session = None\<rparr> of (t', eff) \<Rightarrow>
     (\<forall>s. SessionDialed s \<in> set eff \<longrightarrow> quic_session t' = Some s \<or> SessionClosed_effect s \<in> set eff) \<and>
     opened_sockets eff = sockets_wanted as \<lparr>quic_session = None\<rparr> \<and> (\<forall>p. SocketClosed p \<notin> set eff)"
proof -
  obtain t' eff where d: "quic_dials as \<lparr>quic_session = None\<rparr> = (t', eff)"
    by (cases "quic_dials as \<lparr>quic_session = None\<rparr>") auto
  show ?thesis using quic_dials_sessions [OF d] quic_dials_sockets [OF d] by (simp add: d)
qed

definition demo_answers :: "bool \<Rightarrow> nat \<Rightarrow> (nat, nat, nat) quic_answers" where
  "demo_answers ended n =
     \<lparr>ended_first = ended, ended_second = False, opened_stream = Inr n, local_remote = (NilUDPAddr, NilUDPAddr),
      closed_session = None, packet_socket = Inr n, dialed_session = (if n = 2 then Inl (ExtErr ''timeout'') else Inr n)\<rparr>"

theorem quic_sessions_witness:
  "quic_dials [demo_answers False 1, demo_answers False 5, demo_answers True 2, demo_answers True 3] \<lparr>quic_session = None\<rparr> =
     (\<lparr>quic_session = Some 3\<rparr>,
      [SocketOpened 1, SessionDialed 1, SessionClosed_effect 1, SocketOpened 2,
       SessionClosed_effect 1, SocketOpened 3, SessionDialed 3]) \<and>
   sockets_wanted [demo_answers False 1, demo_answers False 5, demo_answers True 2, demo_answers True 3] \<lparr>quic_session = None\<rparr> = [1, 2, 3]"
proof -
  let ?as = "[demo_answers False 1, demo_answers False 5, demo_answers True 2, demo_answers True 3]"
  have d: "quic_dials ?as \<lparr>quic_session = None\<rparr> =
     (\<lparr>quic_session = Some 3\<rparr>,
      [SocketOpened 1, SessionDialed 1, SessionClosed_effect 1, SocketOpened 2,
       SessionClosed_effect 1, SocketOpened 3, SessionDialed 3])"
    by (simp add: quic_DialConn_def demo_answers_def isSessionActive_def Let_def)
  from quic_sessions [of ?as] d show ?thesis by simp
qed

text \<open>
  The path a gun client calls is the path its server serves if and only if both have the same service
  name, whatever characters the name contains, and the client calls the stream with the
  description the server registers.
\<close>

theorem gun_service_match:
  "TunCustomName (\<lambda>desc path. Inr (desc, path)) (ServiceName o1) =
     Inr (ServerDesc (ServiceName o1), service_path (ServerDesc (ServiceName o1))) \<and>
   (service_path (ServerDesc (ServiceName o1)) = service_path (ServerDesc (ServiceName o2)) \<longleftrightarrow>
      ServiceName o1 = ServiceName o2)"
  by (auto simp: TunCustomName_def ServerDesc_def service_path_def)

text \<open>
  An HTTP/2 dial asks with PUT for the configured path at the remote address, with the option as its
  host if there is one. Only status 200 gives a connection, which closes both ends of the pipe and
  the response body; a response with any other status is an error that leaves all three open.
\<close>

theorem h2_dial:
  "case h2_DialConn respond o1 of
     (Inr (c, closers), closed) \<Rightarrow> respond (h2_request o1) = Inr 200 \<and> closers = [PipeReader, PipeWriter, ResponseBody] \<and>
       closed = [] \<and> \<not> http_isClosed c
   | (Inl err, closed) \<Rightarrow> closed = [] \<and>
       (respond (h2_request o1) = Inl err \<or> (\<exists>status. respond (h2_request o1) = Inr status \<and> status \<noteq> 200 \<and> err = UnexpectedStatus status))"
  by (auto simp: h2_DialConn_def http_isClosed_def NewHttpConnection_def split: sum.splits)

text \<open>
  No constructor of a transporter panics in a type assertion, each builds the stack its mode names, and
  only the gRPC one can fail, with the error of the library.
\<close>

theorem transporter_stacks:
  "run_TransporterCreator g ctor o1 =
     (let tls = TLSTransporter TCPTransporter;
          h2cfg = (buildClientTLSConfig o1)\<lparr>cfg_NextProtos := [''h2'']\<rparr>;
          creds = \<lparr>grpc_config = h2cfg, grpc_fingerprint = Fingerprint o1\<rparr>
      in case ctor of
           Ctor_NewTCPTransporter \<Rightarrow> Inr TCPTransporter
         | Ctor_NewTLSTransporter \<Rightarrow> Inr tls
         | Ctor_NewMTLSTransporter \<Rightarrow> Inr (MTLSTransporter tls (Mux o1))
         | Ctor_NewWSTransporter \<Rightarrow> Inr (WSTransporter TCPTransporter)
         | Ctor_NewWSSTransporter \<Rightarrow> Inr (WSSTransporter tls)
         | Ctor_NewMWSTransporter \<Rightarrow> Inr (MWSTransporter (WSTransporter TCPTransporter) (Mux o1))
         | Ctor_NewMWSSTransporter \<Rightarrow> Inr (MWSSTransporter (WSSTransporter tls) (Mux o1))
         | Ctor_NewH2Transporter \<Rightarrow> Inr (H2Transporter TCPTransporter h2cfg)
         | Ctor_NewQUICTransporter \<Rightarrow> Inr QUICTransporterT
         | Ctor_NewGunTransporter \<Rightarrow>
             (case g (GetRemoteAddr o1) creds of Some err \<Rightarrow> Inl err | None \<Rightarrow> Inr (GunTransporter TCPTransporter creds)))"
  by (cases ctor)
    (simp_all add: transporter_constructors pool_limit_def NewMuxPool_def NewGrpcTLS_def Let_def split: option.split)

end
