(* ===== verification/Listeners.thy ===== *)
theory Listeners
  imports Transporters
begin

text \<open>
  The listeners of src/gost/proxy/tcp.go, udp.go and src/gost/proxy/server: how sockets are opened, how the
  constructors put a listener together, which loop its \<open>Serve\<close> runs, and the HTTP/2 and gRPC handlers
  that hand connections to the queue. Name resolution, sockets and certificates are parameters.
\<close>

section \<open>Sockets\<close>

text \<open>\<open>Network\<close> and \<open>String\<close> of an address; a nil pointer prints as \<open><nil>\<close>.\<close>

fun addr_Network :: "net_addr \<Rightarrow> bytes" where
  "addr_Network (TCPAddr ip p) = ''tcp''"
| "addr_Network NilTCPAddr = ''tcp''"
| "addr_Network (UDPAddr ip p) = ''udp''"
| "addr_Network NilUDPAddr = ''udp''"

definition JoinHostPort :: "bytes \<Rightarrow> nat \<Rightarrow> bytes" where
  "JoinHostPort host port =
     (if CHR '':'' \<in> set host then ''['' @ host @ '']'' else host) @ '':'' @ decimal port"

fun addr_String :: "net_addr \<Rightarrow> bytes" where
  "addr_String (TCPAddr ip p) = JoinHostPort ip p"
| "addr_String (UDPAddr ip p) = JoinHostPort ip p"
| "addr_String NilTCPAddr = ''<nil>''"
| "addr_String NilUDPAddr = ''<nil>''"

text \<open>
  The environment: \<open>net.ResolveTCPAddr\<close>, \<open>net.ResolveUDPAddr\<close>, \<open>net.ListenConfig\<close> with the registered
  controllers, the key pair and the QUIC listener.
\<close>

record ('ln, 'cert) listen_env =
  env_resolve_tcp :: "bytes \<Rightarrow> (bytes \<times> nat) result"
  env_resolve_udp :: "bytes \<Rightarrow> (bytes \<times> nat) result"
  env_listen :: "bytes \<Rightarrow> bytes \<Rightarrow> 'ln result"
  env_listen_packet :: "bytes \<Rightarrow> bytes \<Rightarrow> 'ln result"
  env_key_pair :: "bytes \<Rightarrow> bytes \<Rightarrow> 'cert result"
  env_quic_listen :: "'ln \<Rightarrow> go_error option"

text \<open>
  A failed resolution gives a nil pointer, whose error is dropped; as an argument of interface type
  it is not nil.
\<close>

definition ResolveTCPAddr :: "('ln, 'cert) listen_env \<Rightarrow> bytes \<Rightarrow> net_addr" where
  "ResolveTCPAddr env s = (case env_resolve_tcp env s of Inl _ \<Rightarrow> NilTCPAddr | Inr (ip, p) \<Rightarrow> TCPAddr ip p)"

definition ResolveUDPAddr :: "('ln, 'cert) listen_env \<Rightarrow> bytes \<Rightarrow> net_addr" where
  "ResolveUDPAddr env s = (case env_resolve_udp env s of Inl _ \<Rightarrow> NilUDPAddr | Inr (ip, p) \<Rightarrow> UDPAddr ip p)"

definition Listen :: "('ln, 'cert) listen_env \<Rightarrow> net_addr option \<Rightarrow> 'ln result" where
  "Listen env srcAddr =
     (let srcAddr = (case srcAddr of None \<Rightarrow> TCPAddr ''0.0.0.0'' 0 | Some a \<Rightarrow> a)
      in env_listen env (addr_Network srcAddr) (addr_String srcAddr))"

definition ListenPacket :: "('ln, 'cert) listen_env \<Rightarrow> net_addr option \<Rightarrow> 'ln result" where
  "ListenPacket env srcAddr =
     (let srcAddr = (case srcAddr of None \<Rightarrow> UDPAddr ''0.0.0.0'' 0 | Some a \<Rightarrow> a)
      in env_listen_packet env (addr_Network srcAddr) (addr_String srcAddr))"

text \<open>
  \<open>tcpKeepAliveListener.Accept\<close>: the keep-alive period is in nanoseconds; the result lists what was
  set on the connection.
\<close>

datatype keep_alive = SetKeepAlive bool | SetKeepAlivePeriod int

definition KEEP_ALIVE_TIME :: int where
  "KEEP_ALIVE_TIME = 180 * 1000000000"

definition keepalive_Accept :: "'c result \<Rightarrow> 'c result \<times> keep_alive list" where
  "keepalive_Accept accept =
     (case accept of
        Inl err \<Rightarrow> (Inl err, [])
      | Inr tc \<Rightarrow> (Inr tc, [SetKeepAlive True, SetKeepAlivePeriod KEEP_ALIVE_TIME]))"

section \<open>Listeners\<close>

record 'cert server_tls =
  srv_cert :: 'cert
  srv_NextProtos :: "bytes list"

definition buildServerTLSConfig :: "('ln, 'cert) listen_env \<Rightarrow> Options \<Rightarrow> 'cert server_tls result" where
  "buildServerTLSConfig env o1 =
     (if Cert o1 = [] \<or> Key o1 = [] then Inl NoCertSpecified
      else case env_key_pair env (Cert o1) (Key o1) of
        Inl err \<Rightarrow> Inl err
      | Inr cert \<Rightarrow> Inr \<lparr>srv_cert = cert, srv_NextProtos = []\<rparr>)"

datatype http_handler = HandleUpgrade | HandleMuxUpgrade | HandleH2

text \<open>Times in seconds, 0 for a field that is not set.\<close>

record http_server =
  hs_Addr :: bytes
  hs_pattern :: bytes
  hs_handler :: http_handler
  hs_ReadHeaderTimeout :: nat
  hs_MaxHeaderBytes :: nat

text \<open>
  A listener: its Go type, the socket, the TLS layers put around it (the outermost last), the
  capacity of \<open>ConnChan\<close>, and what its type adds.
\<close>

datatype listener_type =
    T_TCPListener | T_TLSListener | T_MTLSListener | T_WSListener | T_WSSListener
  | T_MWSListener | T_MWSSListener | T_H2Listener | T_QUICListener | T_GunListener

record ('ln, 'cert) plugin_listener =
  l_type :: listener_type
  l_socket :: 'ln
  l_tls :: "'cert server_tls list"
  l_chan :: nat
  l_path :: bytes
  l_compression :: bool
  l_http :: "http_server option"
  l_service :: "('cert server_tls \<times> service_desc) option"
  l_addr :: net_addr

text \<open>A constructor returns the listener or an error, and the sockets it left open without an owner.\<close>

type_synonym ('ln, 'cert) built = "('ln, 'cert) plugin_listener result \<times> 'ln list"

definition NewTCPListener :: "('ln, 'cert) listen_env \<Rightarrow> Options \<Rightarrow> ('ln, 'cert) plugin_listener result" where
  "NewTCPListener env o1 =
     (let lAddr = ResolveTCPAddr env (GetLocalAddr o1)
      in case Listen env (Some lAddr) of
           Inl err \<Rightarrow> Inl err
         | Inr ln \<Rightarrow>
             Inr \<lparr>l_type = T_TCPListener, l_socket = ln, l_tls = [], l_chan = 1024, l_path = [],
                  l_compression = False, l_http = None, l_service = None, l_addr = lAddr\<rparr>)"

text \<open>
  The shape of the constructors: make the inner listener, assert its type, and continue; when the
  continuation fails the socket of the inner one stays open.
\<close>

definition wrap_listener ::
  "listener_type \<Rightarrow> ('ln, 'cert) built \<Rightarrow> (('ln, 'cert) plugin_listener \<Rightarrow> ('ln, 'cert) plugin_listener result)
     \<Rightarrow> ('ln, 'cert) built" where
  "wrap_listener ty inner f =
     (case inner of
        (Inl err, left) \<Rightarrow> (Inl err, left)
      | (Inr l, left) \<Rightarrow>
          (case f l of
             Inl err \<Rightarrow> (Inl err, left @ [l_socket l])
           | Inr l' \<Rightarrow>
               if l_type l \<noteq> ty then (Inl (GoPanic ''interface conversion''), left @ [l_socket l])
               else (Inr l', left)))"

definition NewTLSListener :: "('ln, 'cert) listen_env \<Rightarrow> Options \<Rightarrow> ('ln, 'cert) built" where
  "NewTLSListener env o1 =
     wrap_listener T_TCPListener (NewTCPListener env o1, [])
       (\<lambda>l. bind_result (buildServerTLSConfig env o1)
          (\<lambda>cfg. Inr (l\<lparr>l_type := T_TLSListener, l_tls := l_tls l @ [cfg]\<rparr>)))"

definition NewMTLSListener :: "('ln, 'cert) listen_env \<Rightarrow> Options \<Rightarrow> ('ln, 'cert) built" where
  "NewMTLSListener env o1 =
     wrap_listener T_TLSListener (NewTLSListener env o1) (\<lambda>l. Inr (l\<lparr>l_type := T_MTLSListener\<rparr>))"

text \<open>
  \<open>mux.Handle(pattern, handler)\<close> of \<open>net/http\<close> panics for the empty pattern. The module asks for Go 1.20, so
  newer tool chains keep these rules for patterns too.
\<close>

definition mux_Handle :: "bytes \<Rightarrow> 'a \<Rightarrow> 'a result" where
  "mux_Handle pattern x = (if pattern = [] then Inl (GoPanic ''http: invalid pattern'') else Inr x)"

definition NewWSListener :: "('ln, 'cert) listen_env \<Rightarrow> Options \<Rightarrow> ('ln, 'cert) built" where
  "NewWSListener env o1 =
     wrap_listener T_TCPListener (NewTCPListener env o1, [])
       (\<lambda>l. mux_Handle (Path o1) (l\<lparr>l_type := T_WSListener, l_path := Path o1, l_compression := \<not> Nocomp o1,
          l_http := Some \<lparr>hs_Addr = GetLocalAddr o1, hs_pattern = Path o1, hs_handler = HandleUpgrade,
            hs_ReadHeaderTimeout = 30, hs_MaxHeaderBytes = 2048\<rparr>\<rparr>))"

definition NewWSSListener :: "('ln, 'cert) listen_env \<Rightarrow> Options \<Rightarrow> ('ln, 'cert) built" where
  "NewWSSListener env o1 =
     wrap_listener T_WSListener (NewWSListener env o1)
       (\<lambda>l. bind_result (buildServerTLSConfig env o1)
          (\<lambda>cfg. Inr (l\<lparr>l_type := T_WSSListener, l_tls := l_tls l @ [cfg]\<rparr>)))"

definition NewMWSListener :: "('ln, 'cert) listen_env \<Rightarrow> Options \<Rightarrow> ('ln, 'cert) built" where
  "NewMWSListener env o1 =
     wrap_listener T_WSListener (NewWSListener env o1)
       (\<lambda>l. mux_Handle (Path o1) (l\<lparr>l_type := T_MWSListener,
          l_http := map_option (\<lambda>s. s\<lparr>hs_pattern := Path o1, hs_handler := HandleMuxUpgrade\<rparr>) (l_http l)\<rparr>))"

definition NewMWSSListener :: "('ln, 'cert) listen_env \<Rightarrow> Options \<Rightarrow> ('ln, 'cert) built" where
  "NewMWSSListener env o1 =
     wrap_listener T_MWSListener (NewMWSListener env o1)
       (\<lambda>l. bind_result (buildServerTLSConfig env o1)
          (\<lambda>cfg. Inr (l\<lparr>l_type := T_MWSSListener, l_tls := l_tls l @ [cfg]\<rparr>)))"

definition NewH2Listener :: "('ln, 'cert) listen_env \<Rightarrow> Options \<Rightarrow> ('ln, 'cert) built" where
  "NewH2Listener env o1 =
     wrap_listener T_TCPListener (NewTCPListener env o1, [])
       (\<lambda>l. bind_result (buildServerTLSConfig env o1)
          (\<lambda>cfg. mux_Handle (Path o1) (l\<lparr>l_type := T_H2Listener, l_tls := l_tls l @ [cfg\<lparr>srv_NextProtos := [''h2'']\<rparr>],
             l_path := Path o1, l_addr := ResolveTCPAddr env (GetLocalAddr o1),
             l_http := Some \<lparr>hs_Addr = GetLocalAddr o1, hs_pattern = Path o1, hs_handler = HandleH2,
               hs_ReadHeaderTimeout = 30, hs_MaxHeaderBytes = 0\<rparr>\<rparr>)))"

text \<open>The gRPC server does its TLS itself, with the credentials.\<close>

definition NewGunListener :: "('ln, 'cert) listen_env \<Rightarrow> Options \<Rightarrow> ('ln, 'cert) built" where
  "NewGunListener env o1 =
     wrap_listener T_TCPListener (NewTCPListener env o1, [])
       (\<lambda>l. bind_result (buildServerTLSConfig env o1)
          (\<lambda>cfg. Inr (l\<lparr>l_type := T_GunListener, l_service := Some (cfg, ServerDesc (ServiceName o1))\<rparr>)))"

definition NewQUICListener :: "('ln, 'cert) listen_env \<Rightarrow> Options \<Rightarrow> ('ln, 'cert) built" where
  "NewQUICListener env o1 =
     (case buildServerTLSConfig env o1 of
        Inl err \<Rightarrow> (Inl err, [])
      | Inr cfg \<Rightarrow>
          let lAddr = ResolveUDPAddr env (GetLocalAddr o1)
          in (case ListenPacket env (Some lAddr) of
                Inl err \<Rightarrow> (Inl err, [])
              | Inr pConn \<Rightarrow>
                  (case env_quic_listen env pConn of
                     Some err \<Rightarrow> (Inl err, [pConn])
                   | None \<Rightarrow>
                       (Inr \<lparr>l_type = T_QUICListener, l_socket = pConn, l_tls = [cfg\<lparr>srv_NextProtos := [''h3'']\<rparr>],
                          l_chan = 1024, l_path = [], l_compression = False, l_http = None, l_service = None,
                          l_addr = lAddr\<rparr>, []))))"

fun run_ListenerCreator :: "('ln, 'cert) listen_env \<Rightarrow> ListenerCreator \<Rightarrow> Options \<Rightarrow> ('ln, 'cert) built" where
  "run_ListenerCreator env Ctor_NewTCPListener o1 = (NewTCPListener env o1, [])"
| "run_ListenerCreator env Ctor_NewTLSListener o1 = NewTLSListener env o1"
| "run_ListenerCreator env Ctor_NewMTLSListener o1 = NewMTLSListener env o1"
| "run_ListenerCreator env Ctor_NewWSListener o1 = NewWSListener env o1"
| "run_ListenerCreator env Ctor_NewWSSListener o1 = NewWSSListener env o1"
| "run_ListenerCreator env Ctor_NewMWSListener o1 = NewMWSListener env o1"
| "run_ListenerCreator env Ctor_NewMWSSListener o1 = NewMWSSListener env o1"
| "run_ListenerCreator env Ctor_NewH2Listener o1 = NewH2Listener env o1"
| "run_ListenerCreator env Ctor_NewQUICListener o1 = NewQUICListener env o1"
| "run_ListenerCreator env Ctor_NewGunListener o1 = NewGunListener env o1"

text \<open>What \<open>Serve\<close> runs, by the method of the type or of the type it embeds.\<close>

datatype serve_loop = LoopKeepAccepting | LoopKeepMuxAccepting | LoopHTTP | LoopGRPC | LoopQUIC

fun Serve_loop :: "listener_type \<Rightarrow> serve_loop" where
  "Serve_loop T_TCPListener = LoopKeepAccepting"
| "Serve_loop T_TLSListener = LoopKeepAccepting"
| "Serve_loop T_MTLSListener = LoopKeepMuxAccepting"
| "Serve_loop T_WSListener = LoopHTTP"
| "Serve_loop T_WSSListener = LoopHTTP"
| "Serve_loop T_MWSListener = LoopHTTP"
| "Serve_loop T_MWSSListener = LoopHTTP"
| "Serve_loop T_H2Listener = LoopHTTP"
| "Serve_loop T_GunListener = LoopGRPC"
| "Serve_loop T_QUICListener = LoopQUIC"

section \<open>Handlers that wait for their connection\<close>

text \<open>
  \<open>serveHTTP\<close> (h2.go) and \<open>Tun\<close> (gun.go) put the connection into the queue, or close it themselves if the
  queue is full, and then wait until it is closed: \<open>Waits\<close> is the handler blocked on \<open>Done\<close>.
\<close>

datatype handler_end = Returns | Waits

definition hand_over :: "'c \<Rightarrow> 'c accept_state \<Rightarrow> handler_end \<times> 'c accept_state" where
  "hand_over conn s =
     (if fst (chan_try_send (connChan s) conn) then (Waits, deliver conn s) else (Returns, deliver conn s))"

record h2_response =
  resp_status :: nat
  resp_header :: header
  resp_flushed :: bool

definition H2_serveHTTP ::
  "('ln, 'cert) listen_env \<Rightarrow> ('ln, 'cert) plugin_listener \<Rightarrow> bool \<Rightarrow> bytes \<Rightarrow> http_request \<Rightarrow> HttpConnection accept_state
     \<Rightarrow> h2_response \<times> handler_end \<times> HttpConnection accept_state" where
  "H2_serveHTTP env l flusher remote r s =
     (if r_path r \<noteq> l_path l then (\<lparr>resp_status = 404, resp_header = [], resp_flushed = False\<rparr>, Returns, s)
      else
        (\<lparr>resp_status = 200, resp_header = header_Set ''Cache-Control'' ''no-store'' [], resp_flushed = flusher\<rparr>,
         hand_over (NewHttpConnection flusher (Some (l_addr l)) (Some (ResolveTCPAddr env remote))) s))"

definition Gun_Tun ::
  "('ln, 'cert) plugin_listener \<Rightarrow> bytes result list \<Rightarrow> net_addr option \<Rightarrow> GunConnection accept_state
     \<Rightarrow> handler_end \<times> GunConnection accept_state" where
  "Gun_Tun l answers pr s = hand_over (NewGunConnection answers pr (Some (l_addr l))) s"

section \<open>Lemmas\<close>

lemma wrap_listener_simps [simp]:
  "wrap_listener ty (Inl err, left) f = (Inl err, left)"
  "wrap_listener ty (Inr l, left) f =
     (case f l of
        Inl err \<Rightarrow> (Inl err, left @ [l_socket l])
      | Inr l' \<Rightarrow> if l_type l \<noteq> ty then (Inl (GoPanic ''interface conversion''), left @ [l_socket l]) else (Inr l', left))"
  by (simp_all add: wrap_listener_def)

text \<open>The TCP listener every other one but QUIC is built on.\<close>

definition base_listener :: "('ln, 'cert) listen_env \<Rightarrow> Options \<Rightarrow> 'ln \<Rightarrow> ('ln, 'cert) plugin_listener" where
  "base_listener env o1 ln =
     \<lparr>l_type = T_TCPListener, l_socket = ln, l_tls = [], l_chan = 1024, l_path = [],
      l_compression = False, l_http = None, l_service = None, l_addr = ResolveTCPAddr env (GetLocalAddr o1)\<rparr>"

lemma NewTCPListener_base:
  "NewTCPListener env o1 =
     map_sum id (base_listener env o1) (Listen env (Some (ResolveTCPAddr env (GetLocalAddr o1))))"
  by (simp add: NewTCPListener_def base_listener_def Let_def split: sum.split)

lemmas listener_constructors =
  NewTLSListener_def NewMTLSListener_def NewWSListener_def NewWSSListener_def NewMWSListener_def
  NewMWSSListener_def NewH2Listener_def NewGunListener_def

definition needs_cert :: "ListenerCreator \<Rightarrow> bool" where
  "needs_cert ctor \<longleftrightarrow> ctor \<notin> {Ctor_NewTCPListener, Ctor_NewWSListener, Ctor_NewMWSListener}"

definition uses_mux :: "ListenerCreator \<Rightarrow> bool" where
  "uses_mux ctor \<longleftrightarrow>
     ctor \<in> {Ctor_NewWSListener, Ctor_NewWSSListener, Ctor_NewMWSListener, Ctor_NewMWSSListener, Ctor_NewH2Listener}"

text \<open>
  What can still fail once the socket is open: the certificate, and the registration of the path. Only
  the HTTP/2 listener loads the certificate first.
\<close>

definition cert_failure :: "('ln, 'cert) listen_env \<Rightarrow> ListenerCreator \<Rightarrow> Options \<Rightarrow> go_error option" where
  "cert_failure env ctor o1 =
     (if needs_cert ctor then case_sum Some (\<lambda>_. None) (buildServerTLSConfig env o1) else None)"

definition path_failure :: "ListenerCreator \<Rightarrow> Options \<Rightarrow> go_error option" where
  "path_failure ctor o1 =
     (if uses_mux ctor \<and> Path o1 = [] then Some (GoPanic ''http: invalid pattern'') else None)"

definition first_of :: "'a option \<Rightarrow> 'a option \<Rightarrow> 'a option" where
  "first_of a b = (case a of None \<Rightarrow> b | Some x \<Rightarrow> Some x)"

definition late_failure :: "('ln, 'cert) listen_env \<Rightarrow> ListenerCreator \<Rightarrow> Options \<Rightarrow> go_error option" where
  "late_failure env ctor o1 =
     (if ctor = Ctor_NewH2Listener then first_of (cert_failure env ctor o1) (path_failure ctor o1)
      else first_of (path_failure ctor o1) (cert_failure env ctor o1))"

lemmas late_failure_defs = late_failure_def first_of_def cert_failure_def path_failure_def uses_mux_def needs_cert_def

text \<open>The outcome of a constructor, with the fallible inputs resolved.\<close>

lemma tcp_based_outcome:
  assumes "ctor \<noteq> Ctor_NewQUICListener"
  shows "case Listen env (Some (ResolveTCPAddr env (GetLocalAddr o1))) of
      Inl err \<Rightarrow> run_ListenerCreator env ctor o1 = (Inl err, [])
    | Inr ln \<Rightarrow>
        (case late_failure env ctor o1 of
           Some err \<Rightarrow> run_ListenerCreator env ctor o1 = (Inl err, [ln])
         | None \<Rightarrow> \<exists>l. run_ListenerCreator env ctor o1 = (Inr l, []) \<and> l_socket l = ln \<and> l_chan l = 1024)"
proof (cases "Listen env (Some (ResolveTCPAddr env (GetLocalAddr o1)))")
  case (Inl err)
  then show ?thesis using assms
    by (cases ctor) (simp_all add: listener_constructors NewTCPListener_base)
next
  case ln: (Inr ln)
  show ?thesis
  proof (cases "buildServerTLSConfig env o1"; cases "Path o1 = []")
    fix err assume "buildServerTLSConfig env o1 = Inl err" "Path o1 = []"
    then show ?thesis using assms ln
      by (cases ctor) (simp_all add: listener_constructors NewTCPListener_base base_listener_def late_failure_defs mux_Handle_def)
  next
    fix err assume "buildServerTLSConfig env o1 = Inl err" "Path o1 \<noteq> []"
    then show ?thesis using assms ln
      by (cases ctor) (simp_all add: listener_constructors NewTCPListener_base base_listener_def late_failure_defs mux_Handle_def)
  next
    fix cfg assume "buildServerTLSConfig env o1 = Inr cfg" "Path o1 = []"
    then show ?thesis using assms ln
      by (cases ctor) (simp_all add: listener_constructors NewTCPListener_base base_listener_def late_failure_defs mux_Handle_def)
  next
    fix cfg assume "buildServerTLSConfig env o1 = Inr cfg" "Path o1 \<noteq> []"
    then show ?thesis using assms ln
      by (cases ctor) (simp_all add: listener_constructors NewTCPListener_base base_listener_def late_failure_defs mux_Handle_def)
  qed
qed

lemma decimal_0: "decimal 0 = ''0''"
  by code_simp

section \<open>Layers of a transport\<close>

datatype layer = L_TCP | L_QUIC | L_TLS | L_WebSocket | L_HTTP2 | L_GRPC | L_smux

fun transporter_layers :: "transporter \<Rightarrow> layer list" where
  "transporter_layers TCPTransporter = [L_TCP]"
| "transporter_layers (TLSTransporter t) = transporter_layers t @ [L_TLS]"
| "transporter_layers (MTLSTransporter t n) = transporter_layers t @ [L_smux]"
| "transporter_layers (WSTransporter t) = transporter_layers t @ [L_WebSocket]"
| "transporter_layers (WSSTransporter t) = transporter_layers t @ [L_WebSocket]"
| "transporter_layers (MWSTransporter t n) = transporter_layers t @ [L_smux]"
| "transporter_layers (MWSSTransporter t n) = transporter_layers t @ [L_smux]"
| "transporter_layers (H2Transporter t cfg) = transporter_layers t @ [L_TLS, L_HTTP2]"
| "transporter_layers QUICTransporterT = [L_QUIC]"
| "transporter_layers (GunTransporter t creds) = transporter_layers t @ [L_TLS, L_GRPC]"

definition handler_layers :: "http_handler \<Rightarrow> layer list" where
  "handler_layers h = (case h of HandleUpgrade \<Rightarrow> [L_WebSocket] | HandleMuxUpgrade \<Rightarrow> [L_WebSocket, L_smux]
     | HandleH2 \<Rightarrow> [L_HTTP2])"

definition listener_layers :: "('ln, 'cert) plugin_listener \<Rightarrow> layer list" where
  "listener_layers l =
     (if Serve_loop (l_type l) = LoopQUIC then [L_QUIC] else L_TCP # map (\<lambda>_. L_TLS) (l_tls l)) @
     (if Serve_loop (l_type l) = LoopHTTP then (case l_http l of None \<Rightarrow> [] | Some s \<Rightarrow> handler_layers (hs_handler s)) else []) @
     (if Serve_loop (l_type l) = LoopGRPC then (case l_service l of None \<Rightarrow> [] | Some _ \<Rightarrow> [L_TLS, L_GRPC]) else []) @
     (if Serve_loop (l_type l) = LoopKeepMuxAccepting then [L_smux] else [])"

text \<open>The same table for both sides, by constructor.\<close>

fun creator_layers :: "ListenerCreator \<Rightarrow> layer list" where
  "creator_layers Ctor_NewTCPListener = [L_TCP]"
| "creator_layers Ctor_NewTLSListener = [L_TCP, L_TLS]"
| "creator_layers Ctor_NewMTLSListener = [L_TCP, L_TLS, L_smux]"
| "creator_layers Ctor_NewWSListener = [L_TCP, L_WebSocket]"
| "creator_layers Ctor_NewWSSListener = [L_TCP, L_TLS, L_WebSocket]"
| "creator_layers Ctor_NewMWSListener = [L_TCP, L_WebSocket, L_smux]"
| "creator_layers Ctor_NewMWSSListener = [L_TCP, L_TLS, L_WebSocket, L_smux]"
| "creator_layers Ctor_NewH2Listener = [L_TCP, L_TLS, L_HTTP2]"
| "creator_layers Ctor_NewQUICListener = [L_QUIC]"
| "creator_layers Ctor_NewGunListener = [L_TCP, L_TLS, L_GRPC]"

lemma listener_layers_creator:
  assumes "run_ListenerCreator env ctor o1 = (Inr l, left)"
  shows "listener_layers l = creator_layers ctor"
proof (cases "ctor = Ctor_NewQUICListener")
  case True
  then show ?thesis using assms
    by (auto simp: NewQUICListener_def listener_layers_def Let_def split: sum.splits option.splits)
next
  case False
  obtain ln where ln: "Listen env (Some (ResolveTCPAddr env (GetLocalAddr o1))) = Inr ln"
    using tcp_based_outcome [OF False, of env o1] assms
    by (cases "Listen env (Some (ResolveTCPAddr env (GetLocalAddr o1)))") auto
  have fine: "late_failure env ctor o1 = None"
    using tcp_based_outcome [OF False, of env o1] assms ln
    by (cases "late_failure env ctor o1") auto
  have m: "uses_mux ctor \<longrightarrow> Path o1 \<noteq> []"
    using fine by (auto simp: late_failure_def first_of_def path_failure_def split: option.splits if_splits)
  show ?thesis
  proof (cases "buildServerTLSConfig env o1")
    case (Inl err)
    then show ?thesis using assms False ln m
      by (cases ctor) (auto simp: uses_mux_def mux_Handle_def listener_constructors NewTCPListener_base base_listener_def listener_layers_def handler_layers_def)
  next
    case (Inr cfg)
    then show ?thesis using assms False ln m
      by (cases ctor) (auto simp: uses_mux_def mux_Handle_def listener_constructors NewTCPListener_base base_listener_def listener_layers_def handler_layers_def)
  qed
qed

lemma transporter_layers_creator:
  assumes "run_TransporterCreator g tctor o2 = Inr t"
    and "map_of transporter_table m = Some tctor" and "map_of listener_table m = Some lctor"
  shows "transporter_layers t = creator_layers lctor"
  using assms
  by (cases tctor)
    (auto simp: transporter_table_def listener_table_def transporter_constructors Let_def split: if_splits option.splits)

text \<open>An environment in which everything but the resolution of names works.\<close>

definition demo_env :: "(nat, nat) listen_env" where
  "demo_env =
     \<lparr>env_resolve_tcp = (\<lambda>_. Inl (ExtErr ''no such host'')), env_resolve_udp = (\<lambda>_. Inl (ExtErr ''no such host'')),
      env_listen = (\<lambda>n a. if a = ''<nil>'' then Inl (ExtErr ''missing port in address'') else Inr 3),
      env_listen_packet = (\<lambda>n a. Inr 4), env_key_pair = (\<lambda>c k. Inr 1), env_quic_listen = (\<lambda>_. None)\<rparr>"

section \<open>Properties\<close>

text \<open>
  Client and server of a mode speak the same protocol: for every mode name that is registered, the
  transporter its client builds and the listener its server builds, whatever the other options on
  either side, have the same stack of TCP or QUIC, TLS, websocket, HTTP/2, gRPC and smux.
\<close>

theorem modes_match:
  assumes "GetListenerCreator m (init_packages empty_registry) = Inr lctor"
    and "GetTransporterCreator m (init_packages empty_registry) = Inr tctor"
    and "run_ListenerCreator env lctor o1 = (Inr l, left)"
    and "run_TransporterCreator g tctor o2 = Inr t"
  shows "transporter_layers t = listener_layers l"
proof -
  have "map_of listener_table m = Some lctor" "map_of transporter_table m = Some tctor"
    using assms(1,2) by (simp_all add: listener_lookup transporter_lookup split: option.splits)
  then show ?thesis
    using transporter_layers_creator [OF assms(4)] listener_layers_creator [OF assms(3)] by simp
qed

theorem modes_match_witness:
  "\<exists>l t. run_ListenerCreator (demo_env\<lparr>env_resolve_tcp := \<lambda>_. Inr (''127.0.0.1'', 1984)\<rparr>) Ctor_NewMWSSListener
      (flag_defaults\<lparr>Cert := ''c'', Key := ''k''\<rparr>) = (Inr l, []) \<and>
     run_TransporterCreator (\<lambda>_ _. None) Ctor_NewMWSSTransporter flag_defaults = Inr t \<and>
     transporter_layers t = listener_layers l"
proof -
  let ?env = "demo_env\<lparr>env_resolve_tcp := \<lambda>_. Inr (''127.0.0.1'', 1984)\<rparr>"
  let ?o = "flag_defaults\<lparr>Cert := ''c'', Key := ''k''\<rparr>"
  have s: "\<not> isl (buildServerTLSConfig ?env ?o)" by (simp add: buildServerTLSConfig_def demo_env_def)
  have "Listen ?env (Some (ResolveTCPAddr ?env (GetLocalAddr ?o))) = Inr 3"
    by (simp add: Listen_def ResolveTCPAddr_def demo_env_def JoinHostPort_def)
  then obtain l where l: "run_ListenerCreator ?env Ctor_NewMWSSListener ?o = (Inr l, [])"
    using tcp_based_outcome [of Ctor_NewMWSSListener ?env ?o] s
    by (auto simp: late_failure_defs flag_defaults_def split: sum.splits)
  obtain t where t: "run_TransporterCreator (\<lambda>_ _. None) Ctor_NewMWSSTransporter flag_defaults = Inr t"
    by (simp add: transporter_constructors)
  have "GetListenerCreator ''mwss'' (init_packages empty_registry) = Inr Ctor_NewMWSSListener"
    and "GetTransporterCreator ''mwss'' (init_packages empty_registry) = Inr Ctor_NewMWSSTransporter"
    by (simp_all add: listener_lookup transporter_lookup listener_table_def transporter_table_def)
  from modes_match [OF this l t] l t show ?thesis by blast
qed

text \<open>
  A local address that does not resolve is never replaced by the default one: the nil pointer
  that the resolver returns is not the nil interface, so both TCP and UDP listeners ask for the
  address \<open><nil>\<close>; only the QUIC client, which passes nil itself, gets \<open>0.0.0.0:0\<close>.
\<close>

theorem unresolved_local_address:
  assumes "env_resolve_tcp env (GetLocalAddr o1) = Inl e1" and "env_resolve_udp env (GetLocalAddr o1) = Inl e2"
  shows "Listen env (Some (ResolveTCPAddr env (GetLocalAddr o1))) = env_listen env ''tcp'' ''<nil>'' \<and>
    ListenPacket env (Some (ResolveUDPAddr env (GetLocalAddr o1))) = env_listen_packet env ''udp'' ''<nil>'' \<and>
    ListenPacket env None = env_listen_packet env ''udp'' ''0.0.0.0:0'' \<and>
    (\<forall>err. env_listen env ''tcp'' ''<nil>'' = Inl err \<and> ctor \<noteq> Ctor_NewQUICListener \<longrightarrow>
       run_ListenerCreator env ctor o1 = (Inl err, []))"
  using assms tcp_based_outcome [of ctor env o1]
  by (auto simp: ResolveTCPAddr_def ResolveUDPAddr_def Listen_def ListenPacket_def JoinHostPort_def decimal_0)

theorem unresolved_local_address_witness:
  "run_ListenerCreator demo_env Ctor_NewWSListener (flag_defaults\<lparr>LocalAddr := ''no.such.host''\<rparr>) =
     (Inl (ExtErr ''missing port in address''), [])"
proof -
  let ?o = "flag_defaults\<lparr>LocalAddr := ''no.such.host''\<rparr>"
  have "env_resolve_tcp demo_env (GetLocalAddr ?o) = Inl (ExtErr ''no such host'')"
    and "env_resolve_udp demo_env (GetLocalAddr ?o) = Inl (ExtErr ''no such host'')"
    and "env_listen demo_env ''tcp'' ''<nil>'' = Inl (ExtErr ''missing port in address'')"
    by (simp_all add: demo_env_def)
  with unresolved_local_address [of demo_env ?o _ _ Ctor_NewWSListener] show ?thesis by blast
qed

text \<open>
  C37: When a listener is built, and what is left open when it is not. The inputs that can fail are the socket, the
  certificate in every mode but tcp, ws and mws, the path in the modes over HTTP, where an empty one panics, and,
  for QUIC, the library's listening on the socket. The listener is built exactly if none of those its mode
  uses fails. QUIC loads the certificate before it opens its socket, the others after. A failure after the socket was
  opened leaves that socket open, and is the only one that does; no type assertion ever panics.
\<close>

theorem listener_starts:
  "case run_ListenerCreator env ctor o1 of
     (Inr l, left) \<Rightarrow> left = [] \<and> l_chan l = 1024 \<and>
       \<not> (needs_cert ctor \<and> isl (buildServerTLSConfig env o1)) \<and> \<not> (uses_mux ctor \<and> Path o1 = []) \<and>
       (if ctor = Ctor_NewQUICListener then
          ListenPacket env (Some (ResolveUDPAddr env (GetLocalAddr o1))) = Inr (l_socket l) \<and>
          env_quic_listen env (l_socket l) = None
        else Listen env (Some (ResolveTCPAddr env (GetLocalAddr o1))) = Inr (l_socket l))
   | (Inl err, left) \<Rightarrow>
       (if ctor = Ctor_NewQUICListener then
          (case buildServerTLSConfig env o1 of
             Inl e \<Rightarrow> left = [] \<and> err = e
           | Inr _ \<Rightarrow>
               (case ListenPacket env (Some (ResolveUDPAddr env (GetLocalAddr o1))) of
                  Inl e \<Rightarrow> left = [] \<and> err = e
                | Inr p \<Rightarrow> left = [p] \<and> env_quic_listen env p = Some err))
        else
          (case Listen env (Some (ResolveTCPAddr env (GetLocalAddr o1))) of
             Inl e \<Rightarrow> left = [] \<and> err = e
           | Inr ln \<Rightarrow> left = [ln] \<and>
               (needs_cert ctor \<and> buildServerTLSConfig env o1 = Inl err \<or>
                uses_mux ctor \<and> Path o1 = [] \<and> err = GoPanic ''http: invalid pattern'')))"
proof (cases "ctor = Ctor_NewQUICListener")
  case True
  then show ?thesis
    by (auto simp: NewQUICListener_def Let_def needs_cert_def uses_mux_def split: sum.splits option.splits)
next
  case False
  show ?thesis
  proof (cases "Listen env (Some (ResolveTCPAddr env (GetLocalAddr o1)))")
    case (Inl err)
    then show ?thesis using tcp_based_outcome [OF False, of env o1] False by simp
  next
    case (Inr ln)
    show ?thesis
    proof (cases "late_failure env ctor o1")
      case None
      then have "\<not> (needs_cert ctor \<and> isl (buildServerTLSConfig env o1))" "\<not> (uses_mux ctor \<and> Path o1 = [])"
        by (auto simp: late_failure_def first_of_def cert_failure_def path_failure_def
            split: option.splits if_splits sum.splits)
      then show ?thesis using tcp_based_outcome [OF False, of env o1] False Inr None by auto
    next
      case (Some err)
      then have "needs_cert ctor \<and> buildServerTLSConfig env o1 = Inl err \<or>
          uses_mux ctor \<and> Path o1 = [] \<and> err = GoPanic ''http: invalid pattern''"
        by (auto simp: late_failure_def first_of_def cert_failure_def path_failure_def
            split: option.splits if_splits sum.splits)
      then show ?thesis using tcp_based_outcome [OF False, of env o1] False Inr Some by auto
    qed
  qed
qed

text \<open>
  A handler of the HTTP/2 or gRPC listener blocks exactly while its connection is in the hands of the
  relay: it waits if and only if the connection was put into the queue, otherwise it returns at
  once. A request for another path gets status 404 and touches nothing.
\<close>

theorem handlers_wait:
  "(case H2_serveHTTP env l flusher remote r s of (resp, e, s') \<Rightarrow>
      if r_path r = l_path l then
        resp_status resp = 200 \<and>
        (case e of
           Waits \<Rightarrow> length (chan_buf (connChan s)) < chan_cap (connChan s) \<and>
             (\<exists>c. sent s' = sent s @ [c] \<and> chan_buf (connChan s') = chan_buf (connChan s) @ [c] \<and> \<not> http_isClosed c)
         | Returns \<Rightarrow> chan_cap (connChan s) \<le> length (chan_buf (connChan s)) \<and> connChan s' = connChan s \<and>
             length (dropped s') = Suc (length (dropped s)))
      else resp_status resp = 404 \<and> e = Returns \<and> s' = s) \<and>
   (case Gun_Tun l answers pr s2 of (e, s') \<Rightarrow>
      case e of
        Waits \<Rightarrow> (\<exists>c. sent s' = sent s2 @ [c] \<and> chan_buf (connChan s') = chan_buf (connChan s2) @ [c] \<and> \<not> gun_done c)
      | Returns \<Rightarrow> connChan s' = connChan s2 \<and> length (dropped s') = Suc (length (dropped s2)))"
  by (auto simp: H2_serveHTTP_def Gun_Tun_def hand_over_def deliver_def chan_try_send_def http_isClosed_def
      NewHttpConnection_def NewGunConnection_def not_less split: handler_end.splits)

end
