(* ===== verification/Relay.thy ===== *)
theory Relay
  imports Listeners
begin

text \<open>
  The relay of src/handler.go: the copy loop between two connections, the goroutines of one accepted
  connection, and the accept loop. Copying is described once for any byte reader and any writer
  with the contract of \<open>io.Writer\<close>; the connections of the transports are the instances.
\<close>

section \<open>Writers\<close>

type_synonym 'w writer = "bytes \<Rightarrow> 'w \<Rightarrow> (nat \<times> go_error option) \<times> 'w"

text \<open>
  \<open>sunk\<close> is what the writer has taken. A write without an error takes everything and says so; one
  with an error takes a prefix.
\<close>

locale byte_sink =
  fixes write_to :: "'w writer"
    and sunk :: "'w \<Rightarrow> bytes"
  assumes write_ok: "write_to b w = ((n, None), w') \<Longrightarrow> n = length b \<and> sunk w' = sunk w @ b"
    and write_err: "write_to b w = ((n, Some e), w') \<Longrightarrow> \<exists>p. prefix p b \<and> sunk w' = sunk w @ p"

section \<open>\<open>io.Copy\<close>\<close>

definition EOF :: go_error where "EOF = ExtErr ''EOF''"
definition errInvalidWrite :: go_error where "errInvalidWrite = ExtErr ''invalid write result''"
definition ErrShortWrite :: go_error where "ErrShortWrite = ExtErr ''short write''"

text \<open>
  How a copy stands after some rounds: blocked in a read, ended with an error or without (\<open>EOF\<close> counts as
  none), or still going on.
\<close>

datatype copy_state = CopyBlocked | CopyEnded "go_error option" | CopyGoing

text \<open>One chunk: the error that ends the copy, if any, and the writer.\<close>

definition copy_chunk :: "'w writer \<Rightarrow> bytes \<Rightarrow> 'w \<Rightarrow> go_error option \<times> 'w" where
  "copy_chunk wr d w =
     (if d = [] then (None, w)
      else case wr d w of ((nw, ew), w') \<Rightarrow>
        let (nw, ew) = (if length d < nw then (0, case ew of None \<Rightarrow> Some errInvalidWrite | Some e \<Rightarrow> Some e) else (nw, ew))
        in if ew \<noteq> None then (ew, w')
           else if length d \<noteq> nw then (Some ErrShortWrite, w')
           else (None, w'))"

text \<open>The loop with its buffer of 32 kB; the first argument bounds the rounds.\<close>

fun copyBuffer :: "nat \<Rightarrow> 's reader \<Rightarrow> 'w writer \<Rightarrow> 's \<Rightarrow> 'w \<Rightarrow> copy_state \<times> 's \<times> 'w" where
  "copyBuffer 0 rd wr s w = (CopyGoing, s, w)"
| "copyBuffer (Suc k) rd wr s w =
     (case rd 32768 s of
        None \<Rightarrow> (CopyBlocked, s, w)
      | Some ((d, er), s') \<Rightarrow>
          (case copy_chunk wr d w of
             (Some ew, w') \<Rightarrow> (CopyEnded (Some ew), s', w')
           | (None, w') \<Rightarrow>
               (case er of
                  None \<Rightarrow> copyBuffer k rd wr s' w'
                | Some e \<Rightarrow> (CopyEnded (if e = EOF then None else Some e), s', w'))))"

locale copy_pipe = byte_reader read remaining pending healthy + byte_sink write_to sunk
  for read :: "'s reader" and remaining pending healthy and write_to :: "'w writer" and sunk
begin

lemma chunk_ok: "copy_chunk write_to d w = (None, w') \<Longrightarrow> sunk w' = sunk w @ d"
  by (auto simp: copy_chunk_def Let_def split: if_splits prod.splits option.splits dest: write_ok)

lemma chunk_err: "copy_chunk write_to d w = (Some e, w') \<Longrightarrow> \<exists>p. prefix p d \<and> sunk w' = sunk w @ p"
proof -
  assume a: "copy_chunk write_to d w = (Some e, w')"
  obtain nw ew w1 where w: "write_to d w = ((nw, ew), w1)" by (cases "write_to d w") auto
  have w1: "w' = w1" using a w by (auto simp: copy_chunk_def Let_def split: if_splits option.splits)
  show ?thesis
  proof (cases ew)
    case None
    then show ?thesis using write_ok [of d w nw w1] w w1 by auto
  next
    case (Some e1)
    then show ?thesis using write_err [of d w nw e1 w1] w w1 by auto
  qed
qed

text \<open>What has been copied is a prefix of what there was; nothing is lost except after a failed write.\<close>

lemma copy_split:
  "copyBuffer k read write_to s w = (st, s', w') \<Longrightarrow>
     \<exists>d rest. remaining s = d @ rest \<and> sunk w' = sunk w @ d \<and>
       ((\<forall>e. st \<noteq> CopyEnded (Some e)) \<longrightarrow> rest = remaining s')"
proof (induction k arbitrary: s w)
  case (Suc k)
  show ?case
  proof (cases "read 32768 s")
    case None
    then show ?thesis using Suc.prems by auto
  next
    case (Some x)
    obtain d er s1 where r: "read 32768 s = Some ((d, er), s1)" using Some by (cases x) auto
    note sp = read_split [OF r]
    obtain ew w1 where c: "copy_chunk write_to d w = (ew, w1)" by (cases "copy_chunk write_to d w") auto
    show ?thesis
    proof (cases ew)
      case None
      note ok = chunk_ok [OF c [unfolded None]]
      show ?thesis
      proof (cases er)
        case None
        then have "copyBuffer k read write_to s1 w1 = (st, s', w')" using Suc.prems r c \<open>ew = None\<close> by simp
        from Suc.IH [OF this] obtain d2 rest where
          "remaining s1 = d2 @ rest" "sunk w' = sunk w1 @ d2"
          "(\<forall>e. st \<noteq> CopyEnded (Some e)) \<longrightarrow> rest = remaining s'" by blast
        then show ?thesis using sp ok by (intro exI [of _ "d @ d2"] exI [of _ rest]) simp
      next
        case (Some e)
        then show ?thesis using Suc.prems r c \<open>ew = None\<close> sp ok
          by (intro exI [of _ d] exI [of _ "remaining s'"]) simp
      qed
    next
      case (Some e)
      then obtain p where "prefix p d" "sunk w1 = sunk w @ p" using chunk_err c by blast
      moreover have "st = CopyEnded (Some e)" "w' = w1" using Suc.prems r c Some by simp_all
      ultimately show ?thesis using sp by (auto simp: prefix_def)
    qed
  qed
qed auto

text \<open>A healthy reader and a writer that takes everything: enough rounds copy it all and block.\<close>

lemma copy_complete:
  assumes "\<And>b w. fst (write_to b w) = (length b, None)"
  shows "healthy s \<Longrightarrow> length (remaining s) + pending s < k \<Longrightarrow>
    copyBuffer k read write_to s w = (st, s', w') \<Longrightarrow>
    st = CopyBlocked \<and> sunk w' = sunk w @ remaining s"
proof (induction k arbitrary: s w)
  case (Suc k)
  show ?case
  proof (cases "read 32768 s")
    case None
    then show ?thesis using Suc.prems read_blocks by auto
  next
    case (Some x)
    obtain d er s1 where r: "read 32768 s = Some ((d, er), s1)" using Some by (cases x) auto
    have h: "er = None" "healthy s1" using read_healthy [OF Suc.prems(1) r] by simp_all
    obtain w1 where w1: "write_to d w = ((length d, None), w1)"
      using assms [of d w] by (cases "write_to d w") auto
    then have c: "copy_chunk write_to d w = (None, if d = [] then w else w1)"
      by (simp add: copy_chunk_def)
    have "copyBuffer k read write_to s1 (if d = [] then w else w1) = (st, s', w')"
      using Suc.prems(3) r c h(1) by simp
    from Suc.IH [OF h(2) _ this] show ?thesis
      using read_progress [OF r] read_split [OF r] chunk_ok [OF c] Suc.prems(2) by auto
  qed
qed simp

end

section \<open>The connections as readers and writers\<close>

text \<open>
  A TCP connection: what arrives on it is a list of segments with the error that ends it, a read
  takes from the first; what is written to it is collected.
\<close>

record tcp_conn =
  tcp_answers :: "read_answer list"
  tcp_rb :: bytes
  tcp_out :: bytes

definition tcp_Read :: "tcp_conn reader" where
  "tcp_Read n c =
     (if tcp_rb c = [] then
        (case tcp_answers c of
           [] \<Rightarrow> None
         | (data, err) # answers \<Rightarrow>
             Some ((take n data, err), c\<lparr>tcp_answers := answers, tcp_rb := drop n data\<rparr>))
      else Some ((take n (tcp_rb c), None), c\<lparr>tcp_rb := drop n (tcp_rb c)\<rparr>))"

definition tcp_Write :: "tcp_conn writer" where
  "tcp_Write b c = ((length b, None), c\<lparr>tcp_out := tcp_out c @ b\<rparr>)"

definition tcp_remaining :: "tcp_conn \<Rightarrow> bytes" where
  "tcp_remaining c = tcp_rb c @ concat (map fst (tcp_answers c))"

interpretation tcp: byte_reader tcp_Read tcp_remaining "\<lambda>c. length (tcp_answers c)" "\<lambda>c. \<forall>a \<in> set (tcp_answers c). snd a = None"
  by unfold_locales (auto simp: tcp_Read_def tcp_remaining_def split: if_splits list.splits)

interpretation tcp_sink: byte_sink tcp_Write tcp_out
  by unfold_locales (auto simp: tcp_Write_def)

interpretation gun_sink: byte_sink "gun_Write a" "\<lambda>c. concat (gun_sent c)" for a
  by unfold_locales (auto simp: gun_Write_def split: option.splits)

interpretation ws_sink: byte_sink "ws_Write a" "\<lambda>c. concat (ws_sent c)" for a
  by unfold_locales (auto simp: ws_Write_def split: if_splits)

interpretation http_sink: byte_sink "\<lambda>b. http_Write (length b, e) b" "\<lambda>c. concat (http_written c)" for e
  by unfold_locales
    (auto simp: http_Write_def http_forward_def Let_def split: if_splits option.splits)

text \<open>The copies a relay makes: a TCP connection on one side, a connection of the transport on the other.\<close>

interpretation tcp_to_gun: copy_pipe tcp_Read tcp_remaining "\<lambda>c. length (tcp_answers c)"
  "\<lambda>c. \<forall>a \<in> set (tcp_answers c). snd a = None" "gun_Write a" "\<lambda>c. concat (gun_sent c)" for a
  by unfold_locales

interpretation gun_to_tcp: copy_pipe gun_Read gun_remaining "\<lambda>c. length (gun_recv c)"
  "\<lambda>c. \<forall>a \<in> set (gun_recv c). \<not> isl a" tcp_Write tcp_out
  by unfold_locales

interpretation tcp_to_ws: copy_pipe tcp_Read tcp_remaining "\<lambda>c. length (tcp_answers c)"
  "\<lambda>c. \<forall>a \<in> set (tcp_answers c). snd a = None" "ws_Write a" "\<lambda>c. concat (ws_sent c)" for a
  by unfold_locales

interpretation ws_to_tcp: copy_pipe ws_Read ws_remaining "\<lambda>c. length (ws_answers c)"
  "\<lambda>c. \<forall>a \<in> set (ws_answers c). snd a = None" tcp_Write tcp_out
  by unfold_locales

section \<open>The goroutines of one connection\<close>

text \<open>
  The function that \<open>Serve\<close> starts for an accepted connection, with the two copies it starts: each
  copy may end at any time, or never if one of its reads or writes blocks for ever, and then sends its result to \<open>errChan\<close>, a channel of capacity 2; the function
  receives one result and returns, running the deferred closes.
\<close>

datatype relay_phase = Dialing | AwaitingErr | Finished

datatype copier = NotStarted | Copying | Sending "go_error option" | Ended

record relay =
  r_phase :: relay_phase
  r_toInbound :: copier      \<comment> \<open>\<open>copy(inbound, outbound)\<close>\<close>
  r_toOutbound :: copier     \<comment> \<open>\<open>copy(outbound, inbound)\<close>\<close>
  r_errChan :: "go_error option chan"
  r_inClosed :: nat
  r_outClosed :: nat
  r_dialed :: bool

definition relay_start :: relay where
  "relay_start =
     \<lparr>r_phase = Dialing, r_toInbound = NotStarted, r_toOutbound = NotStarted, r_errChan = make_chan 2,
      r_inClosed = 0, r_outClosed = 0, r_dialed = False\<rparr>"

text \<open>A send without a default case: possible only if there is room.\<close>

inductive relay_step :: "relay \<Rightarrow> relay \<Rightarrow> bool" where
  dial_fails: "r_phase s = Dialing \<Longrightarrow>
     relay_step s (s\<lparr>r_phase := Finished, r_inClosed := Suc (r_inClosed s)\<rparr>)"
| dial_succeeds: "r_phase s = Dialing \<Longrightarrow>
     relay_step s (s\<lparr>r_phase := AwaitingErr, r_dialed := True, r_toInbound := Copying, r_toOutbound := Copying\<rparr>)"
| copy_in_ends: "r_toInbound s = Copying \<Longrightarrow> relay_step s (s\<lparr>r_toInbound := Sending err\<rparr>)"
| copy_out_ends: "r_toOutbound s = Copying \<Longrightarrow> relay_step s (s\<lparr>r_toOutbound := Sending err\<rparr>)"
| send_in: "r_toInbound s = Sending err \<Longrightarrow> chan_try_send (r_errChan s) err = (True, q) \<Longrightarrow>
     relay_step s (s\<lparr>r_toInbound := Ended, r_errChan := q\<rparr>)"
| send_out: "r_toOutbound s = Sending err \<Longrightarrow> chan_try_send (r_errChan s) err = (True, q) \<Longrightarrow>
     relay_step s (s\<lparr>r_toOutbound := Ended, r_errChan := q\<rparr>)"
| receive_err: "r_phase s = AwaitingErr \<Longrightarrow> chan_recv (r_errChan s) = Some (err, q) \<Longrightarrow>
     relay_step s (s\<lparr>r_phase := Finished, r_errChan := q, r_outClosed := Suc (r_outClosed s),
       r_inClosed := Suc (r_inClosed s)\<rparr>)"

inductive_cases relay_stepE: "relay_step s t"

definition ended :: "copier \<Rightarrow> nat" where
  "ended c = (case c of Ended \<Rightarrow> 1 | _ \<Rightarrow> 0)"

definition relay_inv :: "relay \<Rightarrow> bool" where
  "relay_inv s \<longleftrightarrow>
     chan_cap (r_errChan s) = 2 \<and>
     length (chan_buf (r_errChan s)) + (if r_phase s = Finished \<and> r_dialed s then 1 else 0)
       = ended (r_toInbound s) + ended (r_toOutbound s) \<and>
     r_inClosed s = (if r_phase s = Finished then 1 else 0) \<and>
     r_outClosed s = (if r_phase s = Finished \<and> r_dialed s then 1 else 0) \<and>
     (r_dialed s \<longleftrightarrow> r_toInbound s \<noteq> NotStarted) \<and> (r_dialed s \<longleftrightarrow> r_toOutbound s \<noteq> NotStarted) \<and>
     (r_dialed s \<longrightarrow> r_phase s \<noteq> Dialing) \<and> (r_phase s = AwaitingErr \<longrightarrow> r_dialed s)"

lemma ended_simps [simp]:
  "ended NotStarted = 0" "ended Copying = 0" "ended (Sending e) = 0" "ended Ended = 1"
  by (simp_all add: ended_def)

lemma relay_inv_start: "relay_inv relay_start"
  by (simp add: relay_inv_def relay_start_def make_chan_def)

lemma chan_try_send_True:
  "chan_try_send c x = (True, q) \<Longrightarrow> chan_buf q = chan_buf c @ [x] \<and> chan_cap q = chan_cap c"
  by (auto simp: chan_try_send_def split: if_splits)

lemma chan_recv_Some: "chan_recv c = Some (x, q) \<Longrightarrow> chan_buf c = x # chan_buf q \<and> chan_cap q = chan_cap c"
  by (auto simp: chan_recv_def split: list.splits)

lemma relay_inv_step: "relay_step s t \<Longrightarrow> relay_inv s \<Longrightarrow> relay_inv t"
  by (erule relay_stepE)
    (auto simp: relay_inv_def dest!: chan_try_send_True chan_recv_Some split: if_splits)

interpretation relay: step_invariant relay_step relay_inv
  by unfold_locales (rule relay_inv_step)

section \<open>The accept loop\<close>

text \<open>
  The first goroutine of \<open>handler.Serve\<close>: for every connection it starts a relay; an error is logged
  and the loop goes on unless the context is done. The result lists the connections handed over.
\<close>

fun handler_accepts :: "'c accept_event list \<Rightarrow> 'c list \<Rightarrow> loop_exit \<times> 'c list" where
  "handler_accepts [] started = (Waiting, started)"
| "handler_accepts (AcceptError err done # evs) started =
     (if done then (Returned, started) else handler_accepts evs started)"
| "handler_accepts (Accepted conn # evs) started = handler_accepts evs (started @ [conn])"
| "handler_accepts (Other e # evs) started = handler_accepts evs started"

text \<open>\<open>AcceptConn\<close> of every listener receives from \<open>ConnChan\<close> and never returns an error.\<close>

definition AcceptConn :: "'c chan \<Rightarrow> ('c result \<times> 'c chan) option" where
  "AcceptConn q = (case chan_recv q of None \<Rightarrow> None | Some (c, q) \<Rightarrow> Some (Inr c, q))"

section \<open>Construction\<close>

datatype ('ln, 'cert) handler = Handler "('ln, 'cert) plugin_listener" transporter

definition newHandler ::
  "(ListenerCreator, TransporterCreator, 'c) registry \<Rightarrow> ('ln, 'cert) listen_env \<Rightarrow> (bytes \<Rightarrow> grpcTLS \<Rightarrow> go_error option)
     \<Rightarrow> Options \<Rightarrow> ('ln, 'cert) handler result" where
  "newHandler reg env g o1 =
     (if Server o1 then
        (case GetListenerCreator (Mode o1) reg of
           Inl err \<Rightarrow> Inl err
         | Inr newListener \<Rightarrow>
             (case fst (run_ListenerCreator env newListener o1) of
                Inl err \<Rightarrow> Inl err
              | Inr listener \<Rightarrow>
                  (case NewTCPTransporter o1 of
                     Inl err \<Rightarrow> Inl err
                   | Inr transporter \<Rightarrow> Inr (Handler listener transporter))))
      else
        (case GetTransporterCreator (Mode o1) reg of
           Inl err \<Rightarrow> Inl err
         | Inr newTransporter \<Rightarrow>
             (case run_TransporterCreator g newTransporter o1 of
                Inl err \<Rightarrow> Inl err
              | Inr transporter \<Rightarrow>
                  (case NewTCPListener env o1 of
                     Inl err \<Rightarrow> Inl err
                   | Inr listener \<Rightarrow> Inr (Handler listener transporter)))))"

section \<open>Properties\<close>

text \<open>
  The relay closes what it opened, once: in every reachable state the inbound connection has been
  closed exactly once if the relay has finished and not at all before, the outbound one likewise if
  it was dialled; and a copy that has ended can always send its result, so no copying goroutine is
  left blocked on the channel.
\<close>

theorem relay_closes_once:
  assumes "relay_step\<^sup>*\<^sup>* relay_start s"
  shows "r_inClosed s = (if r_phase s = Finished then 1 else 0) \<and>
    r_outClosed s = (if r_phase s = Finished \<and> r_dialed s then 1 else 0) \<and>
    (\<forall>err. r_toInbound s = Sending err \<or> r_toOutbound s = Sending err \<longrightarrow> fst (chan_try_send (r_errChan s) err)) \<and>
    length (chan_buf (r_errChan s)) \<le> 2"
proof -
  have i: "relay_inv s" using relay.reachable [OF assms relay_inv_start] .
  have e: "ended c \<le> 1" for c by (cases c) simp_all
  have "length (chan_buf (r_errChan s)) < 2" if "r_toInbound s = Sending err \<or> r_toOutbound s = Sending err" for err
    using i that e [of "r_toInbound s"] e [of "r_toOutbound s"] by (auto simp: relay_inv_def split: if_splits)
  moreover have "length (chan_buf (r_errChan s)) \<le> 2"
    using i e [of "r_toInbound s"] e [of "r_toOutbound s"] by (auto simp: relay_inv_def split: if_splits)
  ultimately show ?thesis using i by (auto simp: relay_inv_def chan_try_send_def)
qed

lemma finish_with_result:
  assumes "r_phase s = AwaitingErr" and "chan_buf (r_errChan s) = err # buf"
  shows "\<exists>t. relay_step\<^sup>*\<^sup>* s t \<and> r_phase t = Finished"
proof -
  have "chan_recv (r_errChan s) = Some (err, (r_errChan s)\<lparr>chan_buf := buf\<rparr>)"
    using assms(2) by (simp add: chan_recv_def)
  from relay_step.receive_err [OF assms(1) this] show ?thesis by (intro exI conjI r_into_rtranclp, assumption) simp
qed

lemma finish_from_sending:
  assumes "r_phase s = AwaitingErr" and "r_toInbound s = Sending err"
    and "length (chan_buf (r_errChan s)) < chan_cap (r_errChan s)"
  shows "\<exists>t. relay_step\<^sup>*\<^sup>* s t \<and> r_phase t = Finished"
proof -
  let ?q = "(r_errChan s)\<lparr>chan_buf := chan_buf (r_errChan s) @ [err]\<rparr>"
  let ?s = "s\<lparr>r_toInbound := Ended, r_errChan := ?q\<rparr>"
  have "chan_try_send (r_errChan s) err = (True, ?q)" using assms(3) by (simp add: chan_try_send_def)
  then have "relay_step s ?s" by (rule relay_step.send_in [OF assms(2)])
  moreover obtain e buf where "chan_buf (r_errChan ?s) = e # buf"
    by (cases "chan_buf (r_errChan s)") auto
  then have "\<exists>t. relay_step\<^sup>*\<^sup>* ?s t \<and> r_phase t = Finished"
    using assms(1) by (intro finish_with_result) simp_all
  ultimately show ?thesis by (meson converse_rtranclp_into_rtranclp)
qed

lemma relay_inv_can_finish:
  assumes i: "relay_inv s"
  shows "\<exists>t. relay_step\<^sup>*\<^sup>* s t \<and> r_phase t = Finished"
proof -
  show ?thesis
  proof (cases "r_phase s")
    case Dialing
    from relay_step.dial_fails [OF this] show ?thesis by (intro exI conjI r_into_rtranclp, assumption) simp
  next
    case AwaitingErr
    show ?thesis
    proof (cases "chan_buf (r_errChan s)")
      case (Cons e buf)
      then show ?thesis by (rule finish_with_result [OF AwaitingErr])
    next
      case Nil
      have c: "length (chan_buf (r_errChan s)) < chan_cap (r_errChan s)" using i Nil by (simp add: relay_inv_def)
      have "r_toInbound s \<noteq> NotStarted" "r_toInbound s \<noteq> Ended"
        using i AwaitingErr Nil by (auto simp: relay_inv_def)
      then consider err where "r_toInbound s = Sending err" | "r_toInbound s = Copying"
        by (cases "r_toInbound s") auto
      then show ?thesis
      proof cases
        case 1
        then show ?thesis using finish_from_sending [OF AwaitingErr _ c] by blast
      next
        case 2
        from relay_step.copy_in_ends [OF this, of None]
        have "relay_step s (s\<lparr>r_toInbound := Sending None\<rparr>)" .
        moreover have "\<exists>t. relay_step\<^sup>*\<^sup>* (s\<lparr>r_toInbound := Sending None\<rparr>) t \<and> r_phase t = Finished"
          using AwaitingErr c by (intro finish_from_sending [of _ None]) simp_all
        ultimately show ?thesis by (meson converse_rtranclp_into_rtranclp)
      qed
    qed
  next
    case Finished
    then show ?thesis by blast
  qed
qed

text \<open>How many steps a relay can still make: each goroutine only goes forward.\<close>

definition copier_left :: "copier \<Rightarrow> nat" where
  "copier_left c = (case c of Copying \<Rightarrow> 2 | Sending _ \<Rightarrow> 1 | _ \<Rightarrow> 0)"

definition relay_left :: "relay \<Rightarrow> nat" where
  "relay_left s =
     (case r_phase s of Dialing \<Rightarrow> 6 | AwaitingErr \<Rightarrow> 1 | Finished \<Rightarrow> 0) +
     copier_left (r_toInbound s) + copier_left (r_toOutbound s)"

lemma copier_left_simps [simp]:
  "copier_left NotStarted = 0" "copier_left Copying = 2" "copier_left (Sending e) = 1" "copier_left Ended = 0"
  by (simp_all add: copier_left_def)

lemma relay_step_left: "relay_step s t \<Longrightarrow> relay_inv s \<Longrightarrow> relay_left t < relay_left s"
  by (erule relay_stepE) (auto simp: relay_left_def relay_inv_def)

lemma relay_left_bound: "relay_inv s \<Longrightarrow> relay_left s \<le> 6"
  by (cases "r_phase s"; cases "r_toInbound s"; cases "r_toOutbound s") (auto simp: relay_left_def relay_inv_def)

text \<open>
  The end of a copy is not up to the relay: it comes when a read or a write returns, and that may never
  happen. All other steps are those of the relay's own goroutines.
\<close>

definition copy_ends :: "relay \<Rightarrow> relay \<Rightarrow> bool" where
  "copy_ends s t \<longleftrightarrow>
     r_toInbound s = Copying \<and> r_toInbound t \<noteq> Copying \<or> r_toOutbound s = Copying \<and> r_toOutbound t \<noteq> Copying"

lemma relay_waits:
  assumes i: "relay_inv s" and stuck: "\<And>t. relay_step s t \<Longrightarrow> copy_ends s t"
  shows "if r_phase s = Finished then
      r_toInbound s \<in> {NotStarted, Copying, Ended} \<and> r_toOutbound s \<in> {NotStarted, Copying, Ended} \<and>
      (r_toInbound s \<noteq> Copying \<or> r_toOutbound s \<noteq> Copying)
    else r_phase s = AwaitingErr \<and> r_toInbound s = Copying \<and> r_toOutbound s = Copying"
proof -
  have d: "r_phase s \<noteq> Dialing" using stuck [OF relay_step.dial_fails] by (auto simp: copy_ends_def)
  have e: "ended x \<le> 1" for x by (cases x) simp_all
  have room: "\<exists>q. chan_try_send (r_errChan s) err = (True, q)" if "length (chan_buf (r_errChan s)) < 2" for err
    using that i by (simp add: chan_try_send_def relay_inv_def)
  have "r_toInbound s \<noteq> Sending err" for err
    using i e [of "r_toOutbound s"] room [of err] stuck [OF relay_step.send_in, of err]
    by (auto simp: relay_inv_def copy_ends_def split: if_splits)
  moreover have "r_toOutbound s \<noteq> Sending err" for err
    using i e [of "r_toInbound s"] room [of err] stuck [OF relay_step.send_out, of err]
    by (auto simp: relay_inv_def copy_ends_def split: if_splits)
  ultimately have n: "r_toInbound s \<in> {NotStarted, Copying, Ended}" "r_toOutbound s \<in> {NotStarted, Copying, Ended}"
    by (cases "r_toInbound s"; cases "r_toOutbound s"; simp)+
  have "chan_buf (r_errChan s) = []" if a: "r_phase s = AwaitingErr"
  proof (cases "chan_buf (r_errChan s)")
    case (Cons err buf)
    then have "chan_recv (r_errChan s) = Some (err, (r_errChan s)\<lparr>chan_buf := buf\<rparr>)" by (simp add: chan_recv_def)
    from stuck [OF relay_step.receive_err [OF a this]] show ?thesis by (simp add: copy_ends_def)
  qed
  with d n i show ?thesis by (cases "r_phase s") (auto simp: relay_inv_def split: if_splits)
qed

lemma relay_stuck_finished:
  assumes i: "relay_inv s" and stuck: "\<And>t. \<not> relay_step s t"
  shows "r_phase s = Finished \<and> copier_left (r_toInbound s) = 0 \<and> copier_left (r_toOutbound s) = 0"
proof -
  have "r_toInbound s \<noteq> Copying" "r_toOutbound s \<noteq> Copying"
    using stuck relay_step.copy_in_ends relay_step.copy_out_ends by blast+
  then show ?thesis using relay_waits [OF i] stuck by (auto split: if_splits)
qed

text \<open>
  A relay never deadlocks: from every reachable state it can reach one in which it is finished.
\<close>

theorem relay_can_finish:
  assumes "relay_step\<^sup>*\<^sup>* relay_start s"
  shows "\<exists>t. relay_step\<^sup>*\<^sup>* s t \<and> r_phase t = Finished"
  by (rule relay_inv_can_finish [OF relay.reachable [OF assms relay_inv_start]])

definition relay_example :: relay where
  "relay_example = relay_start\<lparr>r_phase := AwaitingErr, r_dialed := True, r_toInbound := Sending (Some EOF), r_toOutbound := Copying\<rparr>"

lemma relay_example_reached: "relay_step\<^sup>*\<^sup>* relay_start relay_example"
proof -
  let ?s = "relay_start\<lparr>r_phase := AwaitingErr, r_dialed := True, r_toInbound := Copying, r_toOutbound := Copying\<rparr>"
  have "relay_step relay_start ?s" using relay_step.dial_succeeds [of relay_start] by (simp add: relay_start_def)
  moreover have "relay_step ?s relay_example"
    using relay_step.copy_in_ends [of ?s "Some EOF"] by (simp add: relay_example_def relay_start_def)
  ultimately show ?thesis by (meson rtranclp.rtrancl_into_rtrancl rtranclp.rtrancl_refl)
qed

theorem relay_can_finish_witness:
  "r_phase relay_example = AwaitingErr \<and> (\<exists>t. relay_step\<^sup>*\<^sup>* relay_example t \<and> r_phase t = Finished)"
  using relay_can_finish [OF relay_example_reached] by (simp add: relay_example_def)

theorem relay_closes_once_witness:
  "r_inClosed relay_example = 0 \<and> fst (chan_try_send (r_errChan relay_example) (Some EOF))"
  using relay_closes_once [OF relay_example_reached] by (simp add: relay_example_def)

text \<open>
  C14: What a relay waits for. However its goroutines are interleaved, they make at most six steps, counting the end
  of a copy as one; whether and when a copy ends is left open, since a read may block for ever. Whenever the relay
  can go on only by the end of a copy, there are two cases. Either it waits for both of its copies, with both connections
  still open; or it has finished, every connection it had is closed, once, and at most one goroutine is
  left, one that is still inside its copy. So a copy that ends never stays behind, and a relay
  with one copy that has ended does not go on waiting.
\<close>

theorem relay_terminates:
  assumes "(relay_step ^^ n) relay_start s"
  shows "n \<le> 6 \<and>
    ((\<forall>t. relay_step s t \<longrightarrow> copy_ends s t) \<longrightarrow>
       (if r_phase s = Finished then
          r_inClosed s = 1 \<and> r_outClosed s = (if r_dialed s then 1 else 0) \<and>
          r_toInbound s \<in> {NotStarted, Copying, Ended} \<and> r_toOutbound s \<in> {NotStarted, Copying, Ended} \<and>
          (r_toInbound s \<noteq> Copying \<or> r_toOutbound s \<noteq> Copying)
        else
          r_phase s = AwaitingErr \<and> r_inClosed s = 0 \<and> r_outClosed s = 0 \<and>
          r_toInbound s = Copying \<and> r_toOutbound s = Copying))"
proof -
  have i: "relay_inv s \<and> n + relay_left s \<le> 6"
    using assms
  proof (induction n arbitrary: s)
    case 0
    then show ?case using relay_inv_start relay_left_bound [OF relay_inv_start] by simp
  next
    case (Suc n)
    from Suc.prems obtain r where r: "(relay_step ^^ n) relay_start r" "relay_step r s" by auto
    then show ?case using Suc.IH [OF r(1)] relay_inv_step [OF r(2)] relay_step_left [OF r(2)] by auto
  qed
  then have "r_inClosed s = (if r_phase s = Finished then 1 else 0)"
      "r_outClosed s = (if r_phase s = Finished \<and> r_dialed s then 1 else 0)"
    by (simp_all add: relay_inv_def)
  then show ?thesis using i relay_waits [of s] by auto
qed

text \<open>A relay that has finished after the first of its copies ended; the second one is blocked.\<close>

definition relay_half :: relay where
  "relay_half = relay_start\<lparr>r_phase := Finished, r_dialed := True, r_toInbound := Ended, r_toOutbound := Copying,
     r_inClosed := 1, r_outClosed := 1\<rparr>"

lemma relay_half_reached: "(relay_step ^^ 4) relay_start relay_half"
proof -
  let ?dialed = "relay_start\<lparr>r_phase := AwaitingErr, r_dialed := True, r_toInbound := Copying, r_toOutbound := Copying\<rparr>"
  let ?sent = "relay_example\<lparr>r_toInbound := Ended, r_errChan := \<lparr>chan_buf = [Some EOF], chan_cap = 2\<rparr>\<rparr>"
  have 1: "relay_step relay_start ?dialed" using relay_step.dial_succeeds [of relay_start] by (simp add: relay_start_def)
  have 2: "relay_step ?dialed relay_example"
    using relay_step.copy_in_ends [of ?dialed "Some EOF"] by (simp add: relay_example_def relay_start_def)
  have 3: "relay_step relay_example ?sent"
    using relay_step.send_in [of relay_example "Some EOF" "\<lparr>chan_buf = [Some EOF], chan_cap = 2\<rparr>"]
    by (simp add: relay_example_def relay_start_def chan_try_send_def make_chan_def)
  have 4: "relay_step ?sent relay_half"
    using relay_step.receive_err [of ?sent "Some EOF" "\<lparr>chan_buf = [], chan_cap = 2\<rparr>"]
    by (simp add: relay_example_def relay_half_def relay_start_def chan_recv_def make_chan_def)
  from 1 2 3 4 show ?thesis by (auto simp: numeral_eq_Suc relcompp_apply)
qed

theorem relay_terminates_witness:
  "\<exists>s. (relay_step ^^ 4) relay_start s \<and> r_phase s = Finished \<and> r_outClosed s = 1 \<and> r_toOutbound s = Copying"
proof -
  have "copy_ends relay_half t" if "relay_step relay_half t" for t
    using that by (cases rule: relay_step.cases) (auto simp: relay_half_def relay_start_def copy_ends_def)
  moreover have "r_phase relay_half = Finished" "r_dialed relay_half" "r_toOutbound relay_half = Copying"
    by (simp_all add: relay_half_def)
  ultimately show ?thesis using relay_terminates [OF relay_half_reached] relay_half_reached by auto
qed

text \<open>
  A copy loses and reorders nothing, for each of the directions between a TCP connection and a gun or
  websocket connection: what was written is a prefix of what could be read, and unless the copy
  ended with an error the rest is still there to be read.
\<close>

theorem copy_is_faithful:
  "(case copyBuffer k tcp_Read (gun_Write a) t g of (st, t', g') \<Rightarrow>
      \<exists>d rest. tcp_remaining t = d @ rest \<and> concat (gun_sent g') = concat (gun_sent g) @ d \<and>
        ((\<exists>e. st = CopyEnded (Some e)) \<or> rest = tcp_remaining t')) \<and>
   (case copyBuffer k gun_Read tcp_Write g t of (st, g', t') \<Rightarrow>
      \<exists>d rest. gun_remaining g = d @ rest \<and> tcp_out t' = tcp_out t @ d \<and>
        ((\<exists>e. st = CopyEnded (Some e)) \<or> rest = gun_remaining g')) \<and>
   (case copyBuffer k tcp_Read (ws_Write a) t w of (st, t', w') \<Rightarrow>
      \<exists>d rest. tcp_remaining t = d @ rest \<and> concat (ws_sent w') = concat (ws_sent w) @ d \<and>
        ((\<exists>e. st = CopyEnded (Some e)) \<or> rest = tcp_remaining t')) \<and>
   (case copyBuffer k ws_Read tcp_Write w t of (st, w', t') \<Rightarrow>
      \<exists>d rest. ws_remaining w = d @ rest \<and> tcp_out t' = tcp_out t @ d \<and>
        ((\<exists>e. st = CopyEnded (Some e)) \<or> rest = ws_remaining w'))"
proof (intro conjI)
  show "case copyBuffer k tcp_Read (gun_Write a) t g of (st, t', g') \<Rightarrow>
      \<exists>d rest. tcp_remaining t = d @ rest \<and> concat (gun_sent g') = concat (gun_sent g) @ d \<and>
        ((\<exists>e. st = CopyEnded (Some e)) \<or> rest = tcp_remaining t')"
    using tcp_to_gun.copy_split [of k a t g] by (cases "copyBuffer k tcp_Read (gun_Write a) t g") (simp, blast)
  show "case copyBuffer k gun_Read tcp_Write g t of (st, g', t') \<Rightarrow>
      \<exists>d rest. gun_remaining g = d @ rest \<and> tcp_out t' = tcp_out t @ d \<and>
        ((\<exists>e. st = CopyEnded (Some e)) \<or> rest = gun_remaining g')"
    using gun_to_tcp.copy_split [of k g t] by (cases "copyBuffer k gun_Read tcp_Write g t") (simp, blast)
  show "case copyBuffer k tcp_Read (ws_Write a) t w of (st, t', w') \<Rightarrow>
      \<exists>d rest. tcp_remaining t = d @ rest \<and> concat (ws_sent w') = concat (ws_sent w) @ d \<and>
        ((\<exists>e. st = CopyEnded (Some e)) \<or> rest = tcp_remaining t')"
    using tcp_to_ws.copy_split [of k a t w] by (cases "copyBuffer k tcp_Read (ws_Write a) t w") (simp, blast)
  show "case copyBuffer k ws_Read tcp_Write w t of (st, w', t') \<Rightarrow>
      \<exists>d rest. ws_remaining w = d @ rest \<and> tcp_out t' = tcp_out t @ d \<and>
        ((\<exists>e. st = CopyEnded (Some e)) \<or> rest = ws_remaining w')"
    using ws_to_tcp.copy_split [of k w t] by (cases "copyBuffer k ws_Read tcp_Write w t") (simp, blast)
qed

end
