(* ===== verification/ApplyOptions.thy ===== *)
theory ApplyOptions
  imports Args
begin

text \<open>
  \<open>parseEnv\<close> and \<open>ApplyOptions\<close> of src/args/args.go. The environment is a function from names to
  values, with the empty string for a variable that is not set, as \<open>os.Getenv\<close> answers. The
  options are updated in place, so an early return leaves the updates made before it; the result
  is the triple of the returned error, the options and whether the context carries them.
\<close>

section \<open>The environment\<close>

definition set_key :: "ArgsMap \<Rightarrow> bytes \<times> bytes list \<Rightarrow> ArgsMap" where
  "set_key m kv = AList.update (fst kv) (snd kv) m"

definition parseEnv :: "(bytes \<Rightarrow> bytes) \<Rightarrow> Args \<times> go_error option" where
  "parseEnv getenv =
     (let opts = [];
          ss_remote_host = getenv ''SS_REMOTE_HOST'';
          ss_remote_port = getenv ''SS_REMOTE_PORT'';
          ss_local_host = getenv ''SS_LOCAL_HOST'';
          ss_local_port = getenv ''SS_LOCAL_PORT''
      in if length ss_remote_host = 0 then (Some opts, None)
         else if length ss_remote_port = 0 then (Some opts, None)
         else if length ss_local_host = 0 then (Some opts, None)
         else if length ss_local_host = 0 then (Some opts, None)
         else
           let opts = args_Add opts ''remoteAddr'' ss_remote_host;
               opts = args_Add opts ''remotePort'' ss_remote_port;
               opts = args_Add opts ''localAddr'' ss_local_host;
               opts = args_Add opts ''localPort'' ss_local_port;
               ss_plugin_options = getenv ''SS_PLUGIN_OPTIONS''
           in if length ss_plugin_options > 0 then
                (case parsePluginOptions ss_plugin_options of
                   (_, Some err) \<Rightarrow> (None, Some err)
                 | (other_opts, None) \<Rightarrow> (Some (foldl set_key opts other_opts), None))
              else (Some opts, None))"

text \<open>
  The order in which Go ranges over \<open>other_opts\<close> is not fixed; with distinct keys it does not
  matter, since the merged map is the override of one map by the other.
\<close>

lemma foldl_set_key:
  "distinct (map fst kvs) \<Longrightarrow> map_of (foldl set_key m kvs) = map_of m ++ map_of kvs"
proof (induction kvs arbitrary: m)
  case (Cons kv kvs)
  obtain k vs where [simp]: "kv = (k, vs)" by (cases kv)
  have "k \<notin> dom (map_of kvs)" using Cons.prems by (simp add: dom_map_of_conv_image_fst)
  then show ?case
    using Cons by (auto simp: set_key_def update_conv' fun_eq_iff map_add_def split: option.splits)
qed simp

lemma args_inv_set_key: "args_inv m \<Longrightarrow> snd kv \<noteq> [] \<Longrightarrow> args_inv (set_key m kv)"
  unfolding args_inv_def set_key_def
  by (auto simp: distinct_update dest!: subsetD [OF set_update_subset])

lemma args_inv_foldl_set_key:
  "args_inv m \<Longrightarrow> [] \<notin> snd ` set kvs \<Longrightarrow> args_inv (foldl set_key m kvs)"
  by (induction kvs arbitrary: m) (auto simp: args_inv_set_key)

lemma parsePluginOptions_inv: "args_inv (fst (parsePluginOptions s))"
  by (simp add: parsePluginOptions_fields collect_def args_inv_add_all)

section \<open>Applying the arguments\<close>

type_synonym apply_state = "go_error option \<times> Options"

text \<open>
  The three shapes of the code's \<open>if c, b := args.Get(key); b \{ ... \}\<close>: a string field, a flag
  that is set by the presence of the key, a number with its early return.
\<close>

definition on_key :: "Args \<Rightarrow> bytes \<Rightarrow> (bytes \<Rightarrow> Options \<Rightarrow> apply_state) \<Rightarrow> Options \<Rightarrow> apply_state" where
  "on_key args key body o1 = (let (c, b) = args_Get args key in if b then body c o1 else (None, o1))"

definition set_field :: "(bytes \<Rightarrow> Options \<Rightarrow> Options) \<Rightarrow> bytes \<Rightarrow> Options \<Rightarrow> apply_state" where
  "set_field upd c o1 = (None, upd c o1)"

definition set_number :: "nat \<Rightarrow> (uint \<Rightarrow> Options \<Rightarrow> Options) \<Rightarrow> bytes \<Rightarrow> Options \<Rightarrow> apply_state" where
  "set_number bitSize upd c o1 =
     (case ParseUint c bitSize of Inl err \<Rightarrow> (Some err, o1) | Inr n \<Rightarrow> (None, upd n o1))"

definition and_then :: "apply_state \<Rightarrow> (Options \<Rightarrow> apply_state) \<Rightarrow> apply_state" where
  "and_then r rest = (case r of (Some err, o2) \<Rightarrow> (Some err, o2) | (None, o2) \<Rightarrow> rest o2)"

fun run_steps :: "(Options \<Rightarrow> apply_state) list \<Rightarrow> Options \<Rightarrow> apply_state" where
  "run_steps [] o1 = (None, o1)"
| "run_steps (f # fs) o1 = and_then (f o1) (run_steps fs)"

lemma and_then_simps [simp]:
  "and_then (Some err, o2) rest = (Some err, o2)"
  "and_then (None, o2) rest = rest o2"
  by (simp_all add: and_then_def)

text \<open>
  The statements of \<open>ApplyOptions\<close> between the parse and the binding of the context, in order.
  The role of the plugin decides where the address arguments go, and it is read after the
  argument \<open>server\<close> was applied.
\<close>

definition apply_steps :: "Args \<Rightarrow> (Options \<Rightarrow> apply_state) list" where
  "apply_steps args =
     [ on_key args ''mode'' (set_field (\<lambda>c o1. o1\<lparr>Mode := c\<rparr>)),
       on_key args ''nocomp'' (set_field (\<lambda>_ o1. o1\<lparr>Nocomp := True\<rparr>)),
       on_key args ''insecure'' (set_field (\<lambda>_ o1. o1\<lparr>Insecure := True\<rparr>)),
       on_key args ''mux'' (set_number 16 (\<lambda>n o1. o1\<lparr>Mux := n\<rparr>)),
       on_key args ''host'' (set_field (\<lambda>c o1. o1\<lparr>Hostname := c\<rparr>)),
       on_key args ''path'' (set_field (\<lambda>c o1. o1\<lparr>Path := c\<rparr>)),
       on_key args ''cert'' (set_field (\<lambda>c o1. o1\<lparr>Cert := c\<rparr>)),
       on_key args ''key'' (set_field (\<lambda>c o1. o1\<lparr>Key := c\<rparr>)),
       on_key args ''server'' (set_field (\<lambda>_ o1. o1\<lparr>Server := True\<rparr>)),
       on_key args ''serverName'' (set_field (\<lambda>c o1. o1\<lparr>ServerName := c\<rparr>)),
       on_key args ''localAddr'' (set_field (\<lambda>c o1.
         if Server o1 then o1\<lparr>RemoteAddr := c\<rparr> else o1\<lparr>LocalAddr := c\<rparr>)),
       on_key args ''localPort'' (set_number 32 (\<lambda>n o1.
         if Server o1 then o1\<lparr>RemotePort := n\<rparr> else o1\<lparr>LocalPort := n\<rparr>)),
       on_key args ''remoteAddr'' (set_field (\<lambda>c o1.
         if Server o1 then o1\<lparr>LocalAddr := c\<rparr> else o1\<lparr>RemoteAddr := c\<rparr>)),
       on_key args ''remotePort'' (set_number 32 (\<lambda>n o1.
         if Server o1 then o1\<lparr>LocalPort := n\<rparr> else o1\<lparr>RemotePort := n\<rparr>)),
       on_key args ''logLevel'' (set_number 32 (\<lambda>n o1. o1\<lparr>LogLevel := n\<rparr>)),
       on_key args ''fastOpen'' (set_field (\<lambda>_ o1. o1\<lparr>FastOpen := True\<rparr>)),
       on_key args ''__android_vpn'' (set_field (\<lambda>_ o1. o1\<lparr>Vpn := True\<rparr>)),
       on_key args ''ed'' (set_number 32 (\<lambda>n o1. o1\<lparr>Ed := n\<rparr>)),
       on_key args ''serviceName'' (set_field (\<lambda>c o1. o1\<lparr>ServiceName := c\<rparr>)),
       on_key args ''fingerprint'' (set_field (\<lambda>c o1. o1\<lparr>Fingerprint := c\<rparr>)) ]"

text \<open>
  \<open>ApplyOptions\<close>: an error of the parse is returned at the end, after the context was bound; an
  error of a number is returned at once, with the context of the caller.
\<close>

definition ApplyOptions :: "(bytes \<Rightarrow> bytes) \<Rightarrow> Options \<Rightarrow> bool \<times> Options \<times> go_error option" where
  "ApplyOptions getenv options =
     (case parseEnv getenv of
        (args, Some err) \<Rightarrow> (True, options, Some err)
      | (args, None) \<Rightarrow>
          (case run_steps (apply_steps args) options of
             (Some err, options) \<Rightarrow> (False, options, Some err)
           | (None, options) \<Rightarrow> (True, options, None)))"


section \<open>What the statements add up to\<close>

definition has_arg :: "Args \<Rightarrow> bytes \<Rightarrow> bool" where
  "has_arg args key = snd (args_Get args key)"

definition str_arg :: "Args \<Rightarrow> bytes \<Rightarrow> bytes \<Rightarrow> bytes" where
  "str_arg args key dflt = (if has_arg args key then fst (args_Get args key) else dflt)"

definition num_err :: "Args \<Rightarrow> bytes \<Rightarrow> nat \<Rightarrow> go_error option" where
  "num_err args key bits =
     (if has_arg args key
      then (case ParseUint (fst (args_Get args key)) bits of Inl e \<Rightarrow> Some e | Inr _ \<Rightarrow> None)
      else None)"

definition num_arg :: "Args \<Rightarrow> bytes \<Rightarrow> nat \<Rightarrow> uint \<Rightarrow> uint" where
  "num_arg args key bits dflt =
     (if has_arg args key
      then (case ParseUint (fst (args_Get args key)) bits of Inl _ \<Rightarrow> dflt | Inr n \<Rightarrow> n)
      else dflt)"

text \<open>The numeric arguments in the order the code reads them, with their bit sizes.\<close>

definition num_keys :: "(bytes \<times> nat) list" where
  "num_keys = [(''mux'', 16), (''localPort'', 32), (''remotePort'', 32), (''logLevel'', 32), (''ed'', 32)]"

fun first_num_err :: "Args \<Rightarrow> (bytes \<times> nat) list \<Rightarrow> go_error option" where
  "first_num_err args [] = None"
| "first_num_err args ((key, bits) # ks) =
     (case num_err args key bits of Some e \<Rightarrow> Some e | None \<Rightarrow> first_num_err args ks)"

text \<open>
  The options field by field: flags are only ever set; in server mode the local arguments describe
  the remote end and the other way round.
\<close>

definition apply_spec :: "Args \<Rightarrow> Options \<Rightarrow> Options" where
  "apply_spec args o1 =
     (let srv = (Server o1 \<or> has_arg args ''server'') in
      o1\<lparr> LocalAddr := str_arg args (if srv then ''remoteAddr'' else ''localAddr'') (LocalAddr o1),
          LocalPort := num_arg args (if srv then ''remotePort'' else ''localPort'') 32 (LocalPort o1),
          RemoteAddr := str_arg args (if srv then ''localAddr'' else ''remoteAddr'') (RemoteAddr o1),
          RemotePort := num_arg args (if srv then ''localPort'' else ''remotePort'') 32 (RemotePort o1),
          Hostname := str_arg args ''host'' (Hostname o1),
          Mode := str_arg args ''mode'' (Mode o1),
          Path := str_arg args ''path'' (Path o1),
          ServerName := str_arg args ''serverName'' (ServerName o1),
          Server := srv,
          Nocomp := Nocomp o1 \<or> has_arg args ''nocomp'',
          Insecure := Insecure o1 \<or> has_arg args ''insecure'',
          Cert := str_arg args ''cert'' (Cert o1),
          Key := str_arg args ''key'' (Key o1),
          Mux := num_arg args ''mux'' 16 (Mux o1),
          LogLevel := num_arg args ''logLevel'' 32 (LogLevel o1),
          Vpn := Vpn o1 \<or> has_arg args ''__android_vpn'',
          FastOpen := FastOpen o1 \<or> has_arg args ''fastOpen'',
          Ed := num_arg args ''ed'' 32 (Ed o1),
          ServiceName := str_arg args ''serviceName'' (ServiceName o1),
          Fingerprint := str_arg args ''fingerprint'' (Fingerprint o1) \<rparr>)"

named_theorems step_eqs

lemma on_key_field:
  "on_key args key (set_field upd) o1 =
     (None, if has_arg args key then upd (str_arg args key []) o1 else o1)"
  by (simp add: on_key_def has_arg_def str_arg_def set_field_def split: prod.splits)

lemma on_key_number:
  "on_key args key (set_number bits upd) o1 =
     (num_err args key bits,
      if has_arg args key \<and> num_err args key bits = None then upd (num_arg args key bits 0) o1 else o1)"
  by (simp add: on_key_def has_arg_def num_err_def num_arg_def set_number_def
      split: prod.splits sum.splits)

lemma str_field_steps [step_eqs]:
  "on_key args key (set_field (\<lambda>c o1. o1\<lparr>Mode := c\<rparr>)) o1 = (None, o1\<lparr>Mode := str_arg args key (Mode o1)\<rparr>)"
  "on_key args key (set_field (\<lambda>c o1. o1\<lparr>Hostname := c\<rparr>)) o1 = (None, o1\<lparr>Hostname := str_arg args key (Hostname o1)\<rparr>)"
  "on_key args key (set_field (\<lambda>c o1. o1\<lparr>Path := c\<rparr>)) o1 = (None, o1\<lparr>Path := str_arg args key (Path o1)\<rparr>)"
  "on_key args key (set_field (\<lambda>c o1. o1\<lparr>Cert := c\<rparr>)) o1 = (None, o1\<lparr>Cert := str_arg args key (Cert o1)\<rparr>)"
  "on_key args key (set_field (\<lambda>c o1. o1\<lparr>Key := c\<rparr>)) o1 = (None, o1\<lparr>Key := str_arg args key (Key o1)\<rparr>)"
  "on_key args key (set_field (\<lambda>c o1. o1\<lparr>ServerName := c\<rparr>)) o1 = (None, o1\<lparr>ServerName := str_arg args key (ServerName o1)\<rparr>)"
  "on_key args key (set_field (\<lambda>c o1. o1\<lparr>ServiceName := c\<rparr>)) o1 = (None, o1\<lparr>ServiceName := str_arg args key (ServiceName o1)\<rparr>)"
  "on_key args key (set_field (\<lambda>c o1. o1\<lparr>Fingerprint := c\<rparr>)) o1 = (None, o1\<lparr>Fingerprint := str_arg args key (Fingerprint o1)\<rparr>)"
  by (simp_all add: on_key_field str_arg_def)

lemma flag_steps [step_eqs]:
  "on_key args key (set_field (\<lambda>c o1. o1\<lparr>Nocomp := True\<rparr>)) o1 = (None, o1\<lparr>Nocomp := Nocomp o1 \<or> has_arg args key\<rparr>)"
  "on_key args key (set_field (\<lambda>c o1. o1\<lparr>Insecure := True\<rparr>)) o1 = (None, o1\<lparr>Insecure := Insecure o1 \<or> has_arg args key\<rparr>)"
  "on_key args key (set_field (\<lambda>c o1. o1\<lparr>Server := True\<rparr>)) o1 = (None, o1\<lparr>Server := Server o1 \<or> has_arg args key\<rparr>)"
  "on_key args key (set_field (\<lambda>c o1. o1\<lparr>FastOpen := True\<rparr>)) o1 = (None, o1\<lparr>FastOpen := FastOpen o1 \<or> has_arg args key\<rparr>)"
  "on_key args key (set_field (\<lambda>c o1. o1\<lparr>Vpn := True\<rparr>)) o1 = (None, o1\<lparr>Vpn := Vpn o1 \<or> has_arg args key\<rparr>)"
  by (simp_all add: on_key_field)

lemma addr_steps [step_eqs]:
  "on_key args key (set_field (\<lambda>c o1. if Server o1 then o1\<lparr>RemoteAddr := c\<rparr> else o1\<lparr>LocalAddr := c\<rparr>)) o1 =
     (None, o1\<lparr>RemoteAddr := (if Server o1 then str_arg args key (RemoteAddr o1) else RemoteAddr o1),
              LocalAddr := (if Server o1 then LocalAddr o1 else str_arg args key (LocalAddr o1))\<rparr>)"
  "on_key args key (set_field (\<lambda>c o1. if Server o1 then o1\<lparr>LocalAddr := c\<rparr> else o1\<lparr>RemoteAddr := c\<rparr>)) o1 =
     (None, o1\<lparr>LocalAddr := (if Server o1 then str_arg args key (LocalAddr o1) else LocalAddr o1),
              RemoteAddr := (if Server o1 then RemoteAddr o1 else str_arg args key (RemoteAddr o1))\<rparr>)"
  by (simp_all add: on_key_field str_arg_def)

lemma num_arg_0: "has_arg args key \<Longrightarrow> num_err args key bits = None \<Longrightarrow>
    num_arg args key bits 0 = num_arg args key bits d"
  by (simp add: num_arg_def num_err_def split: sum.splits)

lemma num_arg_none: "\<not> (has_arg args key \<and> num_err args key bits = None) \<Longrightarrow> num_arg args key bits d = d"
  by (auto simp: num_arg_def num_err_def split: sum.splits)

lemma number_steps [step_eqs]:
  "on_key args key (set_number bits (\<lambda>n o1. o1\<lparr>Mux := n\<rparr>)) o1 =
     (num_err args key bits, o1\<lparr>Mux := num_arg args key bits (Mux o1)\<rparr>)"
  "on_key args key (set_number bits (\<lambda>n o1. o1\<lparr>LogLevel := n\<rparr>)) o1 =
     (num_err args key bits, o1\<lparr>LogLevel := num_arg args key bits (LogLevel o1)\<rparr>)"
  "on_key args key (set_number bits (\<lambda>n o1. o1\<lparr>Ed := n\<rparr>)) o1 =
     (num_err args key bits, o1\<lparr>Ed := num_arg args key bits (Ed o1)\<rparr>)"
  by (auto simp: on_key_number num_arg_none num_arg_0)

lemma port_steps [step_eqs]:
  "on_key args key (set_number bits (\<lambda>n o1. if Server o1 then o1\<lparr>RemotePort := n\<rparr> else o1\<lparr>LocalPort := n\<rparr>)) o1 =
     (num_err args key bits,
      o1\<lparr>RemotePort := (if Server o1 then num_arg args key bits (RemotePort o1) else RemotePort o1),
         LocalPort := (if Server o1 then LocalPort o1 else num_arg args key bits (LocalPort o1))\<rparr>)"
  "on_key args key (set_number bits (\<lambda>n o1. if Server o1 then o1\<lparr>LocalPort := n\<rparr> else o1\<lparr>RemotePort := n\<rparr>)) o1 =
     (num_err args key bits,
      o1\<lparr>LocalPort := (if Server o1 then num_arg args key bits (LocalPort o1) else LocalPort o1),
         RemotePort := (if Server o1 then RemotePort o1 else num_arg args key bits (RemotePort o1))\<rparr>)"
  by (auto simp: on_key_number num_arg_none num_arg_0)


lemma first_num_err_None:
  assumes "first_num_err args num_keys = None"
  shows "num_err args ''mux'' 16 = None" "num_err args ''localPort'' 32 = None"
    "num_err args ''remotePort'' 32 = None" "num_err args ''logLevel'' 32 = None"
    "num_err args ''ed'' 32 = None"
  using assms unfolding num_keys_def first_num_err.simps by (auto split: option.splits)


lemmas apply_eval = run_steps.simps and_then_simps step_eqs Options.select_convs Options.update_convs

lemma run_steps_ok:
  assumes "first_num_err args num_keys = None"
  shows "run_steps (apply_steps args) o1 = (None, apply_spec args o1)"
proof -
  note e = first_num_err_None [OF assms]
  show ?thesis
  proof (cases o1)
    case (fields la lp ra rp h m p sn srv nc ins c k mx ll v fo ed svc fp)
    show ?thesis
    proof (cases "srv \<or> has_arg args ''server''")
      case True
      show ?thesis
        unfolding fields apply_steps_def apply_spec_def Let_def
        by (simp only: apply_eval e True if_True)
    next
      case False
      show ?thesis
        unfolding fields apply_steps_def apply_spec_def Let_def
        by (simp only: apply_eval e False if_False)
    qed
  qed
qed


lemma run_steps_err:
  assumes "first_num_err args num_keys = Some e"
  shows "\<exists>o2. run_steps (apply_steps args) o1 = (Some e, o2)"
proof -
  let ?m = "num_err args ''mux'' 16" and ?l = "num_err args ''localPort'' 32"
  let ?r = "num_err args ''remotePort'' 32" and ?g = "num_err args ''logLevel'' 32"
  let ?e = "num_err args ''ed'' 32"
  have "?m = Some e \<or> ?m = None \<and> ?l = Some e \<or> ?m = None \<and> ?l = None \<and> ?r = Some e \<or>
      ?m = None \<and> ?l = None \<and> ?r = None \<and> ?g = Some e \<or>
      ?m = None \<and> ?l = None \<and> ?r = None \<and> ?g = None \<and> ?e = Some e"
    using assms unfolding num_keys_def first_num_err.simps by (auto split: option.splits)
  then show ?thesis
    unfolding apply_steps_def
    by (elim disjE conjE; cases o1) (simp_all only: apply_eval prod.inject simp_thms)
qed

section \<open>Properties\<close>

text \<open>
  C11: What \<open>ApplyOptions\<close> does on every path. A malformed plugin option list fails with the
  parser's error and leaves the options alone. Otherwise the first malformed number, in the order
  mux, localPort, remotePort, logLevel, ed, is the error and the context is not bound. Otherwise
  every field is the argument's value or the old one, flags are only ever set, and in server mode
  the local arguments describe the remote end and the remote arguments the local one.
\<close>

theorem ApplyOptions_correct:
  "case parseEnv getenv of
     (args, Some e) \<Rightarrow> ApplyOptions getenv o1 = (True, o1, Some e)
   | (args, None) \<Rightarrow>
       (case first_num_err args num_keys of
          None \<Rightarrow> ApplyOptions getenv o1 = (True, apply_spec args o1, None)
        | Some e \<Rightarrow> \<exists>o2. ApplyOptions getenv o1 = (False, o2, Some e))"
proof (cases "parseEnv getenv")
  case (Pair args err)
  show ?thesis
  proof (cases "first_num_err args num_keys")
    case None
    then show ?thesis by (simp add: ApplyOptions_def Pair run_steps_ok split: option.splits)
  next
    case (Some e)
    obtain o2 where "run_steps (apply_steps args) o1 = (Some e, o2)"
      using run_steps_err [OF Some] by blast
    then show ?thesis by (simp add: ApplyOptions_def Pair Some split: option.splits)
  qed
qed

text \<open>The environment of a plugin that shadowsocks started: the four variables of SIP003 are set.\<close>

definition sip003_args :: "(bytes \<Rightarrow> bytes) \<Rightarrow> (bytes \<times> bytes) list \<Rightarrow> ArgsMap" where
  "sip003_args getenv kvs =
     foldl set_key
       (add_all [] [(''remoteAddr'', getenv ''SS_REMOTE_HOST''), (''remotePort'', getenv ''SS_REMOTE_PORT''),
                    (''localAddr'', getenv ''SS_LOCAL_HOST''), (''localPort'', getenv ''SS_LOCAL_PORT'')])
       (add_all [] kvs)"

lemma parseEnv_sip003:
  assumes "getenv ''SS_REMOTE_HOST'' \<noteq> []" "getenv ''SS_REMOTE_PORT'' \<noteq> []"
    and "getenv ''SS_LOCAL_HOST'' \<noteq> []"
    and "parse_fields CHR '';'' (getenv ''SS_PLUGIN_OPTIONS'') = (kvs, None)"
  shows "parseEnv getenv = (Some (sip003_args getenv kvs), None)"
proof (cases "getenv ''SS_PLUGIN_OPTIONS'' = []")
  case True
  with assms(4) have "kvs = []" by simp
  then show ?thesis using True assms(1-3) by (simp add: parseEnv_def sip003_args_def Let_def)
next
  case False
  then show ?thesis
    using assms by (simp add: parseEnv_def sip003_args_def Let_def parsePluginOptions_fields collect_def)
qed


lemma vals_of_override:
  assumes "map_of m = map_of m1 ++ map_of m2" and "args_inv m2"
  shows "vals_of m k = (if vals_of m2 k = [] then vals_of m1 k else vals_of m2 k)"
proof (cases "map_of m2 k")
  case None
  then show ?thesis by (simp add: vals_of_def assms(1) map_add_def)
next
  case (Some vs)
  then have "vs \<noteq> []"
    using assms(2) unfolding args_inv_def by (metis imageI map_of_SomeD snd_conv)
  with Some show ?thesis by (simp add: vals_of_def assms(1) map_add_def)
qed

lemma vals_of_sip003_args:
  "vals_of (sip003_args getenv kvs) k =
     (let own = map snd (filter (\<lambda>p. fst p = k) kvs) in
      if own \<noteq> [] then own
      else if k = ''remoteAddr'' then [getenv ''SS_REMOTE_HOST'']
      else if k = ''remotePort'' then [getenv ''SS_REMOTE_PORT'']
      else if k = ''localAddr'' then [getenv ''SS_LOCAL_HOST'']
      else if k = ''localPort'' then [getenv ''SS_LOCAL_PORT'']
      else [])"
proof -
  let ?base = "add_all [] [(''remoteAddr'', getenv ''SS_REMOTE_HOST''), (''remotePort'', getenv ''SS_REMOTE_PORT''),
                    (''localAddr'', getenv ''SS_LOCAL_HOST''), (''localPort'', getenv ''SS_LOCAL_PORT'')]"
  have inv: "args_inv (add_all [] kvs)" by (simp add: args_inv_add_all)
  then have "map_of (sip003_args getenv kvs) = map_of ?base ++ map_of (add_all [] kvs)"
    unfolding sip003_args_def by (intro foldl_set_key) (simp add: args_inv_def)
  then have "vals_of (sip003_args getenv kvs) k =
      (if vals_of (add_all [] kvs) k = [] then vals_of ?base k else vals_of (add_all [] kvs) k)"
    using inv by (rule vals_of_override)
  then show ?thesis
    by (simp only: vals_of_add_all vals_of_Nil append_Nil Let_def) (simp add: vals_of_add_all)
qed

lemma has_arg_vals: "has_arg (Some m) k \<longleftrightarrow> vals_of m k \<noteq> []"
  by (simp add: has_arg_def args_Get_vals split: list.splits)

lemma fst_args_Get: "vals_of m k = v # vs \<Longrightarrow> fst (args_Get (Some m) k) = v"
  by (simp add: args_Get_vals)

lemma filter_key_Nil: "k \<notin> fst ` set kvs \<Longrightarrow> filter (\<lambda>p. fst p = k) kvs = []"
  by (auto simp: filter_empty_conv)

lemma num_err_None:
  assumes "num_err args key bits = None" "has_arg args key" "bits \<le> 32"
  shows "num_arg args key bits d = of_nat (digits_value (fst (args_Get args key)))"
proof -
  obtain w where w: "ParseUint (fst (args_Get args key)) bits = Inr w"
    using assms(1,2) by (auto simp: num_err_def split: sum.splits)
  then have "w = of_nat (digits_value (fst (args_Get args key)))"
    using ParseUint_Inr [OF assms(3)] by blast
  with w assms(2) show ?thesis by (simp add: num_arg_def)
qed

text \<open>
  C12: Started by shadowsocks with all addresses in the environment and none of them overridden, a
  client listens on the local address of the environment and connects to the remote one; a server
  (a plugin option or a flag says so) listens on the remote address and connects to the local one.
\<close>

theorem sip003_roles:
  assumes "getenv ''SS_REMOTE_HOST'' \<noteq> []" "getenv ''SS_REMOTE_PORT'' \<noteq> []"
    and "getenv ''SS_LOCAL_HOST'' \<noteq> []"
    and "parse_fields CHR '';'' (getenv ''SS_PLUGIN_OPTIONS'') = (kvs, None)"
    and "fst ` set kvs \<inter> {''localAddr'', ''localPort'', ''remoteAddr'', ''remotePort''} = {}"
    and "first_num_err (Some (sip003_args getenv kvs)) num_keys = None"
  shows "\<exists>o2. ApplyOptions getenv o1 = (True, o2, None) \<and>
    (Server o2 \<longleftrightarrow> Server o1 \<or> ''server'' \<in> fst ` set kvs) \<and>
    (LocalAddr o2, LocalPort o2) =
      (if Server o2 then (getenv ''SS_REMOTE_HOST'', of_nat (digits_value (getenv ''SS_REMOTE_PORT'')))
       else (getenv ''SS_LOCAL_HOST'', of_nat (digits_value (getenv ''SS_LOCAL_PORT'')))) \<and>
    (RemoteAddr o2, RemotePort o2) =
      (if Server o2 then (getenv ''SS_LOCAL_HOST'', of_nat (digits_value (getenv ''SS_LOCAL_PORT'')))
       else (getenv ''SS_REMOTE_HOST'', of_nat (digits_value (getenv ''SS_REMOTE_PORT''))))"
proof -
  let ?args = "Some (sip003_args getenv kvs)"
  have ok: "ApplyOptions getenv o1 = (True, apply_spec ?args o1, None)"
    by (simp add: ApplyOptions_def parseEnv_sip003 [OF assms(1-4)] run_steps_ok [OF assms(6)])
  have own: "filter (\<lambda>p. fst p = k) kvs = []"
    if "k \<in> {''localAddr'', ''localPort'', ''remoteAddr'', ''remotePort''}" for k
    using assms(5) that by (intro filter_key_Nil) blast
  have v: "vals_of (sip003_args getenv kvs) ''remoteAddr'' = [getenv ''SS_REMOTE_HOST'']"
    "vals_of (sip003_args getenv kvs) ''remotePort'' = [getenv ''SS_REMOTE_PORT'']"
    "vals_of (sip003_args getenv kvs) ''localAddr'' = [getenv ''SS_LOCAL_HOST'']"
    "vals_of (sip003_args getenv kvs) ''localPort'' = [getenv ''SS_LOCAL_PORT'']"
    by (simp_all add: vals_of_sip003_args own Let_def)
  have srv: "has_arg ?args ''server'' \<longleftrightarrow> ''server'' \<in> fst ` set kvs"
    by (force simp: has_arg_vals vals_of_sip003_args Let_def filter_empty_conv)
  note e = first_num_err_None [OF assms(6)]
  have p: "num_arg ?args ''remotePort'' 32 d = of_nat (digits_value (getenv ''SS_REMOTE_PORT''))"
    "num_arg ?args ''localPort'' 32 d = of_nat (digits_value (getenv ''SS_LOCAL_PORT''))" for d
    using num_err_None [OF e(3)] num_err_None [OF e(2)] by (simp_all add: has_arg_vals v fst_args_Get)
  have a: "str_arg ?args ''remoteAddr'' d = getenv ''SS_REMOTE_HOST''"
    "str_arg ?args ''localAddr'' d = getenv ''SS_LOCAL_HOST''" for d
    by (simp_all add: str_arg_def has_arg_vals v fst_args_Get)
  show ?thesis
    by (intro exI [of _ "apply_spec ?args o1"]) (simp add: ok apply_spec_def Let_def srv p a)
qed

definition example_env :: "bytes \<Rightarrow> bytes" where
  "example_env k =
     (if k = ''SS_REMOTE_HOST'' then ''1.2.3.4'' else if k = ''SS_REMOTE_PORT'' then ''443''
      else if k = ''SS_LOCAL_HOST'' then ''::1'' else if k = ''SS_LOCAL_PORT'' then ''1984''
      else if k = ''SS_PLUGIN_OPTIONS'' then ''server;mode=wss'' else [])"

theorem sip003_roles_witness:
  "\<exists>o2. ApplyOptions example_env flag_defaults = (True, o2, None) \<and>
    LocalAddr o2 = ''1.2.3.4'' \<and> LocalPort o2 = of_nat (digits_value ''443'')"
proof -
  have f: "parse_fields CHR '';'' (example_env ''SS_PLUGIN_OPTIONS'') = ([(''server'', ''1''), (''mode'', ''wss'')], None)"
    by (simp add: example_env_def parse_fields.simps)
  have n: "first_num_err (Some (sip003_args example_env [(''server'', ''1''), (''mode'', ''wss'')])) num_keys = None"
    by (simp add: num_keys_def num_err_def has_arg_vals vals_of_sip003_args Let_def example_env_def
        fst_args_Get ParseUint_nat is_digit_iff digit_val_def)
  have "\<exists>o2. ApplyOptions example_env flag_defaults = (True, o2, None) \<and>
    (Server o2 \<longleftrightarrow> Server flag_defaults \<or> ''server'' \<in> fst ` set [(''server'', ''1''), (''mode'', ''wss'')]) \<and>
    (LocalAddr o2, LocalPort o2) =
      (if Server o2 then (example_env ''SS_REMOTE_HOST'', of_nat (digits_value (example_env ''SS_REMOTE_PORT'')))
       else (example_env ''SS_LOCAL_HOST'', of_nat (digits_value (example_env ''SS_LOCAL_PORT'')))) \<and>
    (RemoteAddr o2, RemotePort o2) =
      (if Server o2 then (example_env ''SS_LOCAL_HOST'', of_nat (digits_value (example_env ''SS_LOCAL_PORT'')))
       else (example_env ''SS_REMOTE_HOST'', of_nat (digits_value (example_env ''SS_REMOTE_PORT''))))"
    by (rule sip003_roles [OF _ _ _ f _ n]) (simp_all add: example_env_def)
  then show ?thesis by (auto simp: example_env_def)
qed


definition env_arg :: "(bytes \<Rightarrow> bytes) \<Rightarrow> bytes \<Rightarrow> bytes option" where
  "env_arg getenv k =
     (if k = ''remoteAddr'' then Some (getenv ''SS_REMOTE_HOST'')
      else if k = ''remotePort'' then Some (getenv ''SS_REMOTE_PORT'')
      else if k = ''localAddr'' then Some (getenv ''SS_LOCAL_HOST'')
      else if k = ''localPort'' then Some (getenv ''SS_LOCAL_PORT'')
      else None)"

text \<open>
  A plugin option replaces the address the environment gives for the same key: after
  \<open>parseEnv\<close>, \<open>Get\<close> answers with the first value of the key in the option list, and with the
  environment's value only when the list does not name the key.
\<close>

theorem plugin_options_override:
  assumes "getenv ''SS_REMOTE_HOST'' \<noteq> []" "getenv ''SS_REMOTE_PORT'' \<noteq> []"
    and "getenv ''SS_LOCAL_HOST'' \<noteq> []"
    and "parse_fields CHR '';'' (getenv ''SS_PLUGIN_OPTIONS'') = (kvs, None)"
  shows "args_Get (fst (parseEnv getenv)) k =
     (case map snd (filter (\<lambda>p. fst p = k) kvs) of
        v # _ \<Rightarrow> (v, True)
      | [] \<Rightarrow> (case env_arg getenv k of Some v \<Rightarrow> (v, True) | None \<Rightarrow> ([], False)))"
  by (simp add: parseEnv_sip003 [OF assms] args_Get_vals vals_of_sip003_args Let_def env_arg_def
      split: list.splits)

theorem plugin_options_override_witness:
  "args_Get (fst (parseEnv (\<lambda>k. if k = ''SS_PLUGIN_OPTIONS'' then ''localPort=7'' else ''1''))) ''localPort''
     = (''7'', True)"
proof -
  have "parse_fields CHR '';'' ''localPort=7'' = ([(''localPort'', ''7'')], None)"
    by (simp add: parse_fields.simps)
  then show ?thesis
    by (subst plugin_options_override [where kvs = "[(''localPort'', ''7'')]"]) simp_all
qed

lemma apply_spec_nothing: "apply_spec (Some []) o1 = o1"
  by (simp add: apply_spec_def Let_def has_arg_vals str_arg_def num_arg_def)

text \<open>
  Each of the first three variables of the environment switches the whole SIP003 handling off
  when it is missing: the options stay as the flags left them and nothing fails. The fourth one,
  SS_LOCAL_PORT, is never tested (the test of SS_LOCAL_HOST is there twice), so a missing one fails
  the start with a number syntax error on the empty string.
\<close>

theorem missing_env:
  "(getenv ''SS_REMOTE_HOST'' = [] \<or> getenv ''SS_REMOTE_PORT'' = [] \<or> getenv ''SS_LOCAL_HOST'' = []
      \<longrightarrow> ApplyOptions getenv o1 = (True, o1, None)) \<and>
   (getenv ''SS_REMOTE_HOST'' \<noteq> [] \<and> getenv ''SS_REMOTE_PORT'' \<noteq> [] \<and> getenv ''SS_LOCAL_HOST'' \<noteq> [] \<and>
      getenv ''SS_LOCAL_PORT'' = [] \<and> getenv ''SS_PLUGIN_OPTIONS'' = []
      \<longrightarrow> (\<exists>o2. ApplyOptions getenv o1 = (False, o2, Some (NumSyntax []))))"
proof (intro conjI impI; (elim conjE)?)
  assume "getenv ''SS_REMOTE_HOST'' = [] \<or> getenv ''SS_REMOTE_PORT'' = [] \<or> getenv ''SS_LOCAL_HOST'' = []"
  then have "parseEnv getenv = (Some [], None)" by (auto simp: parseEnv_def Let_def)
  moreover have "first_num_err (Some []) num_keys = None"
    by (simp add: num_keys_def num_err_def has_arg_vals)
  ultimately show "ApplyOptions getenv o1 = (True, o1, None)"
    by (simp add: ApplyOptions_def run_steps_ok apply_spec_nothing)
next
  assume env: "getenv ''SS_REMOTE_HOST'' \<noteq> []" "getenv ''SS_REMOTE_PORT'' \<noteq> []"
    "getenv ''SS_LOCAL_HOST'' \<noteq> []" "getenv ''SS_LOCAL_PORT'' = []" "getenv ''SS_PLUGIN_OPTIONS'' = []"
  have "parse_fields CHR '';'' (getenv ''SS_PLUGIN_OPTIONS'') = ([], None)" by (simp add: env)
  then have args: "parseEnv getenv = (Some (sip003_args getenv []), None)"
    using parseEnv_sip003 env by blast
  have "first_num_err (Some (sip003_args getenv [])) num_keys = Some (NumSyntax [])"
    by (simp add: num_keys_def num_err_def has_arg_vals vals_of_sip003_args fst_args_Get ParseUint_def env)
  then obtain o2 where "run_steps (apply_steps (Some (sip003_args getenv []))) o1 = (Some (NumSyntax []), o2)"
    using run_steps_err by blast
  then show "\<exists>o2. ApplyOptions getenv o1 = (False, o2, Some (NumSyntax []))"
    by (simp add: ApplyOptions_def args)
qed

theorem missing_env_witness:
  "ApplyOptions (\<lambda>_. []) flag_defaults = (True, flag_defaults, None) \<and>
   (\<exists>o2. ApplyOptions (\<lambda>k. if k \<in> {''SS_REMOTE_HOST'', ''SS_REMOTE_PORT'', ''SS_LOCAL_HOST''} then ''1'' else [])
      flag_defaults = (False, o2, Some (NumSyntax [])))"
  using missing_env [of "\<lambda>_. []" flag_defaults]
    missing_env [of "\<lambda>k. if k \<in> {''SS_REMOTE_HOST'', ''SS_REMOTE_PORT'', ''SS_LOCAL_HOST''} then ''1'' else []" flag_defaults]
  by simp

section \<open>Widths\<close>

text \<open>The numbers of the options are Go uints; the plugin options are parsed at 16 or 32 bits.\<close>

definition numbers_fit :: "Options \<Rightarrow> bool" where
  "numbers_fit o1 \<longleftrightarrow> unat (Mux o1) < 2 ^ 16 \<and> unat (LocalPort o1) < 2 ^ 32 \<and>
     unat (RemotePort o1) < 2 ^ 32 \<and> unat (LogLevel o1) < 2 ^ 32 \<and> unat (Ed o1) < 2 ^ 32"

definition keeps :: "(Options \<Rightarrow> bool) \<Rightarrow> (Options \<Rightarrow> apply_state) \<Rightarrow> bool" where
  "keeps P f \<longleftrightarrow> (\<forall>o1. P o1 \<longrightarrow> P (snd (f o1)))"

lemma run_steps_keeps: "\<forall>f \<in> set fs. keeps P f \<Longrightarrow> P o1 \<Longrightarrow> P (snd (run_steps fs o1))"
proof (induction fs arbitrary: o1)
  case (Cons f fs)
  then show ?case by (cases "f o1"; cases "fst (f o1)") (auto simp: keeps_def and_then_def split: option.splits)
qed simp

lemma keeps_field: "(\<And>c o1. P o1 \<Longrightarrow> P (upd c o1)) \<Longrightarrow> keeps P (on_key args key (set_field upd))"
  by (simp add: keeps_def on_key_def set_field_def split: prod.splits)

lemma keeps_number:
  assumes "bits \<le> 32" "\<And>w o1. unat w < 2 ^ bits \<Longrightarrow> P o1 \<Longrightarrow> P (upd w o1)"
  shows "keeps P (on_key args key (set_number bits upd))"
proof -
  have "unat w < 2 ^ bits" if "ParseUint c bits = Inr w" for c w
    using that ParseUint_Inr [OF assms(1)] by (auto simp: unat_of_nat intro: le_less_trans [OF mod_less_eq_dividend])
  then show ?thesis using assms(2)
    by (auto simp: keeps_def on_key_def set_number_def split: prod.splits sum.splits)
qed

text \<open>
  C31: The widths of the numeric options survive \<open>ApplyOptions\<close> on every path, an error in the
  middle included: \<open>mux\<close>, which bounds the streams of a session, stays below 65536 and every other
  number below 2 to the 32, whatever the plugin options say.
\<close>

theorem ApplyOptions_widths:
  assumes "numbers_fit o1" "ApplyOptions getenv o1 = (bound, o2, err)"
  shows "numbers_fit o2"
proof -
  have "\<forall>f \<in> set (apply_steps args). keeps numbers_fit f" for args
    unfolding apply_steps_def list.set ball_simps
    by (intro conjI TrueI keeps_field keeps_number) (simp_all add: numbers_fit_def)
  then have steps: "numbers_fit (snd (run_steps (apply_steps args) o1))" for args
    using run_steps_keeps assms(1) by blast
  obtain args e where env: "parseEnv getenv = (args, e)" by fastforce
  show ?thesis
  proof (cases e)
    case None
    then have "o2 = snd (run_steps (apply_steps args) o1)"
      using assms(2) by (cases "run_steps (apply_steps args) o1") (auto simp: ApplyOptions_def env split: option.splits)
    then show ?thesis using steps by simp
  qed (use assms in \<open>simp add: ApplyOptions_def env\<close>)
qed

theorem ApplyOptions_widths_witness:
  "case ApplyOptions example_env (flag_defaults\<lparr>LogLevel := 6\<rparr>) of (bound, o2, err) \<Rightarrow> numbers_fit o2"
proof -
  have "numbers_fit (flag_defaults\<lparr>LogLevel := 6\<rparr>)" by (simp add: numbers_fit_def flag_defaults_def)
  then show ?thesis using ApplyOptions_widths [of "flag_defaults\<lparr>LogLevel := 6\<rparr>" example_env]
    by (cases "ApplyOptions example_env (flag_defaults\<lparr>LogLevel := 6\<rparr>)") simp
qed

end
