(* ===== verification/GoFlag.thy ===== *)
theory GoFlag
  imports GoStrings
begin

text \<open>
  Go's package \<open>flag\<close> as far as src/main.go uses it: a flag set with string, unsigned and boolean
  variables and \<open>Parse\<close> with \<open>ExitOnError\<close>; with it \<open>strconv.ParseUint\<close> in base 0, where the prefix
  of the text chooses the base and underscores may separate digits, and \<open>strconv.ParseBool\<close>.
\<close>

unbundle bit_operations_syntax

section \<open>strconv.ParseUint in base 0\<close>

text \<open>\<open>lower(c)\<close> is \<open>c | ('x' - 'X')\<close>; the digit value of a byte, if it has one.\<close>

definition lower_letter :: "char \<Rightarrow> char" where
  "lower_letter c = char_of ((of_char c :: nat) OR 32)"

definition letter_digit :: "char \<Rightarrow> nat option" where
  "letter_digit c =
     (if is_digit c then Some (digit_val c)
      else if CHR ''a'' \<le> lower_letter c \<and> lower_letter c \<le> CHR ''z''
      then Some (of_char (lower_letter c) - 97 + 10)
      else None)"

fun parse_base_loop :: "bytes \<Rightarrow> nat \<Rightarrow> uint \<Rightarrow> bool \<Rightarrow> bytes \<Rightarrow> (uint \<times> bool) result" where
  "parse_base_loop s0 base n underscores [] = Inr (n, underscores)"
| "parse_base_loop s0 base n underscores (c # cs) =
     (if c = CHR ''_'' then parse_base_loop s0 base n True cs
      else case letter_digit c of
        None \<Rightarrow> Inl (NumSyntax s0)
      | Some d \<Rightarrow>
          if base \<le> d then Inl (NumSyntax s0)
          else if of_nat ((2 ^ 64 - 1) div base + 1) \<le> n then Inl (NumRange s0)
          else let m = n * of_nat base; n1 = m + of_nat d
               in if n1 < m \<or> (- 1) < n1 then Inl (NumRange s0)
                  else parse_base_loop s0 base n1 underscores cs)"

text \<open>The scan of \<open>underscoreOK\<close>: an underscore stands between digits or behind the prefix.\<close>

fun underscore_scan :: "bool \<Rightarrow> char \<Rightarrow> bytes \<Rightarrow> bool" where
  "underscore_scan hex saw [] = (saw \<noteq> CHR ''_'')"
| "underscore_scan hex saw (c # s) =
     (if is_digit c \<or> hex \<and> CHR ''a'' \<le> lower_letter c \<and> lower_letter c \<le> CHR ''f''
      then underscore_scan hex CHR ''0'' s
      else if c = CHR ''_'' then saw = CHR ''0'' \<and> underscore_scan hex CHR ''_'' s
      else saw \<noteq> CHR ''_'' \<and> underscore_scan hex CHR ''!'' s)"

definition base_prefix :: "bytes \<Rightarrow> nat option" where
  "base_prefix s =
     (if length s < 2 \<or> s ! 0 \<noteq> CHR ''0'' then None
      else if lower_letter (s ! 1) = CHR ''b'' then Some 2
      else if lower_letter (s ! 1) = CHR ''o'' then Some 8
      else if lower_letter (s ! 1) = CHR ''x'' then Some 16
      else None)"

definition underscoreOK :: "bytes \<Rightarrow> bool" where
  "underscoreOK s0 =
     (let s = (if s0 \<noteq> [] \<and> (s0 ! 0 = CHR ''-'' \<or> s0 ! 0 = CHR ''+'') then drop 1 s0 else s0)
      in case base_prefix s of
           Some b \<Rightarrow> underscore_scan (b = 16) CHR ''0'' (drop 2 s)
         | None \<Rightarrow> underscore_scan False CHR ''^'' s)"

definition ParseUint0 :: "bytes \<Rightarrow> uint result" where
  "ParseUint0 s =
     (if s = [] then Inl (NumSyntax s)
      else
        let (base, t) =
          (if s ! 0 = CHR ''0'' then
             (case base_prefix s of
                Some b \<Rightarrow> if 3 \<le> length s then (b, drop 2 s) else (8, drop 1 s)
              | None \<Rightarrow> (8, drop 1 s))
           else (10, s))
        in case parse_base_loop s base 0 False t of
             Inl err \<Rightarrow> Inl err
           | Inr (n, underscores) \<Rightarrow> if underscores \<and> \<not> underscoreOK s then Inl (NumSyntax s) else Inr n)"

text \<open>The loop on natural numbers: the value must stay below \<open>2 ^ 64\<close>, and nothing wraps around.\<close>

fun parse_base_nat :: "bytes \<Rightarrow> nat \<Rightarrow> nat \<Rightarrow> bool \<Rightarrow> bytes \<Rightarrow> (nat \<times> bool) result" where
  "parse_base_nat s0 base n underscores [] = Inr (n, underscores)"
| "parse_base_nat s0 base n underscores (c # cs) =
     (if c = CHR ''_'' then parse_base_nat s0 base n True cs
      else case letter_digit c of
        None \<Rightarrow> Inl (NumSyntax s0)
      | Some d \<Rightarrow>
          if base \<le> d then Inl (NumSyntax s0)
          else if 2 ^ 64 \<le> n * base + d then Inl (NumRange s0)
          else parse_base_nat s0 base (n * base + d) underscores cs)"

lemma cutoff_iff:
  assumes "0 < base" "base \<noteq> 1" "n < 2 ^ 64"
  shows "(of_nat ((2 ^ 64 - 1) div base + 1) :: uint) \<le> of_nat n \<longleftrightarrow> 2 ^ 64 \<le> n * base"
proof -
  have "(2 ^ 64 - 1) div base + 1 < (2::nat) ^ 64"
    using div_le_mono2 [of 2 base "2 ^ 64 - 1"] assms by simp
  then have "(of_nat ((2 ^ 64 - 1) div base + 1) :: uint) \<le> of_nat n \<longleftrightarrow> (2 ^ 64 - 1) div base < n"
    unfolding word_le_nat_alt using assms(3) by (simp only: unat_of_nat_small) linarith
  also have "\<dots> \<longleftrightarrow> 2 ^ 64 - 1 < n * base" using assms(1) by (rule div_less_iff_less_mult)
  also have "\<dots> \<longleftrightarrow> 2 ^ 64 \<le> n * base" by (simp add: Suc_le_eq) linarith
  finally show ?thesis .
qed

lemma wrap_iff:
  assumes "m < 2 ^ 64" "d < 2 ^ 64"
  shows "(of_nat m + of_nat d :: uint) < of_nat m \<longleftrightarrow> 2 ^ 64 \<le> m + d"
  using assms by (auto simp: word_less_nat_alt unat_of_nat_small unat_plus_if' )

lemma parse_base_loop_nat:
  assumes "1 < base" "base \<le> 36" "n < 2 ^ 64"
  shows "parse_base_loop s0 base (of_nat n) us cs =
    map_sum id (apfst of_nat) (parse_base_nat s0 base n us cs)"
  using assms(3)
proof (induction cs arbitrary: n us)
  case (Cons c cs)
  show ?case
  proof (cases "c = CHR ''_'' \<or> letter_digit c = None \<or> (\<exists>d. letter_digit c = Some d \<and> base \<le> d)")
    case True
    then show ?thesis using Cons by auto
  next
    case False
    then obtain d where d: "letter_digit c = Some d" "d < base" "c \<noteq> CHR ''_''" by auto
    show ?thesis
    proof (cases "2 ^ 64 \<le> n * base")
      case True
      then have "(of_nat ((2 ^ 64 - 1) div base + 1) :: uint) \<le> of_nat n"
        using cutoff_iff [of base n] assms Cons.prems by simp
      then show ?thesis using d True by (simp del: of_nat_add of_nat_Suc)
    next
      case f: False
      then have "\<not> (of_nat ((2 ^ 64 - 1) div base + 1) :: uint) \<le> of_nat n"
        using cutoff_iff [of base n] assms Cons.prems by simp
      moreover have "(of_nat (n * base) + of_nat d :: uint) < of_nat (n * base) \<longleftrightarrow> 2 ^ 64 \<le> n * base + d"
        using wrap_iff [of "n * base" d] f d(2) assms(2) by simp
      ultimately show ?thesis
        using d Cons.IH [of "n * base + d" us] by (simp add: Let_def del: of_nat_add of_nat_mult add: of_nat_add [symmetric] of_nat_mult [symmetric])
    qed
  qed
qed simp

text \<open>A decimal text is read back: it has no leading zero, so the base is ten.\<close>

lemma letter_digit_digit: "is_digit c \<Longrightarrow> letter_digit c = Some (digit_val c)"
  by (simp add: letter_digit_def)

lemma not_digit_underscore [simp]: "\<not> is_digit CHR ''_''"
  by (simp add: is_digit_iff)

lemma parse_base_nat_digits:
  "\<forall>c \<in> set cs. is_digit c \<Longrightarrow> foldl (\<lambda>n c. n * 10 + digit_val c) n cs < 2 ^ 64 \<Longrightarrow>
     parse_base_nat s0 10 n us cs = Inr (foldl (\<lambda>n c. n * 10 + digit_val c) n cs, us)"
proof (induction cs arbitrary: n)
  case (Cons c cs)
  let ?f = "foldl (\<lambda>n c. n * 10 + digit_val c)"
  have mono: "k \<le> ?f k xs" for k :: nat and xs
  proof (induction xs arbitrary: k)
    case (Cons a xs)
    show ?case using Cons.IH [of "k * 10 + digit_val a"] by simp
  qed simp
  have b: "n * 10 + digit_val c < 2 ^ 64"
    using mono [of "n * 10 + digit_val c" cs] Cons.prems(2) by simp
  have d: "is_digit c" "c \<noteq> CHR ''_''" using Cons.prems(1) by auto
  show ?case using Cons b d by (simp add: letter_digit_digit digit_val_less not_le)
qed simp

lemma decimal_head: "0 < n \<Longrightarrow> hd (decimal n) \<noteq> CHR ''0''"
proof (induction n rule: decimal.induct)
  case (1 n)
  have eq: "decimal n = (if n < 10 then [digit n] else decimal (n div 10) @ [digit (n mod 10)])"
    by (rule decimal.simps)
  show ?case
  proof (cases "n < 10")
    case True
    then have "(of_char (digit n) :: nat) \<noteq> of_char CHR ''0''" using 1 by simp
    then have "digit n \<noteq> CHR ''0''" by metis
    then show ?thesis using True eq by simp
  next
    case False
    then show ?thesis using 1 eq by (simp add: div_greater_zero_iff)
  qed
qed

lemma ParseUint0_decimal: "n < 2 ^ 64 \<Longrightarrow> ParseUint0 (decimal n) = Inr (of_nat n)"
proof (cases "n = 0")
  case True
  have "digit 0 = CHR ''0''" by code_simp
  with True show ?thesis by (simp add: ParseUint0_def decimal.simps [of 0] base_prefix_def)
next
  case False
  assume n: "n < 2 ^ 64"
  have "decimal n ! 0 \<noteq> CHR ''0''" using False decimal_head [of n] by (simp add: hd_conv_nth)
  moreover have "parse_base_nat (decimal n) 10 0 False (decimal n) = Inr (n, False)"
    using parse_base_nat_digits [of "decimal n" 0 "decimal n" False] n digits_value_decimal [of n]
    by (simp add: decimal_digits digits_value_def)
  then have "parse_base_loop (decimal n) 10 0 False (decimal n) = Inr (of_nat n, False)"
    using parse_base_loop_nat [of 10 0 "decimal n" False "decimal n"] by simp
  ultimately show ?thesis by (simp add: ParseUint0_def)
qed

definition ParseBool :: "bytes \<Rightarrow> bool result" where
  "ParseBool s =
     (if s \<in> {''1'', ''t'', ''T'', ''true'', ''TRUE'', ''True''} then Inr True
      else if s \<in> {''0'', ''f'', ''F'', ''false'', ''FALSE'', ''False''} then Inr False
      else Inl (NumSyntax s))"

section \<open>The flag set\<close>

text \<open>
  A flag is bound to a variable of the state; a variable is its assignment. \<open>Set\<close> parses the text and
  assigns.
\<close>

datatype 'o flag_var =
    StringVar "bytes \<Rightarrow> 'o \<Rightarrow> 'o"
  | UintVar "uint \<Rightarrow> 'o \<Rightarrow> 'o"
  | BoolVar "bool \<Rightarrow> 'o \<Rightarrow> 'o"

definition flag_Set :: "'o flag_var \<Rightarrow> bytes \<Rightarrow> 'o \<Rightarrow> 'o result" where
  "flag_Set v s st =
     (case v of
        StringVar assign \<Rightarrow> Inr (assign s st)
      | UintVar assign \<Rightarrow> bind_result (ParseUint0 s) (\<lambda>n. Inr (assign n st))
      | BoolVar assign \<Rightarrow> bind_result (ParseBool s) (\<lambda>b. Inr (assign b st)))"

definition IsBoolFlag :: "'o flag_var \<Rightarrow> bool" where
  "IsBoolFlag v = (case v of BoolVar _ \<Rightarrow> True | _ \<Rightarrow> False)"

datatype flag_error =
    BadFlagSyntax bytes
  | FlagNotDefined bytes
  | FlagNeedsArgument bytes
  | InvalidFlagValue bytes bytes go_error

text \<open>
  One round of \<open>Parse\<close>: a flag was seen and set, with the arguments that are left; or the flags are over;
  or help was asked for; or there is an error.
\<close>

datatype 'o flag_round =
    FlagSeen 'o "bytes list"
  | FlagsOver "bytes list"
  | HelpAsked
  | FlagFailed flag_error

definition flag_name :: "bytes \<Rightarrow> bytes \<times> bytes option" where
  "flag_name name =
     (case index_byte (drop 1 name) CHR ''='' of
        None \<Rightarrow> (name, None)
      | Some i \<Rightarrow> (take (i + 1) name, Some (drop (i + 2) name)))"

definition set_flag :: "'o flag_var \<Rightarrow> bytes \<Rightarrow> bytes \<Rightarrow> bytes list \<Rightarrow> 'o \<Rightarrow> 'o flag_round" where
  "set_flag v name value args st =
     (case flag_Set v value st of
        Inl err \<Rightarrow> FlagFailed (InvalidFlagValue value name err)
      | Inr st \<Rightarrow> FlagSeen st args)"

definition parseOne :: "(bytes \<times> 'o flag_var) list \<Rightarrow> bytes list \<Rightarrow> 'o \<Rightarrow> 'o flag_round" where
  "parseOne formal args0 st =
     (case args0 of
        [] \<Rightarrow> FlagsOver []
      | s # args \<Rightarrow>
          if length s < 2 \<or> s ! 0 \<noteq> CHR ''-'' then FlagsOver args0
          else if s = ''--'' then FlagsOver args
          else
            let text = drop (if s ! 1 = CHR ''-'' then 2 else 1) s
            in if text = [] \<or> text ! 0 = CHR ''-'' \<or> text ! 0 = CHR ''='' then FlagFailed (BadFlagSyntax s)
               else
                 let (name, value) = flag_name text
                 in (case map_of formal name of
                       None \<Rightarrow>
                         if name = ''help'' \<or> name = ''h'' then HelpAsked
                         else FlagFailed (FlagNotDefined name)
                     | Some v \<Rightarrow>
                         if IsBoolFlag v then
                           set_flag v name (case value of Some x \<Rightarrow> x | None \<Rightarrow> ''true'') args st
                         else (case value of
                             Some x \<Rightarrow> set_flag v name x args st
                           | None \<Rightarrow>
                               (case args of
                                  [] \<Rightarrow> FlagFailed (FlagNeedsArgument name)
                                | x # args \<Rightarrow> set_flag v name x args st))))"

lemma set_flag_rest: "set_flag v name value args st = FlagSeen st' rest \<Longrightarrow> rest = args"
  by (auto simp: set_flag_def split: sum.splits)

lemma parseOne_shrinks: "parseOne formal args st = FlagSeen st' rest \<Longrightarrow> length rest < length args"
  by (auto simp: parseOne_def Let_def dest!: set_flag_rest split: list.splits if_splits option.splits prod.splits)

datatype 'o flag_result = Parsed 'o "bytes list" | ParseHelp | ParseFailed flag_error

function Parse :: "(bytes \<times> 'o flag_var) list \<Rightarrow> bytes list \<Rightarrow> 'o \<Rightarrow> 'o flag_result" where
  "Parse formal args st =
     (case parseOne formal args st of
        FlagSeen st rest \<Rightarrow> Parse formal rest st
      | FlagsOver rest \<Rightarrow> Parsed st rest
      | HelpAsked \<Rightarrow> ParseHelp
      | FlagFailed err \<Rightarrow> ParseFailed err)"
  by pat_completeness auto
termination
  by (relation "measure (\<lambda>(formal, args, st). length args)") (auto dest: parseOne_shrinks)

declare Parse.simps [simp del]

text \<open>\<open>ExitOnError\<close>: help ends the process with status 0, an error with status 2.\<close>

definition flag_exit_status :: "'o flag_result \<Rightarrow> nat option" where
  "flag_exit_status r = (case r of Parsed _ _ \<Rightarrow> None | ParseHelp \<Rightarrow> Some 0 | ParseFailed _ \<Rightarrow> Some 2)"

section \<open>Writing flags\<close>

text \<open>
  The ways to write a flag: one dash or two, the value behind an equals sign or as the next argument
  (not for a boolean flag).
\<close>

record flag_style =
  two_dashes :: bool
  equals_sign :: bool

definition write_flag :: "flag_style \<Rightarrow> 'o flag_var \<Rightarrow> bytes \<Rightarrow> bytes \<Rightarrow> bytes list" where
  "write_flag sty v name value =
     (let dashed = (if two_dashes sty then ''--'' else ''-'') @ name
      in if equals_sign sty \<or> IsBoolFlag v then [dashed @ ''='' @ value] else [dashed, value])"

definition plain_name :: "bytes \<Rightarrow> bool" where
  "plain_name name \<longleftrightarrow> name \<noteq> [] \<and> name ! 0 \<noteq> CHR ''-'' \<and> CHR ''='' \<notin> set name"

lemma flag_name_plain:
  assumes "plain_name name"
  shows "flag_name name = (name, None)" "flag_name (name @ ''='' @ value) = (name, Some value)"
  using assms by (cases name; simp add: plain_name_def flag_name_def)+

lemma Parse_write_flag:
  assumes "plain_name name" "map_of formal name = Some v" "flag_Set v value st = Inr st'"
  shows "Parse formal (write_flag sty v name value @ args) st = Parse formal args st'"
proof -
  obtain c cs where n: "name = c # cs" "c \<noteq> CHR ''-''" "c \<noteq> CHR ''=''"
    using assms(1) by (cases name) (auto simp: plain_name_def)
  note f = flag_name_plain [OF assms(1), unfolded n(1)]
  have "parseOne formal (write_flag sty v name value @ args) st = FlagSeen st' args"
    using assms(2,3) n f
    by (auto simp: parseOne_def write_flag_def Let_def set_flag_def split: option.split)
  then show ?thesis by (subst Parse.simps) simp
qed

text \<open>A sequence of well written flags assigns their variables, one after the other.\<close>

definition assign_flag :: "(bytes \<times> 'o flag_var) list \<Rightarrow> bytes \<times> bytes \<Rightarrow> 'o \<Rightarrow> 'o result" where
  "assign_flag formal nt st =
     (case map_of formal (fst nt) of
        None \<Rightarrow> Inl (NumSyntax (fst nt))
      | Some v \<Rightarrow> flag_Set v (snd nt) st)"

fun assign_flags :: "(bytes \<times> 'o flag_var) list \<Rightarrow> (bytes \<times> bytes) list \<Rightarrow> 'o \<Rightarrow> 'o result" where
  "assign_flags formal [] st = Inr st"
| "assign_flags formal (nt # nts) st = bind_result (assign_flag formal nt st) (assign_flags formal nts)"

definition write_flags :: "(bytes \<Rightarrow> flag_style) \<Rightarrow> (bytes \<times> 'o flag_var) list \<Rightarrow> (bytes \<times> bytes) list \<Rightarrow> bytes list" where
  "write_flags sty formal nts =
     concat (map (\<lambda>(name, value). case map_of formal name of
       None \<Rightarrow> [] | Some v \<Rightarrow> write_flag (sty name) v name value) nts)"

lemma Parse_write_flags:
  assumes "\<forall>(name, value) \<in> set nts. plain_name name" "assign_flags formal nts st = Inr st'"
  shows "Parse formal (write_flags sty formal nts @ args) st = Parse formal args st'"
  using assms
proof (induction nts arbitrary: st)
  case (Cons nt nts)
  obtain name x where nt: "nt = (name, x)" by (cases nt) auto
  obtain v st1 where v: "map_of formal name = Some v" "flag_Set v x st = Inr st1" "assign_flags formal nts st1 = Inr st'"
    using Cons.prems(2) nt by (auto simp: assign_flag_def bind_result_eq_Inr split: option.splits)
  have "Parse formal (write_flags sty formal (nt # nts) @ args) st
      = Parse formal (write_flag (sty name) v name x @ write_flags sty formal nts @ args) st"
    using nt v(1) by (simp add: write_flags_def)
  also have "\<dots> = Parse formal (write_flags sty formal nts @ args) st1"
    using Cons.prems(1) nt v(1,2) by (intro Parse_write_flag) auto
  also have "\<dots> = Parse formal args st'" using Cons nt v(3) by simp
  finally show ?case .
qed (simp add: write_flags_def)

text \<open>Where the flags end.\<close>

definition positional :: "bytes list \<Rightarrow> bool" where
  "positional args \<longleftrightarrow> (case args of [] \<Rightarrow> True | s # _ \<Rightarrow> length s < 2 \<or> s ! 0 \<noteq> CHR ''-'')"

lemma Parse_positional: "positional args \<Longrightarrow> Parse formal args st = Parsed st args"
  by (subst Parse.simps) (auto simp: parseOne_def positional_def split: list.splits)

end
