(* ===== verification/CommandLine.thy ===== *)
theory CommandLine
  imports GoFlag Args
begin

text \<open>
  The flag set of src/main.go: its twenty-one flags with the variables they are bound to. The variables
  start with the default values.
\<close>

record command_line =
  cl_version :: bool
  cl_options :: Options

definition defaults :: command_line where
  "defaults = \<lparr>cl_version = False, cl_options = flag_defaults\<rparr>"

definition on_options :: "('a \<Rightarrow> Options \<Rightarrow> Options) \<Rightarrow> 'a \<Rightarrow> command_line \<Rightarrow> command_line" where
  "on_options f x cl = cl\<lparr>cl_options := f x (cl_options cl)\<rparr>"

definition main_flags :: "(bytes \<times> command_line flag_var) list" where
  "main_flags =
     [ (''version'', BoolVar (\<lambda>b cl. cl\<lparr>cl_version := b\<rparr>)),
       (''localAddr'', StringVar (on_options (\<lambda>x o1. o1\<lparr>LocalAddr := x\<rparr>))),
       (''localPort'', UintVar (on_options (\<lambda>x o1. o1\<lparr>LocalPort := x\<rparr>))),
       (''remoteAddr'', StringVar (on_options (\<lambda>x o1. o1\<lparr>RemoteAddr := x\<rparr>))),
       (''remotePort'', UintVar (on_options (\<lambda>x o1. o1\<lparr>RemotePort := x\<rparr>))),
       (''path'', StringVar (on_options (\<lambda>x o1. o1\<lparr>Path := x\<rparr>))),
       (''host'', StringVar (on_options (\<lambda>x o1. o1\<lparr>Hostname := x\<rparr>))),
       (''serverName'', StringVar (on_options (\<lambda>x o1. o1\<lparr>ServerName := x\<rparr>))),
       (''cert'', StringVar (on_options (\<lambda>x o1. o1\<lparr>Cert := x\<rparr>))),
       (''key'', StringVar (on_options (\<lambda>x o1. o1\<lparr>Key := x\<rparr>))),
       (''mode'', StringVar (on_options (\<lambda>x o1. o1\<lparr>Mode := x\<rparr>))),
       (''server'', BoolVar (on_options (\<lambda>x o1. o1\<lparr>Server := x\<rparr>))),
       (''nocomp'', BoolVar (on_options (\<lambda>x o1. o1\<lparr>Nocomp := x\<rparr>))),
       (''insecure'', BoolVar (on_options (\<lambda>x o1. o1\<lparr>Insecure := x\<rparr>))),
       (''mux'', UintVar (on_options (\<lambda>x o1. o1\<lparr>Mux := x\<rparr>))),
       (''logLevel'', UintVar (on_options (\<lambda>x o1. o1\<lparr>LogLevel := x\<rparr>))),
       (''V'', BoolVar (on_options (\<lambda>x o1. o1\<lparr>Vpn := x\<rparr>))),
       (''fast-open'', BoolVar (on_options (\<lambda>x o1. o1\<lparr>FastOpen := x\<rparr>))),
       (''ed'', UintVar (on_options (\<lambda>x o1. o1\<lparr>Ed := x\<rparr>))),
       (''serviceName'', StringVar (on_options (\<lambda>x o1. o1\<lparr>ServiceName := x\<rparr>))),
       (''fingerprint'', StringVar (on_options (\<lambda>x o1. o1\<lparr>Fingerprint := x\<rparr>))) ]"

definition parse_command_line :: "bytes list \<Rightarrow> command_line flag_result" where
  "parse_command_line args = Parse main_flags args defaults"

section \<open>Writing a command line\<close>

definition uint_text :: "uint \<Rightarrow> bytes" where
  "uint_text w = decimal (unat w)"

definition bool_text :: "bool \<Rightarrow> bytes" where
  "bool_text b = (if b then ''true'' else ''false'')"

definition flag_texts :: "command_line \<Rightarrow> (bytes \<times> bytes) list" where
  "flag_texts cl =
     (let o1 = cl_options cl in
      [ (''version'', bool_text (cl_version cl)), (''localAddr'', LocalAddr o1),
        (''localPort'', uint_text (LocalPort o1)), (''remoteAddr'', RemoteAddr o1),
        (''remotePort'', uint_text (RemotePort o1)), (''path'', Path o1), (''host'', Hostname o1),
        (''serverName'', ServerName o1), (''cert'', Cert o1), (''key'', Key o1), (''mode'', Mode o1),
        (''server'', bool_text (Server o1)), (''nocomp'', bool_text (Nocomp o1)),
        (''insecure'', bool_text (Insecure o1)), (''mux'', uint_text (Mux o1)),
        (''logLevel'', uint_text (LogLevel o1)), (''V'', bool_text (Vpn o1)),
        (''fast-open'', bool_text (FastOpen o1)), (''ed'', uint_text (Ed o1)),
        (''serviceName'', ServiceName o1), (''fingerprint'', Fingerprint o1) ])"

definition write_command_line :: "(bytes \<Rightarrow> flag_style) \<Rightarrow> command_line \<Rightarrow> bytes list" where
  "write_command_line sty cl = write_flags sty main_flags (flag_texts cl)"

lemma ParseUint0_uint_text [simp]: "ParseUint0 (uint_text w) = Inr w"
proof -
  have "unat w < 2 ^ LENGTH(64)" by (rule unsigned_less)
  then show ?thesis by (simp add: uint_text_def ParseUint0_decimal)
qed

lemma ParseBool_bool_text [simp]: "ParseBool (bool_text b) = Inr b"
  by (simp add: ParseBool_def bool_text_def)

lemma names_plain: "\<forall>name \<in> set (map fst main_flags). plain_name name"
  by code_simp

lemma flag_texts_names: "map fst (flag_texts cl) = map fst main_flags"
  by (simp add: flag_texts_def main_flags_def Let_def)

lemma flag_texts_plain: "\<forall>(name, x) \<in> set (flag_texts cl). plain_name name"
proof clarify
  fix name x
  assume "(name, x) \<in> set (flag_texts cl)"
  then have "name \<in> set (map fst (flag_texts cl))" by force
  then show "plain_name name" using names_plain unfolding flag_texts_names by blast
qed

lemma assign_flag_kinds:
  "assign_flag ((n, v) # fs) (n, t) st = flag_Set v t st"
  "n \<noteq> m \<Longrightarrow> assign_flag ((n, v) # fs) (m, t) st = assign_flag fs (m, t) st"
  by (simp_all add: assign_flag_def)

lemma assign_flag_texts: "assign_flags main_flags (flag_texts cl) st = Inr cl"
proof -
  have "assign_flags main_flags (flag_texts cl) st = Inr
    (st\<lparr>cl_version := cl_version cl, cl_options := cl_options cl\<rparr>)"
    unfolding flag_texts_def Let_def assign_flags.simps
    by (simp add: main_flags_def assign_flag_kinds flag_Set_def on_options_def)
  then show ?thesis by simp
qed


text \<open>Setting one flag changes its text and no other.\<close>

lemma uint_text_inject: "uint_text v = uint_text w \<Longrightarrow> v = w"
  by (metis ParseUint0_uint_text sum.inject(2))

lemma bool_text_inject: "bool_text a = bool_text b \<Longrightarrow> a = b"
  by (metis ParseBool_bool_text sum.inject(2))

lemma flag_texts_inject: "flag_texts a = flag_texts b \<Longrightarrow> a = b"
  by (auto simp: flag_texts_def Let_def intro!: command_line.equality Options.equality
      dest: uint_text_inject bool_text_inject)

definition set_text :: "bytes \<times> bytes \<Rightarrow> (bytes \<times> bytes) list \<Rightarrow> (bytes \<times> bytes) list" where
  "set_text nt = map (\<lambda>(m, u). (m, if m = fst nt then snd nt else u))"

definition a_flag_text :: "bytes \<times> bytes \<Rightarrow> bool" where
  "a_flag_text nt \<longleftrightarrow> (\<exists>cl. nt \<in> set (flag_texts cl))"

lemma assign_one:
  assumes "a_flag_text nt"
  shows "\<exists>st'. assign_flag main_flags nt st = Inr st' \<and> flag_texts st' = set_text nt (flag_texts st)"
proof -
  obtain cl where "nt \<in> set (flag_texts cl)" using assms by (auto simp: a_flag_text_def)
  then show ?thesis
    unfolding flag_texts_def [of cl] Let_def list.set
    by (elim insertE emptyE)
      (simp_all add: main_flags_def assign_flag_kinds flag_Set_def on_options_def flag_texts_def set_text_def Let_def)
qed

definition override :: "(bytes \<times> bytes) list \<Rightarrow> (bytes \<times> bytes) list \<Rightarrow> (bytes \<times> bytes) list" where
  "override nts = map (\<lambda>(m, u). (m, case map_of (rev nts) m of None \<Rightarrow> u | Some t \<Rightarrow> t))"

lemma override_Cons: "override (nt # nts) ms = override nts (set_text nt ms)"
  by (auto simp: override_def set_text_def map_add_def split: option.splits)

lemma assign_many:
  "\<forall>nt \<in> set nts. a_flag_text nt \<Longrightarrow>
     \<exists>st'. assign_flags main_flags nts st = Inr st' \<and> flag_texts st' = override nts (flag_texts st)"
proof (induction nts arbitrary: st)
  case Nil
  then show ?case by (simp add: override_def case_prod_beta)
next
  case (Cons nt nts)
  obtain st1 where 1: "assign_flag main_flags nt st = Inr st1" "flag_texts st1 = set_text nt (flag_texts st)"
    using assign_one [of nt st] Cons.prems by auto
  then show ?case using Cons.IH [of st1] Cons.prems by (simp add: override_Cons)
qed

lemma Parse_main_flags:
  assumes "\<forall>nt \<in> set nts. a_flag_text nt"
  shows "\<exists>st'. flag_texts st' = override nts (flag_texts st) \<and>
    (\<forall>args. Parse main_flags (write_flags sty main_flags nts @ args) st = Parse main_flags args st')"
proof -
  obtain st' where st': "assign_flags main_flags nts st = Inr st'" "flag_texts st' = override nts (flag_texts st)"
    using assign_many [OF assms, of st] by blast
  have "\<forall>(name, x) \<in> set nts. plain_name name"
    using assms flag_texts_plain by (fastforce simp: a_flag_text_def)
  then show ?thesis using Parse_write_flags [OF _ st'(1)] st'(2) by blast
qed

section \<open>Properties\<close>

text \<open>
  C24: Any command line of well written flags is understood: a flag that is given takes the last value it
  is given, every other flag keeps its default, and what follows the flags is left over. The value
  may stand behind an equals sign or in the next argument, even if that starts with a dash.
\<close>

theorem command_line_settings:
  assumes "\<forall>nt \<in> set nts. a_flag_text nt" and "positional rest"
  shows "\<exists>cl. parse_command_line (write_flags sty main_flags nts @ rest) = Parsed cl rest \<and>
    flag_texts cl = override nts (flag_texts defaults)"
proof -
  obtain cl where "flag_texts cl = override nts (flag_texts defaults)"
      "parse_command_line (write_flags sty main_flags nts @ rest) = Parse main_flags rest cl"
    using Parse_main_flags [OF assms(1)] unfolding parse_command_line_def by blast
  then show ?thesis unfolding Parse_positional [OF assms(2)] by blast
qed

lemma uint_text_4: "uint_text 4 = ''4''"
  by code_simp

theorem command_line_settings_witness:
  "\<exists>cl. parse_command_line [''-mode=wss'', ''-mux=4'', ''-mode=--quic''] = Parsed cl [] \<and>
     Mode (cl_options cl) = ''--quic'' \<and> Mux (cl_options cl) = 4 \<and> RemotePort (cl_options cl) = 1080"
proof -
  let ?nts = "[(''mode'', ''wss''), (''mux'', ''4''), (''mode'', ''--quic'')]"
  let ?sty = "\<lambda>_. \<lparr>two_dashes = False, equals_sign = True\<rparr>"
  let ?a = "defaults\<lparr>cl_options := flag_defaults\<lparr>Mode := ''wss'', Mux := 4\<rparr>\<rparr>"
  let ?b = "defaults\<lparr>cl_options := flag_defaults\<lparr>Mode := ''--quic'', Mux := 4\<rparr>\<rparr>"
  have "(''mode'', ''wss'') \<in> set (flag_texts ?a)" "(''mux'', ''4'') \<in> set (flag_texts ?a)"
      "(''mode'', ''--quic'') \<in> set (flag_texts ?b)"
    by (simp_all add: flag_texts_def Let_def uint_text_4)
  then have "\<forall>nt \<in> set ?nts. a_flag_text nt" by (auto simp: a_flag_text_def)
  moreover have "positional []" by (simp add: positional_def)
  ultimately obtain cl where cl: "parse_command_line (write_flags ?sty main_flags ?nts @ []) = Parsed cl []"
      "flag_texts cl = override ?nts (flag_texts defaults)"
    using command_line_settings by blast
  have "flag_texts cl = flag_texts ?b"
    unfolding cl(2) by (simp add: override_def flag_texts_def Let_def defaults_def uint_text_4)
  then have "cl = ?b" by (rule flag_texts_inject)
  then show ?thesis
    using cl(1) by (simp add: write_flags_def main_flags_def write_flag_def IsBoolFlag_def flag_defaults_def defaults_def)
qed

text \<open>
  C25: Every state of the variables can be written as a command line, in any style, and is read back from it.
\<close>

theorem command_line_roundtrip:
  assumes "positional rest"
  shows "parse_command_line (write_command_line sty cl @ rest) = Parsed cl rest"
  using Parse_write_flags [OF flag_texts_plain assign_flag_texts, of sty cl rest defaults] Parse_positional [OF assms]
  by (simp add: parse_command_line_def write_command_line_def)

theorem command_line_roundtrip_witness:
  "parse_command_line (write_command_line (\<lambda>_. \<lparr>two_dashes = True, equals_sign = False\<rparr>) defaults @ [''x'']) = Parsed defaults [''x'']"
  by (rule command_line_roundtrip) (simp add: positional_def)

text \<open>
  One argument that is a flag: one dash or two, a name, and the value if it stands behind an equals sign. The value a
  flag is given with the arguments that are left, \<open>None\<close> if it is missing, and whether it parses.
\<close>

definition flag_argument :: "bool \<Rightarrow> bytes \<Rightarrow> bytes option \<Rightarrow> bytes" where
  "flag_argument two name val =
     (if two then ''--'' else ''-'') @ name @ (case val of None \<Rightarrow> [] | Some x \<Rightarrow> CHR ''='' # x)"

definition given_value :: "'o flag_var \<Rightarrow> bytes option \<Rightarrow> bytes list \<Rightarrow> (bytes \<times> bytes list) option" where
  "given_value v val args =
     (case val of
        Some x \<Rightarrow> Some (x, args)
      | None \<Rightarrow> if IsBoolFlag v then Some (''true'', args)
          else (case args of [] \<Rightarrow> None | x # args \<Rightarrow> Some (x, args)))"

definition malformed :: "'o flag_var \<Rightarrow> bytes \<Rightarrow> bool" where
  "malformed v x =
     (case v of StringVar _ \<Rightarrow> False | UintVar _ \<Rightarrow> isl (ParseUint0 x) | BoolVar _ \<Rightarrow> isl (ParseBool x))"

lemma flag_Set_malformed: "isl (flag_Set v x st) \<longleftrightarrow> malformed v x"
  by (cases v) (auto simp: flag_Set_def malformed_def bind_result_def split: sum.splits)

lemma parseOne_argument:
  assumes "plain_name name"
  shows "parseOne formal (flag_argument two name val # args) st =
    (case map_of formal name of
       None \<Rightarrow> if name = ''help'' \<or> name = ''h'' then HelpAsked else FlagFailed (FlagNotDefined name)
     | Some v \<Rightarrow>
         (case given_value v val args of
            None \<Rightarrow> FlagFailed (FlagNeedsArgument name)
          | Some (x, rest) \<Rightarrow> set_flag v name x rest st))"
proof -
  obtain c cs where n: "name = c # cs" "c \<noteq> CHR ''-''" "c \<noteq> CHR ''=''"
    using assms by (cases name) (auto simp: plain_name_def)
  let ?t = "name @ (case val of None \<Rightarrow> [] | Some x \<Rightarrow> CHR ''='' # x)" and ?s = "flag_argument two name val"
  have s: "\<not> length ?s < 2" "?s ! 0 = CHR ''-''" "?s \<noteq> ''--''"
    "drop (if ?s ! 1 = CHR ''-'' then 2 else 1) ?s = ?t"
    using n by (cases two; simp add: flag_argument_def)+
  have t: "?t \<noteq> []" "?t ! 0 \<noteq> CHR ''-''" "?t ! 0 \<noteq> CHR ''=''" using n by simp_all
  have f: "flag_name ?t = (name, val)"
    using flag_name_plain [OF assms] by (cases val) auto
  have v: "(if IsBoolFlag v then set_flag v name (case val of Some x \<Rightarrow> x | None \<Rightarrow> ''true'') args st
      else (case val of
          Some x \<Rightarrow> set_flag v name x args st
        | None \<Rightarrow> (case args of [] \<Rightarrow> FlagFailed (FlagNeedsArgument name) | x # args \<Rightarrow> set_flag v name x args st))) =
    (case given_value v val args of
       None \<Rightarrow> FlagFailed (FlagNeedsArgument name) | Some (x, rest) \<Rightarrow> set_flag v name x rest st)" for v
    by (cases val; cases args; simp add: given_value_def)
  show ?thesis
    unfolding parseOne_def list.case Let_def s(4) f prod.case v using s(1-3) t n(1) by simp
qed

lemma Parse_argument:
  assumes "plain_name name"
  shows "Parse formal (flag_argument two name val # args) st =
    (case map_of formal name of
       None \<Rightarrow> if name = ''help'' \<or> name = ''h'' then ParseHelp else ParseFailed (FlagNotDefined name)
     | Some v \<Rightarrow>
         (case given_value v val args of
            None \<Rightarrow> ParseFailed (FlagNeedsArgument name)
          | Some (x, rest) \<Rightarrow>
              (case flag_Set v x st of
                 Inl err \<Rightarrow> ParseFailed (InvalidFlagValue x name err) | Inr st \<Rightarrow> Parse formal rest st)))"
  by (subst Parse.simps) (simp add: parseOne_argument [OF assms] set_flag_def split: option.split sum.split)

text \<open>Behind the dashes neither a third dash nor an equals sign may follow.\<close>

lemma Parse_bad_syntax:
  assumes "body = CHR ''='' # rest \<or> two \<and> body = CHR ''-'' # rest"
  shows "Parse formal (((if two then ''--'' else ''-'') @ body) # args) st =
    ParseFailed (BadFlagSyntax ((if two then ''--'' else ''-'') @ body))"
  using assms by (subst Parse.simps) (auto simp: parseOne_def Let_def)

lemma parse_after:
  assumes "\<forall>nt \<in> set nts. a_flag_text nt" "plain_name name"
  obtains st where
    "\<And>args. parse_command_line (write_flags sty main_flags nts @ args) = Parse main_flags args st"
    "\<And>v x st' args. map_of main_flags name = Some v \<Longrightarrow> flag_Set v x st = Inr st' \<Longrightarrow>
       parse_command_line (write_flags sty main_flags (nts @ [(name, x)]) @ args) = Parse main_flags args st'"
proof -
  obtain st where st: "\<And>args. parse_command_line (write_flags sty main_flags nts @ args) = Parse main_flags args st"
    using Parse_main_flags [OF assms(1)] unfolding parse_command_line_def by blast
  have "parse_command_line (write_flags sty main_flags (nts @ [(name, x)]) @ args) = Parse main_flags args st'"
    if "map_of main_flags name = Some v" "flag_Set v x st = Inr st'" for v x st' args
    using Parse_write_flag [OF assms(2) that, of "sty name" args] that(1) st [of "write_flags sty main_flags [(name, x)] @ args"]
    by (simp add: write_flags_def)
  with st show ?thesis using that by blast
qed

text \<open>
  C40: What ends the process in the command line, behind any well written flags. A flag is written with one dash or two
  and has its value behind an equals sign or in the next argument. A third dash, or an equals sign right behind the
  dashes, ends the process with status 2. So does a flag that does not exist, unless it asks for help, which
  ends it with status 0; a flag whose value is missing; and a number or a truth value that does not
  parse. Otherwise the flag has its effect and the arguments behind it decide.
\<close>

theorem command_line_errors:
  assumes "\<forall>nt \<in> set nts. a_flag_text nt"
  shows "(\<forall>body rest. body = CHR ''='' # rest \<or> two \<and> body = CHR ''-'' # rest \<longrightarrow>
       flag_exit_status (parse_command_line
         (write_flags sty main_flags nts @ ((if two then ''--'' else ''-'') @ body) # args)) = Some 2) \<and>
    (\<forall>name. plain_name name \<longrightarrow>
       flag_exit_status (parse_command_line (write_flags sty main_flags nts @ flag_argument two name val # args)) =
       (case map_of main_flags name of
          None \<Rightarrow> Some (if name = ''help'' \<or> name = ''h'' then 0 else 2)
        | Some v \<Rightarrow>
            (case given_value v val args of
               None \<Rightarrow> Some 2
             | Some (x, rest) \<Rightarrow>
                 if malformed v x then Some 2
                 else flag_exit_status (parse_command_line (write_flags sty main_flags (nts @ [(name, x)]) @ rest)))))"
proof (intro conjI allI impI)
  fix body rest
  assume bad: "body = CHR ''='' # rest \<or> two \<and> body = CHR ''-'' # rest"
  obtain st where "\<And>args. parse_command_line (write_flags sty main_flags nts @ args) = Parse main_flags args st"
    using Parse_main_flags [OF assms] unfolding parse_command_line_def by blast
  then show "flag_exit_status (parse_command_line
      (write_flags sty main_flags nts @ ((if two then ''--'' else ''-'') @ body) # args)) = Some 2"
    by (simp only: Parse_bad_syntax [OF bad] flag_exit_status_def flag_result.case)
next
  fix name
  assume name: "plain_name name"
  show "flag_exit_status (parse_command_line (write_flags sty main_flags nts @ flag_argument two name val # args)) =
    (case map_of main_flags name of
       None \<Rightarrow> Some (if name = ''help'' \<or> name = ''h'' then 0 else 2)
     | Some v \<Rightarrow>
         (case given_value v val args of
            None \<Rightarrow> Some 2
          | Some (x, rest) \<Rightarrow>
              if malformed v x then Some 2
              else flag_exit_status (parse_command_line (write_flags sty main_flags (nts @ [(name, x)]) @ rest))))"
  proof (rule parse_after [OF assms name, of sty])
    fix st
    assume st: "\<And>args. parse_command_line (write_flags sty main_flags nts @ args) = Parse main_flags args st"
      and w: "\<And>v x st' args. map_of main_flags name = Some v \<Longrightarrow> flag_Set v x st = Inr st' \<Longrightarrow>
        parse_command_line (write_flags sty main_flags (nts @ [(name, x)]) @ args) = Parse main_flags args st'"
    show ?thesis
      using w unfolding st Parse_argument [OF name] flag_Set_malformed [of _ _ st, symmetric]
      by (auto simp: flag_exit_status_def split: option.split sum.split)
  qed
qed

theorem command_line_errors_witness:
  "flag_exit_status (parse_command_line [''-mux=4'', ''---ports'']) = Some 2 \<and>
   flag_exit_status (parse_command_line [''-mux=4'', ''--ports=80'']) = Some 2 \<and>
   flag_exit_status (parse_command_line [''-mux=4'', ''--h'']) = Some 0 \<and>
   flag_exit_status (parse_command_line [''-mux=4'', ''--ed=12a'']) = Some 2"
proof -
  let ?nts = "[(''mux'', ''4'')]" and ?sty = "\<lambda>_. \<lparr>two_dashes = False, equals_sign = True\<rparr>"
  have "(''mux'', ''4'') \<in> set (flag_texts (defaults\<lparr>cl_options := flag_defaults\<lparr>Mux := 4\<rparr>\<rparr>))"
    by (simp add: flag_texts_def Let_def uint_text_4)
  then have n: "\<forall>nt \<in> set ?nts. a_flag_text nt" by (auto simp: a_flag_text_def)
  have p: "plain_name ''ports''" "plain_name ''h''" "plain_name ''ed''" by (simp_all add: plain_name_def)
  have i: "isl (ParseUint0 ''12a'')"
    by (simp add: ParseUint0_def letter_digit_def is_digit_iff lower_letter_def digit_val_def)
  have l: "write_flags ?sty main_flags ?nts = [''-mux=4'']"
    by (simp add: write_flags_def main_flags_def write_flag_def IsBoolFlag_def)
  obtain assign where m: "map_of main_flags ''ports'' = None" "map_of main_flags ''h'' = None"
      "map_of main_flags ''ed'' = Some (UintVar assign)"
    by (simp add: main_flags_def)
  note bad = command_line_errors [OF n, of True ?sty "[]" None, unfolded l, THEN conjunct1, rule_format, of "''-ports''" "''ports''"]
  note plain = command_line_errors [OF n, of True ?sty "[]", unfolded l, THEN conjunct2, rule_format]
  show ?thesis
    using bad plain [OF p(1), of "Some ''80''"] plain [OF p(2), of None] plain [OF p(3), of "Some ''12a''"] i
    by (simp add: m flag_argument_def given_value_def malformed_def)
qed

end
