(* ===== verification/Startup.thy ===== *)
theory Startup
  imports Relay ApplyOptions CommandLine
begin

text \<open>
  The start of the program, src/main.go, from the arguments of the process to the running handler, and
  the wrappers of src/log/log.go. A fatal log message ends the process with status 1 inside the
  library, before the statement after it; a panic ends it with status 2.
\<close>

section \<open>Messages\<close>

text \<open>
  A format is its pieces between the verbs \<open>%s\<close>. The wrappers pass their variadic arguments on as one
  value, a slice, which the library prints with brackets around its elements.
\<close>

fun sprintf :: "bytes list \<Rightarrow> bytes list \<Rightarrow> bytes" where
  "sprintf [] args = []"
| "sprintf [p] args = p"
| "sprintf (p # q # ps) [] = p @ ''%!s(MISSING)'' @ sprintf (q # ps) []"
| "sprintf (p # q # ps) (a # args) = p @ a @ sprintf (q # ps) args"

fun join_spaces :: "bytes list \<Rightarrow> bytes" where
  "join_spaces [] = []"
| "join_spaces [a] = a"
| "join_spaces (a # b # args) = a @ '' '' @ join_spaces (b # args)"

definition slice_text :: "bytes list \<Rightarrow> bytes" where
  "slice_text args = ''['' @ join_spaces args @ '']''"

datatype level = PanicLevel | FatalLevel | ErrorLevel | WarnLevel | InfoLevel | DebugLevel | TraceLevel

definition log_f :: "bytes list \<Rightarrow> bytes list \<Rightarrow> bytes" where
  "log_f pieces v = sprintf pieces [slice_text v]"

definition log_ln :: "bytes list \<Rightarrow> bytes" where
  "log_ln args = slice_text args"

text \<open>\<open>log.SetLevel\<close> narrows the number to 32 bits.\<close>

type_synonym log_level = "32 word"

text \<open>The level that \<open>init\<close> of the package sets, before \<open>main\<close> runs: debug.\<close>

definition log_init :: log_level where
  "log_init = 5"

definition log_SetLevel :: "uint \<Rightarrow> log_level" where
  "log_SetLevel newLevel = ucast newLevel"

section \<open>The main function\<close>

text \<open>What \<open>printVersion\<close> prints; the version of the program is set when it is built.\<close>

definition go_println :: "bytes list \<Rightarrow> bytes" where
  "go_println args = join_spaces args @ [CHR 0x0A]"

definition printVersion :: "bytes \<Rightarrow> bytes \<Rightarrow> bytes" where
  "printVersion version go_version =
     go_println [''gost-plugin'', version] @ go_println [''Go version'', go_version] @
     go_println [''Yet another SIP003 plugin for shadowsocks'']"

datatype ('ln, 'cert) outcome =
    VersionPrinted
  | Exit nat "bytes list" go_error   \<comment> \<open>status, format and argument of the last message\<close>
  | Crashed go_error
  | Serving Options "('ln, 'cert) handler"

definition Fatalf :: "bytes list \<Rightarrow> go_error \<Rightarrow> ('ln, 'cert) outcome" where
  "Fatalf pieces err = Exit 1 pieces err"

text \<open>
  \<open>main\<close> with the parsed flags: whether the version is asked for, the options, the environment
  variables. The result is the level of the logger when the program starts to serve or exits,
  and the outcome. The statements \<open>os.Exit(23)\<close> are behind the fatal messages.
\<close>

definition main ::
  "bool \<Rightarrow> Options \<Rightarrow> (bytes \<Rightarrow> bytes) \<Rightarrow> (ListenerCreator, TransporterCreator, 'c) registry \<Rightarrow> ('ln, 'cert) listen_env
     \<Rightarrow> (bytes \<Rightarrow> grpcTLS \<Rightarrow> go_error option) \<Rightarrow> log_level option \<times> ('ln, 'cert) outcome" where
  "main version flags getenv reg env g =
     (if version then (None, VersionPrinted)
      else
        let options = (if LogLevel flags > 6 then flags\<lparr>LogLevel := 6\<rparr> else flags);
            level = log_SetLevel (LogLevel options)
        in (case ApplyOptions getenv options of
              (_, _, Some err) \<Rightarrow> (Some level, Fatalf [''failed to init context: '', []] err)
            | (_, options, None) \<Rightarrow>
                (case newHandler reg env g options of
                   Inl err \<Rightarrow>
                     (Some level, if is_panic err then Crashed err else Fatalf [''failed to create handler: '', []] err)
                 | Inr h \<Rightarrow> (Some level, Serving options h))))"

text \<open>
  The whole start, from the arguments of the process: the flag set ends the process itself, with status 0
  for help and 2 for an error.
\<close>

datatype ('ln, 'cert) process = FlagExit nat | Started "log_level option" "('ln, 'cert) outcome"

definition gost_plugin ::
  "bytes list \<Rightarrow> (bytes \<Rightarrow> bytes) \<Rightarrow> (ListenerCreator, TransporterCreator, 'c) registry \<Rightarrow> ('ln, 'cert) listen_env
     \<Rightarrow> (bytes \<Rightarrow> grpcTLS \<Rightarrow> go_error option) \<Rightarrow> ('ln, 'cert) process" where
  "gost_plugin args getenv reg env g =
     (case parse_command_line args of
        Parsed cl _ \<Rightarrow> (case main (cl_version cl) (cl_options cl) getenv reg env g of (level, r) \<Rightarrow> Started level r)
      | ParseHelp \<Rightarrow> FlagExit 0
      | ParseFailed _ \<Rightarrow> FlagExit 2)"

definition exit_status :: "('ln, 'cert) process \<Rightarrow> nat option" where
  "exit_status p =
     (case p of
        FlagExit n \<Rightarrow> Some n
      | Started _ VersionPrinted \<Rightarrow> Some 0
      | Started _ (Exit n _ _) \<Rightarrow> Some n
      | Started _ (Crashed _) \<Rightarrow> Some 2
      | Started _ (Serving _ _) \<Rightarrow> None)"

lemma main_exit_code: "snd (main version flags getenv reg env g) = Exit code pieces err \<Longrightarrow> code = 1"
proof -
  let ?o = "if LogLevel flags > 6 then flags\<lparr>LogLevel := 6\<rparr> else flags"
  obtain b o1 e where a: "ApplyOptions getenv ?o = (b, o1, e)" by (cases "ApplyOptions getenv ?o") auto
  assume "snd (main version flags getenv reg env g) = Exit code pieces err"
  then show ?thesis
    unfolding main_def Let_def a
    by (cases version; cases e; cases "newHandler reg env g o1") (auto simp: Fatalf_def split: if_splits)
qed

section \<open>When the constructors succeed\<close>

definition can_listen :: "('ln, 'cert) listen_env \<Rightarrow> ListenerCreator \<Rightarrow> Options \<Rightarrow> bool" where
  "can_listen env ctor o1 \<longleftrightarrow>
     (if ctor = Ctor_NewQUICListener then
        \<not> isl (buildServerTLSConfig env o1) \<and>
        (case ListenPacket env (Some (ResolveUDPAddr env (GetLocalAddr o1))) of
           Inl _ \<Rightarrow> False | Inr p \<Rightarrow> env_quic_listen env p = None)
      else
        \<not> isl (Listen env (Some (ResolveTCPAddr env (GetLocalAddr o1)))) \<and> late_failure env ctor o1 = None)"

lemma run_ListenerCreator_ok: "(\<exists>l. fst (run_ListenerCreator env ctor o1) = Inr l) \<longleftrightarrow> can_listen env ctor o1"
proof (cases "ctor = Ctor_NewQUICListener")
  case True
  then show ?thesis
    by (auto simp: can_listen_def NewQUICListener_def Let_def split: sum.splits option.splits)
next
  case False
  then show ?thesis
    using tcp_based_outcome [OF False, of env o1]
    by (cases "late_failure env ctor o1") (auto simp: can_listen_def split: sum.splits)
qed

definition can_transport :: "(bytes \<Rightarrow> grpcTLS \<Rightarrow> go_error option) \<Rightarrow> TransporterCreator \<Rightarrow> Options \<Rightarrow> bool" where
  "can_transport g ctor o1 \<longleftrightarrow>
     (ctor = Ctor_NewGunTransporter \<longrightarrow>
        g (GetRemoteAddr o1) (NewGrpcTLS ((buildClientTLSConfig o1)\<lparr>cfg_NextProtos := [''h2'']\<rparr>) (Fingerprint o1)) = None)"

lemma run_TransporterCreator_ok: "(\<exists>t. run_TransporterCreator g ctor o1 = Inr t) \<longleftrightarrow> can_transport g ctor o1"
  by (cases ctor) (auto simp: can_transport_def transporter_constructors Let_def split: option.splits)

definition can_serve :: "('ln, 'cert) listen_env \<Rightarrow> (bytes \<Rightarrow> grpcTLS \<Rightarrow> go_error option) \<Rightarrow> Options \<Rightarrow> bool" where
  "can_serve env g o1 \<longleftrightarrow>
     (if Server o1 then
        (case map_of listener_table (Mode o1) of None \<Rightarrow> False | Some ctor \<Rightarrow> can_listen env ctor o1)
      else
        (case map_of transporter_table (Mode o1) of
           None \<Rightarrow> False
         | Some ctor \<Rightarrow> can_transport g ctor o1 \<and> can_listen env Ctor_NewTCPListener o1))"

lemma newHandler_ok:
  "(\<exists>h. newHandler (init_packages empty_registry) env g o1 = Inr h) \<longleftrightarrow> can_serve env g o1"
proof (cases "Server o1")
  case True
  then show ?thesis
    by (auto simp: newHandler_def can_serve_def listener_lookup NewTCPTransporter_def run_ListenerCreator_ok [symmetric]
        split: option.splits sum.splits)
next
  case False
  then show ?thesis
    using run_ListenerCreator_ok [of env Ctor_NewTCPListener o1]
    by (auto simp: newHandler_def can_serve_def transporter_lookup run_TransporterCreator_ok [symmetric]
        split: option.splits sum.splits)
qed

section \<open>Properties\<close>

text \<open>
  C26: When the program serves: the command line is well formed and does not ask for the version or for help,
  the options from the environment parse, the mode is registered, the sockets open, and what the
  constructors need is there: certificate, key and path on the server, a target gRPC accepts on the
  client. The options it serves with are those of the flags, the log level cut off, with the
  environment applied.
\<close>

theorem serves_iff:
  "(\<exists>level h. gost_plugin args getenv (init_packages empty_registry :: 'r plugin_registry) env g = Started level (Serving o1 h)) \<longleftrightarrow>
   (\<exists>cl rest b. parse_command_line args = Parsed cl rest \<and> \<not> cl_version cl \<and>
      ApplyOptions getenv ((cl_options cl)\<lparr>LogLevel := min 6 (LogLevel (cl_options cl))\<rparr>) = (b, o1, None) \<and>
      can_serve env g o1)"
proof (cases "parse_command_line args")
  case (Parsed cl rest)
  define o0 where "o0 = (if LogLevel (cl_options cl) > 6 then (cl_options cl)\<lparr>LogLevel := 6\<rparr> else cl_options cl)"
  have o0: "o0 = (cl_options cl)\<lparr>LogLevel := min 6 (LogLevel (cl_options cl))\<rparr>"
    by (cases "LogLevel (cl_options cl) > 6") (simp_all add: o0_def min.absorb1 min.absorb2 less_imp_le not_less)
  obtain b o2 e where a: "ApplyOptions getenv o0 = (b, o2, e)" by (cases "ApplyOptions getenv o0") auto
  have n: "can_serve env g o2 \<longleftrightarrow> (\<exists>h. newHandler (init_packages empty_registry :: 'r plugin_registry) env g o2 = Inr h)"
    by (rule newHandler_ok [symmetric])
  show ?thesis
    unfolding gost_plugin_def Parsed flag_result.case main_def Let_def o0_def [symmetric] o0 [symmetric] a
    using n a o0 Parsed
    by (cases "cl_version cl"; cases e; cases "newHandler (init_packages empty_registry :: 'r plugin_registry) env g o2")
      (auto simp: Fatalf_def)
qed (simp_all add: gost_plugin_def)

text \<open>
  C27: A server of a mode over HTTP (ws, wss, mws, mwss, h2) whose path is empty, be it from the command line
  or from the plugin options, crashes while it starts: the registration of the empty pattern panics
  after the socket was opened. The status of the process is 2.
\<close>

theorem empty_path_crashes:
  assumes "parse_command_line args = Parsed cl rest" and "\<not> cl_version cl"
    and "ApplyOptions getenv (if LogLevel (cl_options cl) > 6 then (cl_options cl)\<lparr>LogLevel := 6\<rparr> else cl_options cl) = (b, o1, None)"
    and "Server o1" and "map_of listener_table (Mode o1) = Some ctor" and "uses_mux ctor" and "Path o1 = []"
    and "Listen env (Some (ResolveTCPAddr env (GetLocalAddr o1))) = Inr ln"
    and "ctor = Ctor_NewH2Listener \<Longrightarrow> \<not> isl (buildServerTLSConfig env o1)"
  shows "exit_status (gost_plugin args getenv (init_packages empty_registry :: 'r plugin_registry) env g) = Some 2 \<and>
    run_ListenerCreator env ctor o1 = (Inl (GoPanic ''http: invalid pattern''), [ln])"
proof -
  have "ctor \<noteq> Ctor_NewQUICListener" using assms(6) by (auto simp: uses_mux_def)
  moreover have "late_failure env ctor o1 = Some (GoPanic ''http: invalid pattern'')"
    using assms(6,7,9) by (auto simp: late_failure_defs split: sum.splits)
  ultimately have r: "run_ListenerCreator env ctor o1 = (Inl (GoPanic ''http: invalid pattern''), [ln])"
    using tcp_based_outcome [of ctor env o1] assms(8) by simp
  then have "newHandler (init_packages empty_registry :: 'r plugin_registry) env g o1 = Inl (GoPanic ''http: invalid pattern'')"
    using assms(4,5) by (simp add: newHandler_def listener_lookup)
  then show ?thesis
    using assms(1-3) r by (simp add: gost_plugin_def main_def exit_status_def Let_def)
qed

theorem empty_path_crashes_witness:
  "exit_status (gost_plugin [''-server'', ''-path='', ''-mode=ws''] (\<lambda>_. []) (init_packages empty_registry :: unit plugin_registry)
     (demo_env\<lparr>env_resolve_tcp := \<lambda>_. Inr (''127.0.0.1'', 1984)\<rparr>) (\<lambda>_ _. None)) = Some 2"
proof -
  let ?o = "flag_defaults\<lparr>Server := True, Path := [], Mode := ''ws''\<rparr>"
  let ?env = "demo_env\<lparr>env_resolve_tcp := \<lambda>_. Inr (''127.0.0.1'', 1984)\<rparr>"
  have p: "parse_command_line [''-server'', ''-path='', ''-mode=ws''] = Parsed (defaults\<lparr>cl_options := ?o\<rparr>) []"
    by code_simp
  have a: "ApplyOptions (\<lambda>_. []) ?o = (True, ?o, None)" by code_simp
  have l: "Listen ?env (Some (ResolveTCPAddr ?env (GetLocalAddr ?o))) = Inr 3"
    by (simp add: Listen_def ResolveTCPAddr_def demo_env_def JoinHostPort_def)
  show ?thesis
    by (rule empty_path_crashes [OF p, where ctor = Ctor_NewWSListener and ln = 3 and ?o1.0 = ?o and b = True, THEN conjunct1])
      (use a l in \<open>simp_all add: defaults_def flag_defaults_def listener_table_def uses_mux_def\<close>)
qed

text \<open>
  The log level is the one of the command line, cut off at 6: the plugin option \<open>logLevel\<close> changes
  the options the program serves with but never the level of the logger.
\<close>

theorem level_from_flags:
  "case main False flags getenv reg env g of (level, outcome) \<Rightarrow>
     level = Some (if LogLevel flags > 6 then 6 else ucast (LogLevel flags))"
  by (auto simp: main_def log_SetLevel_def Let_def split: prod.splits option.splits sum.splits)

text \<open>
  The wrappers of the log package lose the arguments of a format: whatever their number, the format
  sees a single one, the bracketed list. So a message with one argument shows it in brackets, and
  the second verb of a message with two is reported as missing.
\<close>

theorem log_wrapper_brackets:
  "log_f [p, q] [a] = p @ ''['' @ a @ '']'' @ q \<and> log_f [p, q] [a] \<noteq> sprintf [p, q] [a] \<and>
   log_f [p, q, r] [a, b] = p @ ''['' @ a @ '' '' @ b @ '']'' @ q @ ''%!s(MISSING)'' @ r"
proof -
  have "length (''['' @ a @ '']'') \<noteq> length a" by simp
  then have "''['' @ a @ '']'' \<noteq> a" by metis
  then show ?thesis by (simp add: log_f_def slice_text_def)
qed

text \<open>
  A mode that is not registered never serves: after the options are applied the program exits with
  status 1 and the not-found error of the table of its role, before any socket is opened. No path
  of the program exits with the status 23 written in its source.
\<close>

theorem unknown_mode_exits:
  assumes "ApplyOptions getenv (if LogLevel flags > 6 then flags\<lparr>LogLevel := 6\<rparr> else flags) = (b, o1, None)"
    and "map_of listener_table (Mode o1) = None"
  shows "snd (main False flags getenv (init_packages empty_registry) env g) =
      Exit 1 [''failed to create handler: '', []] (if Server o1 then ListenerNotFound else TransporterNotFound) \<and>
    (\<forall>code pieces err version flags' getenv' reg env'.
       snd (main version flags' getenv' reg env' g) = Exit code pieces err \<longrightarrow> code = 1)"
proof
  have "map_of transporter_table (Mode o1) = None"
    using assms(2) by (auto simp: listener_table_def transporter_table_def split: if_splits)
  then show "snd (main False flags getenv (init_packages empty_registry) env g) =
      Exit 1 [''failed to create handler: '', []] (if Server o1 then ListenerNotFound else TransporterNotFound)"
    using assms by (simp add: main_def Let_def newHandler_def listener_lookup transporter_lookup Fatalf_def)
  show "\<forall>code pieces err version flags' getenv' reg env'.
       snd (main version flags' getenv' reg env' g) = Exit code pieces err \<longrightarrow> code = 1"
    using main_exit_code by blast
qed

theorem unknown_mode_exits_witness:
  "snd (main False (flag_defaults\<lparr>Mode := ''kcp''\<rparr>) (\<lambda>_. []) (init_packages empty_registry) demo_env (\<lambda>_ _. None)) =
     Exit 1 [''failed to create handler: '', []] TransporterNotFound"
proof -
  let ?flags = "flag_defaults\<lparr>Mode := ''kcp''\<rparr>"
  have "ApplyOptions (\<lambda>_. []) (flag_defaults\<lparr>Mode := ''kcp''\<rparr>) = (True, flag_defaults\<lparr>Mode := ''kcp''\<rparr>, None)"
    by code_simp
  then have a: "ApplyOptions (\<lambda>_. []) (if LogLevel ?flags > 6 then ?flags\<lparr>LogLevel := 6\<rparr> else ?flags) = (True, ?flags, None)"
    by (simp add: flag_defaults_def)
  have m: "map_of listener_table (Mode ?flags) = None" by (simp add: listener_table_def)
  have s: "\<not> Server ?flags" by (simp add: flag_defaults_def)
  show ?thesis using s by (subst unknown_mode_exits [OF a m, THEN conjunct1]) simp
qed

end
