(* ===== verification/Duplex.thy ===== *)
theory Duplex
  imports Relay
begin

text \<open>
  A relay with its data: the goroutines of one accepted connection (src/handler.go) together with the two
  connections they copy between. A copy is no longer an opaque activity that ends at some time but
  the rounds of \<open>io.Copy\<close>, interleaved with those of the other copy and with the closing function.
\<close>

section \<open>Connections that are read and written\<close>

text \<open>Reading does not touch what was written, writing does not touch what is to be read.\<close>

locale duplex_conn = copy_pipe read remaining pending healthy write_to sunk
  for read :: "'s reader" and remaining pending healthy and write_to :: "'s writer" and sunk +
  assumes read_sunk: "read n s = Some (a, s') \<Longrightarrow> sunk s' = sunk s"
    and write_remaining: "write_to b s = (r, s') \<Longrightarrow> remaining s' = remaining s"
begin

lemma chunk_remaining: "copy_chunk write_to d w = (ew, w') \<Longrightarrow> remaining w' = remaining w"
  by (auto simp: copy_chunk_def Let_def split: if_splits prod.splits option.splits dest: write_remaining)

lemma chunk_sunk:
  "copy_chunk write_to d w = (ew, w') \<Longrightarrow> \<exists>p. prefix p d \<and> sunk w' = sunk w @ p \<and> (ew = None \<longrightarrow> p = d)"
  using chunk_ok [of d w w'] chunk_err [of d w _ w'] by (cases ew) (auto intro: exI [of _ d])

end

section \<open>Writes that may fail\<close>

text \<open>
  The answers that the operating system and the libraries give to the writes are a script in the state
  of a connection; when it is used up every write succeeds. A failing TCP write may have taken a
  part of the bytes.
\<close>

record ('s, 'a) scripted =
  sc_conn :: 's
  sc_script :: "'a option list"

definition scripted_Read :: "'s reader \<Rightarrow> ('s, 'a) scripted reader" where
  "scripted_Read rd n s =
     (case rd n (sc_conn s) of None \<Rightarrow> None | Some (a, c) \<Rightarrow> Some (a, s\<lparr>sc_conn := c\<rparr>))"

definition scripted_Write :: "('a option \<Rightarrow> 's writer) \<Rightarrow> ('s, 'a) scripted writer" where
  "scripted_Write wr b s =
     (case sc_script s of
        [] \<Rightarrow> (case wr None b (sc_conn s) of (r, c) \<Rightarrow> (r, s\<lparr>sc_conn := c\<rparr>))
      | a # script \<Rightarrow> (case wr a b (sc_conn s) of (r, c) \<Rightarrow> (r, s\<lparr>sc_conn := c, sc_script := script\<rparr>)))"

lemma scripted_Write_cases:
  "scripted_Write wr b s = (r, s') \<Longrightarrow> \<exists>a. wr a b (sc_conn s) = (r, sc_conn s')"
  by (cases "sc_script s") (auto simp: scripted_Write_def split: prod.splits)

lemma scripted_Read_Some:
  "scripted_Read rd n s = Some (a, s') \<longleftrightarrow> (\<exists>c. rd n (sc_conn s) = Some (a, c) \<and> s' = s\<lparr>sc_conn := c\<rparr>)"
  by (auto simp: scripted_Read_def split: option.splits)

lemma scripted_Read_None: "scripted_Read rd n s = None \<longleftrightarrow> rd n (sc_conn s) = None"
  by (auto simp: scripted_Read_def split: option.splits)

lemma scripted_conn:
  fixes rd :: "'s reader" and wr :: "'a option \<Rightarrow> 's writer"
  assumes "\<And>a. duplex_conn rd remaining pending healthy (wr a) sunk"
  shows "duplex_conn (scripted_Read rd) (\<lambda>s. remaining (sc_conn s)) (\<lambda>s. pending (sc_conn s)) (\<lambda>s. healthy (sc_conn s))
    (scripted_Write wr) (\<lambda>s. sunk (sc_conn s))"
proof -
  note d = assms [unfolded duplex_conn_def copy_pipe_def duplex_conn_axioms_def]
  have r: "byte_reader rd remaining pending healthy" using d by blast
  have w: "byte_sink (wr a) sunk" for a using d by blast
  show ?thesis
  proof unfold_locales
    fix n s d e s' assume a: "scripted_Read rd n s = Some ((d, e), s')"
    show "remaining (sc_conn s) = d @ remaining (sc_conn s')" "length d \<le> n"
      using a byte_reader.read_split [OF r] byte_reader.read_bound [OF r] by (auto simp: scripted_Read_Some)
    show "length (remaining (sc_conn s')) + pending (sc_conn s') < length (remaining (sc_conn s)) + pending (sc_conn s)"
      if "0 < n" using a that byte_reader.read_progress [OF r] by (auto simp: scripted_Read_Some)
    show "e = None \<and> healthy (sc_conn s')" if "healthy (sc_conn s)"
      using a that byte_reader.read_healthy [OF r that] by (auto simp: scripted_Read_Some)
  next
    fix n and s :: "('s, 'a) scripted" assume "scripted_Read rd n s = None"
    then show "remaining (sc_conn s) = []" using byte_reader.read_blocks [OF r] by (simp add: scripted_Read_None)
  next
    fix b s n s' assume "scripted_Write wr b s = ((n, None), s')"
    from scripted_Write_cases [OF this] show "n = length b \<and> sunk (sc_conn s') = sunk (sc_conn s) @ b"
      using byte_sink.write_ok [OF w] by blast
  next
    fix b s n e s' assume "scripted_Write wr b s = ((n, Some e), s')"
    from scripted_Write_cases [OF this] show "\<exists>p. prefix p b \<and> sunk (sc_conn s') = sunk (sc_conn s) @ p"
      using byte_sink.write_err [OF w] by blast
  next
    fix n s a s' assume "scripted_Read rd n s = Some (a, s')"
    then show "sunk (sc_conn s') = sunk (sc_conn s)" using d by (cases a) (auto simp: scripted_Read_Some)
  next
    fix b s r s' assume "scripted_Write wr b s = (r, s')"
    from scripted_Write_cases [OF this] show "remaining (sc_conn s') = remaining (sc_conn s)"
      using d by (cases r) blast
  qed
qed

definition tcp_Write_answer :: "(nat \<times> go_error) option \<Rightarrow> tcp_conn writer" where
  "tcp_Write_answer a b c =
     (case a of
        None \<Rightarrow> tcp_Write b c
      | Some (n, e) \<Rightarrow> ((min n (length b), Some e), c\<lparr>tcp_out := tcp_out c @ take n b\<rparr>))"

type_synonym app_conn = "(tcp_conn, nat \<times> go_error) scripted"
type_synonym gun_conn = "(GunConnection, go_error) scripted"
type_synonym ws_conn = "(websocketConn, go_error) scripted"

lemma tcp_answer_conn: "duplex_conn tcp_Read tcp_remaining (\<lambda>c. length (tcp_answers c))
  (\<lambda>c. \<forall>a \<in> set (tcp_answers c). snd a = None) (tcp_Write_answer a) tcp_out"
  by unfold_locales
    (auto simp: tcp_Read_def tcp_Write_def tcp_Write_answer_def tcp_remaining_def take_is_prefix split: if_splits list.splits option.splits)

lemma gun_answer_conn: "duplex_conn gun_Read gun_remaining (\<lambda>c. length (gun_recv c))
  (\<lambda>c. \<forall>a \<in> set (gun_recv c). \<not> isl a) (gun_Write a) (\<lambda>c. concat (gun_sent c))"
  by unfold_locales
    (auto simp: gun_Read_def gun_Write_def gun_remaining_def go_copy_def Let_def split: if_splits list.splits sum.splits option.splits)

lemma ws_answer_conn: "duplex_conn ws_Read ws_remaining (\<lambda>c. length (ws_answers c))
  (\<lambda>c. \<forall>a \<in> set (ws_answers c). snd a = None) (ws_Write a) (\<lambda>c. concat (ws_sent c))"
  by unfold_locales
    (auto simp: ws_Read_def ws_Write_def ws_remaining_def go_copy_def Let_def split: if_splits list.splits)

interpretation app: duplex_conn "scripted_Read tcp_Read" "\<lambda>s. tcp_remaining (sc_conn s)" "\<lambda>s. length (tcp_answers (sc_conn s))"
  "\<lambda>s. \<forall>a \<in> set (tcp_answers (sc_conn s)). snd a = None" "scripted_Write tcp_Write_answer" "\<lambda>s. tcp_out (sc_conn s)"
  by (rule scripted_conn) (rule tcp_answer_conn)

interpretation gunc: duplex_conn "scripted_Read gun_Read" "\<lambda>s. gun_remaining (sc_conn s)" "\<lambda>s. length (gun_recv (sc_conn s))"
  "\<lambda>s. \<forall>a \<in> set (gun_recv (sc_conn s)). \<not> isl a" "scripted_Write gun_Write" "\<lambda>s. concat (gun_sent (sc_conn s))"
  by (rule scripted_conn) (rule gun_answer_conn)

interpretation wsc: duplex_conn "scripted_Read ws_Read" "\<lambda>s. ws_remaining (sc_conn s)" "\<lambda>s. length (ws_answers (sc_conn s))"
  "\<lambda>s. \<forall>a \<in> set (ws_answers (sc_conn s)). snd a = None" "scripted_Write ws_Write" "\<lambda>s. concat (ws_sent (sc_conn s))"
  by (rule scripted_conn) (rule ws_answer_conn)

section \<open>The steps\<close>

text \<open>
  The last two fields are history variables: whether the copy of that direction has ended with an error.
\<close>

record ('i, 'o) duplex =
  d_relay :: relay
  d_in :: 'i
  d_out :: 'o
  d_failed_in :: bool
  d_failed_out :: bool

definition duplex_start :: "'i \<Rightarrow> 'o \<Rightarrow> ('i, 'o) duplex" where
  "duplex_start i out = \<lparr>d_relay = relay_start, d_in = i, d_out = out, d_failed_in = False, d_failed_out = False\<rparr>"

text \<open>What becomes of a copy after a round: the error of the write, else the one of the read, ends it.\<close>

definition after_round :: "go_error option \<Rightarrow> go_error option \<Rightarrow> copier" where
  "after_round ew er =
     (case ew of
        Some e \<Rightarrow> Sending (Some e)
      | None \<Rightarrow> (case er of None \<Rightarrow> Copying | Some e \<Rightarrow> Sending (if e = EOF then None else Some e)))"

definition failed :: "copier \<Rightarrow> bool" where
  "failed c = (case c of Sending (Some _) \<Rightarrow> True | _ \<Rightarrow> False)"

text \<open>
  A round of a copy happens as long as the relay has not closed the connections. Afterwards one end of
  each copy is a closed TCP connection, in either role of the program: the copy ends with an error,
  at once if it reads from that end, else when it writes what it reads next. The other steps are the
  steps of the relay that end no copy.
\<close>

inductive duplex_step ::
  "'i reader \<Rightarrow> 'i writer \<Rightarrow> 'o reader \<Rightarrow> 'o writer \<Rightarrow> ('i, 'o) duplex \<Rightarrow> ('i, 'o) duplex \<Rightarrow> bool"
  for rdI wrI rdO wrO where
  control: "relay_step (d_relay s) r \<Longrightarrow>
     r_toInbound (d_relay s) = Copying \<longrightarrow> r_toInbound r = Copying \<Longrightarrow>
     r_toOutbound (d_relay s) = Copying \<longrightarrow> r_toOutbound r = Copying \<Longrightarrow>
     duplex_step rdI wrI rdO wrO s (s\<lparr>d_relay := r\<rparr>)"
| round_in: "r_toInbound (d_relay s) = Copying \<Longrightarrow> r_phase (d_relay s) \<noteq> Finished \<Longrightarrow>
     rdO 32768 (d_out s) = Some ((d, er), out') \<Longrightarrow> copy_chunk wrI d (d_in s) = (ew, in') \<Longrightarrow>
     duplex_step rdI wrI rdO wrO s
       (s\<lparr>d_relay := (d_relay s)\<lparr>r_toInbound := after_round ew er\<rparr>, d_in := in', d_out := out',
          d_failed_in := failed (after_round ew er)\<rparr>)"
| round_out: "r_toOutbound (d_relay s) = Copying \<Longrightarrow> r_phase (d_relay s) \<noteq> Finished \<Longrightarrow>
     rdI 32768 (d_in s) = Some ((d, er), in') \<Longrightarrow> copy_chunk wrO d (d_out s) = (ew, out') \<Longrightarrow>
     duplex_step rdI wrI rdO wrO s
       (s\<lparr>d_relay := (d_relay s)\<lparr>r_toOutbound := after_round ew er\<rparr>, d_in := in', d_out := out',
          d_failed_out := failed (after_round ew er)\<rparr>)"
| torn_in: "r_toInbound (d_relay s) = Copying \<Longrightarrow> r_phase (d_relay s) = Finished \<Longrightarrow>
     out' = d_out s \<or> rdO 32768 (d_out s) = Some (answer, out') \<Longrightarrow>
     duplex_step rdI wrI rdO wrO s
       (s\<lparr>d_relay := (d_relay s)\<lparr>r_toInbound := Sending (Some err)\<rparr>, d_out := out', d_failed_in := True\<rparr>)"
| torn_out: "r_toOutbound (d_relay s) = Copying \<Longrightarrow> r_phase (d_relay s) = Finished \<Longrightarrow>
     in' = d_in s \<or> rdI 32768 (d_in s) = Some (answer, in') \<Longrightarrow>
     duplex_step rdI wrI rdO wrO s
       (s\<lparr>d_relay := (d_relay s)\<lparr>r_toOutbound := Sending (Some err)\<rparr>, d_in := in', d_failed_out := True\<rparr>)"

inductive_cases duplex_stepE: "duplex_step rdI wrI rdO wrO s t"

section \<open>Refinement of the relay\<close>

lemma relay_set_self:
  "r_toInbound r = x \<Longrightarrow> r\<lparr>r_toInbound := x\<rparr> = r" "r_toOutbound r = x \<Longrightarrow> r\<lparr>r_toOutbound := x\<rparr> = r"
  by auto

lemma after_round_cases: "after_round ew er = Copying \<or> (\<exists>err. after_round ew er = Sending err)"
  by (auto simp: after_round_def split: option.split)

lemma duplex_step_relay:
  "duplex_step rdI wrI rdO wrO s t \<Longrightarrow> relay_step (d_relay s) (d_relay t) \<or> d_relay t = d_relay s"
proof (induction rule: duplex_step.induct)
  case (round_in s d er out' ew in')
  then show ?case
    using after_round_cases [of ew er] relay_step.copy_in_ends [of "d_relay s"] by (auto simp: relay_set_self)
next
  case (round_out s d er in' ew out')
  then show ?case
    using after_round_cases [of ew er] relay_step.copy_out_ends [of "d_relay s"] by (auto simp: relay_set_self)
qed (auto intro: relay_step.intros)

lemma duplex_reaches_relay:
  "(duplex_step rdI wrI rdO wrO)\<^sup>*\<^sup>* s t \<Longrightarrow> relay_step\<^sup>*\<^sup>* (d_relay s) (d_relay t)"
proof (induction rule: rtranclp_induct)
  case (step t u)
  then show ?case using duplex_step_relay [of rdI wrI rdO wrO t u] by auto
qed simp

section \<open>The flow of one direction\<close>

text \<open>
  \<open>all\<close> is everything that has been there to copy, behind what the receiver had before. What the receiver
  has is a prefix of it, and as long as the copy has not failed the rest is what can still be read.
\<close>

definition flow :: "bytes \<Rightarrow> bytes \<Rightarrow> bytes \<Rightarrow> bool \<Rightarrow> copier \<Rightarrow> bool" where
  "flow all sunk rem fl c \<longleftrightarrow>
     (\<exists>rest. all = sunk @ rest \<and> (\<not> fl \<longrightarrow> rest = rem)) \<and> (fl \<longrightarrow> c \<noteq> Copying \<and> c \<noteq> NotStarted)"

lemma flowI: "flow (sunk @ rem) sunk rem False c"
  by (simp add: flow_def)

lemma flow_arrival: "flow all sunk rem fl c \<Longrightarrow> flow (all @ b) sunk (rem @ b) fl c"
  by (auto simp: flow_def)

lemma flow_copier: "flow all sunk rem fl c \<Longrightarrow> (fl \<Longrightarrow> c' \<noteq> Copying \<and> c' \<noteq> NotStarted) \<Longrightarrow> flow all sunk rem fl c'"
  by (auto simp: flow_def)

lemma flow_round:
  assumes "flow all sunk rem fl Copying" "rem = d @ rem'" "prefix p d" "ew = None \<longrightarrow> p = d"
  shows "flow all (sunk @ p) rem' (failed (after_round ew er)) (after_round ew er)"
proof -
  have "\<not> fl" using assms(1) by (simp add: flow_def)
  then have "all = sunk @ d @ rem'" using assms(1,2) by (simp add: flow_def)
  then show ?thesis
    using assms(3,4) by (auto simp: flow_def after_round_def failed_def prefix_def split: option.split)
qed

lemma flow_torn:
  "flow all sunk rem fl Copying \<Longrightarrow> flow all sunk rem' True (Sending (Some err))"
  by (auto simp: flow_def)

lemma flow_prefix: "flow all sunk rem fl c \<Longrightarrow> prefix sunk all"
  by (auto simp: flow_def prefix_def)

text \<open>A copy that has started never gets back to its start.\<close>

lemma relay_step_copiers:
  assumes "relay_step r r'" "relay_inv r"
  shows "r_toInbound r \<noteq> NotStarted \<Longrightarrow> r_toInbound r \<noteq> Copying \<Longrightarrow> r_toInbound r' \<noteq> NotStarted \<and> r_toInbound r' \<noteq> Copying"
    and "r_toOutbound r \<noteq> NotStarted \<Longrightarrow> r_toOutbound r \<noteq> Copying \<Longrightarrow> r_toOutbound r' \<noteq> NotStarted \<and> r_toOutbound r' \<noteq> Copying"
  using assms by (auto elim!: relay_stepE simp: relay_inv_def)

locale duplex_pair =
  i: duplex_conn rdI remI pI hI wrI sunkI + out: duplex_conn rdO remO pO hO wrO sunkO
  for rdI :: "'i reader" and remI pI hI and wrI :: "'i writer" and sunkI
    and rdO :: "'o reader" and remO pO hO and wrO :: "'o writer" and sunkO
begin

lemma flow_in_step:
  assumes "duplex_step rdI wrI rdO wrO s t" "relay_inv (d_relay s)"
    and "flow all (sunkI (d_in s)) (remO (d_out s)) (d_failed_in s) (r_toInbound (d_relay s))"
  shows "flow all (sunkI (d_in t)) (remO (d_out t)) (d_failed_in t) (r_toInbound (d_relay t))"
  using assms
proof (induction rule: duplex_step.induct)
  case (control s r)
  show ?case using control.prems(2)
    by (simp, elim flow_copier) (use relay_step_copiers(1) [OF control.hyps(1) control.prems(1)] control.prems(2) in \<open>auto simp: flow_def\<close>)
next
  case (round_in s d er out' ew in')
  obtain p where p: "prefix p d" "sunkI in' = sunkI (d_in s) @ p" "ew = None \<longrightarrow> p = d"
    using i.chunk_sunk [OF round_in.hyps(4)] by blast
  have "remO (d_out s) = d @ remO out'" using out.read_split [OF round_in.hyps(3)] .
  then show ?case using flow_round [OF _ _ p(1,3)] round_in.prems(2) round_in.hyps(1) p(2) by simp
next
  case (round_out s d er in' ew out')
  then show ?case using i.read_sunk out.chunk_remaining by simp
next
  case (torn_in s out' answer err)
  then show ?case using flow_torn by simp
next
  case (torn_out s in' answer err)
  then show ?case using i.read_sunk by (cases answer) auto
qed

lemma flow_out_step:
  assumes "duplex_step rdI wrI rdO wrO s t" "relay_inv (d_relay s)"
    and "flow all (sunkO (d_out s)) (remI (d_in s)) (d_failed_out s) (r_toOutbound (d_relay s))"
  shows "flow all (sunkO (d_out t)) (remI (d_in t)) (d_failed_out t) (r_toOutbound (d_relay t))"
  using assms
proof (induction rule: duplex_step.induct)
  case (control s r)
  show ?case using control.prems(2)
    by (simp, elim flow_copier) (use relay_step_copiers(2) [OF control.hyps(1) control.prems(1)] control.prems(2) in \<open>auto simp: flow_def\<close>)
next
  case (round_out s d er in' ew out')
  obtain p where p: "prefix p d" "sunkO out' = sunkO (d_out s) @ p" "ew = None \<longrightarrow> p = d"
    using out.chunk_sunk [OF round_out.hyps(4)] by blast
  have "remI (d_in s) = d @ remI in'" using i.read_split [OF round_out.hyps(3)] .
  then show ?case using flow_round [OF _ _ p(1,3)] round_out.prems(2) round_out.hyps(1) p(2) by simp
next
  case (round_in s d er out' ew in')
  then show ?case using out.read_sunk i.chunk_remaining by simp
next
  case (torn_out s in' answer err)
  then show ?case using flow_torn by simp
next
  case (torn_in s out' answer err)
  then show ?case using out.read_sunk by (cases answer) auto
qed

text \<open>After the relay has finished nothing more comes out at either end.\<close>

lemma finished_step:
  assumes "duplex_step rdI wrI rdO wrO s t" "r_phase (d_relay s) = Finished"
  shows "r_phase (d_relay t) = Finished \<and> sunkI (d_in t) = sunkI (d_in s) \<and> sunkO (d_out t) = sunkO (d_out s)"
  using assms
proof (induction rule: duplex_step.induct)
  case (control s r)
  then show ?case by (auto elim!: relay_stepE)
next
  case (torn_in s out' answer err)
  then show ?case using out.read_sunk by (cases answer) auto
next
  case (torn_out s in' answer err)
  then show ?case using i.read_sunk by (cases answer) auto
qed simp_all

lemma finished_run:
  "(duplex_step rdI wrI rdO wrO)\<^sup>*\<^sup>* s t \<Longrightarrow> r_phase (d_relay s) = Finished \<Longrightarrow>
     r_phase (d_relay t) = Finished \<and> sunkI (d_in t) = sunkI (d_in s) \<and> sunkO (d_out t) = sunkO (d_out s)"
  by (induction rule: rtranclp_induct) (use finished_step in auto)

text \<open>Both directions and the relay, from the start.\<close>

definition pair_inv :: "bytes \<Rightarrow> bytes \<Rightarrow> ('i, 'o) duplex \<Rightarrow> bool" where
  "pair_inv allI allO s \<longleftrightarrow> relay_inv (d_relay s) \<and>
     flow allI (sunkI (d_in s)) (remO (d_out s)) (d_failed_in s) (r_toInbound (d_relay s)) \<and>
     flow allO (sunkO (d_out s)) (remI (d_in s)) (d_failed_out s) (r_toOutbound (d_relay s))"

lemma pair_inv_step: "duplex_step rdI wrI rdO wrO s t \<Longrightarrow> pair_inv allI allO s \<Longrightarrow> pair_inv allI allO t"
  unfolding pair_inv_def
  using flow_in_step [of s t] flow_out_step [of s t] duplex_step_relay [of rdI wrI rdO wrO s t] relay_inv_step [of "d_relay s" "d_relay t"]
  by auto

lemma pair_inv_start: "pair_inv (sunkI i @ remO outb) (sunkO outb @ remI i) (duplex_start i outb)"
  by (simp add: pair_inv_def duplex_start_def relay_inv_start flowI)

lemma pair_inv_reachable:
  "(duplex_step rdI wrI rdO wrO)\<^sup>*\<^sup>* (duplex_start i outb) s \<Longrightarrow>
     pair_inv (sunkI i @ remO outb) (sunkO outb @ remI i) s"
  by (induction rule: rtranclp_induct) (auto intro: pair_inv_start pair_inv_step)

end

section \<open>The relay in tcp mode\<close>

interpretation tcp_tcp: duplex_pair "scripted_Read tcp_Read" "\<lambda>s. tcp_remaining (sc_conn s)" "\<lambda>s. length (tcp_answers (sc_conn s))"
  "\<lambda>s. \<forall>a \<in> set (tcp_answers (sc_conn s)). snd a = None" "scripted_Write tcp_Write_answer" "\<lambda>s. tcp_out (sc_conn s)"
  "scripted_Read tcp_Read" "\<lambda>s. tcp_remaining (sc_conn s)" "\<lambda>s. length (tcp_answers (sc_conn s))"
  "\<lambda>s. \<forall>a \<in> set (tcp_answers (sc_conn s)). snd a = None" "scripted_Write tcp_Write_answer" "\<lambda>s. tcp_out (sc_conn s)"
  by unfold_locales

abbreviation tcp_mode_step :: "(app_conn, app_conn) duplex \<Rightarrow> (app_conn, app_conn) duplex \<Rightarrow> bool" where
  "tcp_mode_step \<equiv>
     duplex_step (scripted_Read tcp_Read) (scripted_Write tcp_Write_answer) (scripted_Read tcp_Read) (scripted_Write tcp_Write_answer)"

section \<open>Properties\<close>

text \<open>
  C15: The relay with its data refines the relay without it, for any two connections that meet the contract of
  \<open>duplex_pair\<close>. TCP connections meet it here; those of gun, websockets, HTTP/2, byte streams and QUIC
  meet it in the theories of their paths. What the goroutines do are steps of the relay, so from the start
  it reaches only states of the relay, and each connection is closed exactly when the relay has finished,
  once. Within it the data is safe: whatever fails, each side has received a prefix of what the other
  sends, and as long as a copy has not failed the rest is still there to be read.
\<close>

theorem duplex_refines:
  assumes "duplex_pair rdI remI pI hI wrI sunkI rdO remO pO hO wrO sunkO"
    and "(duplex_step rdI wrI rdO wrO)\<^sup>*\<^sup>* (duplex_start i out0) s"
  shows "relay_step\<^sup>*\<^sup>* relay_start (d_relay s) \<and>
    r_inClosed (d_relay s) = (if r_phase (d_relay s) = Finished then 1 else 0) \<and>
    r_outClosed (d_relay s) = (if r_phase (d_relay s) = Finished \<and> r_dialed (d_relay s) then 1 else 0) \<and>
    (\<exists>rest. sunkI i @ remO out0 = sunkI (d_in s) @ rest \<and> (d_failed_in s \<or> rest = remO (d_out s))) \<and>
    (\<exists>rest. sunkO out0 @ remI i = sunkO (d_out s) @ rest \<and> (d_failed_out s \<or> rest = remI (d_in s)))"
proof -
  have r: "relay_step\<^sup>*\<^sup>* relay_start (d_relay s)"
    using duplex_reaches_relay [OF assms(2)] by (simp add: duplex_start_def)
  have "relay_inv (d_relay s)" using relay.reachable [OF r relay_inv_start] .
  then show ?thesis
    using r duplex_pair.pair_inv_reachable [OF assms(1,2)] by (auto simp: relay_inv_def duplex_pair.pair_inv_def [OF assms(1)] flow_def)
qed

text \<open>A connection whose peer sends some data without an error and then closes its sending side.\<close>

definition sends_then_closes :: "tcp_conn \<Rightarrow> bool" where
  "sends_then_closes c \<longleftrightarrow> (\<exists>ds. tcp_answers c = map (\<lambda>d. (d, None)) ds @ [([], Some EOF)])"

lemma read_closing:
  assumes "sends_then_closes c"
  obtains c' where "tcp_Read 32768 c = Some (([], Some EOF), c')" "tcp_remaining c = []"
  | d c' where "tcp_Read 32768 c = Some ((d, None), c')" "sends_then_closes c'"
proof -
  obtain ds where ds: "tcp_answers c = map (\<lambda>d. (d, None)) ds @ [([], Some EOF)]"
    using assms by (auto simp: sends_then_closes_def)
  show ?thesis
  proof (cases "tcp_rb c = []")
    case False
    then show ?thesis using that(2) assms by (auto simp: tcp_Read_def sends_then_closes_def)
  next
    case True
    then show ?thesis
      using that ds by (cases ds) (auto simp: tcp_Read_def tcp_remaining_def sends_then_closes_def)
  qed
qed

lemma control_to:
  "relay_step (d_relay s) (d_relay u) \<Longrightarrow> r_toInbound (d_relay s) = Copying \<longrightarrow> r_toInbound (d_relay u) = Copying \<Longrightarrow>
     r_toOutbound (d_relay s) = Copying \<longrightarrow> r_toOutbound (d_relay u) = Copying \<Longrightarrow>
     u = s\<lparr>d_relay := d_relay u\<rparr> \<Longrightarrow> duplex_step rdI wrI rdO wrO s u"
  by (metis duplex_step.control)

lemma round_out_to:
  "r_toOutbound (d_relay s) = Copying \<Longrightarrow> r_phase (d_relay s) \<noteq> Finished \<Longrightarrow>
     rdI 32768 (d_in s) = Some ((d, er), d_in u) \<Longrightarrow> copy_chunk wrO d (d_out s) = (ew, d_out u) \<Longrightarrow>
     u = s\<lparr>d_relay := (d_relay s)\<lparr>r_toOutbound := after_round ew er\<rparr>, d_in := d_in u, d_out := d_out u,
       d_failed_out := failed (after_round ew er)\<rparr> \<Longrightarrow> duplex_step rdI wrI rdO wrO s u"
  by (metis duplex_step.round_out)

definition dialed :: relay where
  "dialed = relay_start\<lparr>r_phase := AwaitingErr, r_dialed := True, r_toInbound := Copying, r_toOutbound := Copying\<rparr>"

text \<open>A relay of two TCP connections on which nothing has failed, whose target takes every write.\<close>

definition calm_relay :: "relay \<Rightarrow> tcp_conn \<Rightarrow> (nat \<times> go_error) option list \<Rightarrow> tcp_conn \<Rightarrow> (app_conn, app_conn) duplex" where
  "calm_relay r application script target =
     \<lparr>d_relay = r, d_in = \<lparr>sc_conn = application, sc_script = script\<rparr>, d_out = \<lparr>sc_conn = target, sc_script = []\<rparr>,
      d_failed_in = False, d_failed_out = False\<rparr>"

lemma calm_write:
  "copy_chunk (scripted_Write tcp_Write_answer) d \<lparr>sc_conn = target, sc_script = []\<rparr> =
     (None, \<lparr>sc_conn = target\<lparr>tcp_out := tcp_out target @ d\<rparr>, sc_script = []\<rparr>)"
  by (simp add: copy_chunk_def scripted_Write_def tcp_Write_answer_def tcp_Write_def)

text \<open>The whole request is copied, and its end is no error.\<close>

lemma request_copied:
  assumes "sends_then_closes c"
  shows "\<exists>c'. tcp_mode_step\<^sup>*\<^sup>* (calm_relay dialed c script target)
      (calm_relay (dialed\<lparr>r_toOutbound := Sending None\<rparr>) c' script (target\<lparr>tcp_out := tcp_out target @ tcp_remaining c\<rparr>)) \<and>
    tcp_out c' = tcp_out c"
  using assms
proof (induction "length (tcp_remaining c) + length (tcp_answers c)" arbitrary: c target rule: less_induct)
  case less
  from less.prems show ?case
  proof (cases rule: read_closing)
    case (1 c')
    have "tcp_mode_step (calm_relay dialed c script target) (calm_relay (dialed\<lparr>r_toOutbound := Sending None\<rparr>) c' script target)"
      by (rule round_out_to [where d = "[]" and er = "Some EOF" and ew = None])
        (simp_all add: calm_relay_def dialed_def scripted_Read_def 1 calm_write after_round_def failed_def copy_chunk_def)
    moreover have "tcp_out c' = tcp_out c" using 1(1) by (auto simp: tcp_Read_def split: if_splits list.splits)
    ultimately show ?thesis using 1(2) by (intro exI [of _ c']) (simp add: r_into_rtranclp)
  next
    case (2 d c')
    let ?target = "target\<lparr>tcp_out := tcp_out target @ d\<rparr>"
    have step: "tcp_mode_step (calm_relay dialed c script target) (calm_relay dialed c' script ?target)"
      by (rule round_out_to [where d = d and er = None and ew = None])
        (simp_all add: calm_relay_def dialed_def scripted_Read_def 2 calm_write after_round_def failed_def)
    have c: "tcp_remaining c = d @ tcp_remaining c'" "tcp_out c' = tcp_out c"
      using tcp.read_split [OF 2(1)] 2(1) by (auto simp: tcp_Read_def split: if_splits list.splits)
    have "length (tcp_remaining c') + length (tcp_answers c') < length (tcp_remaining c) + length (tcp_answers c)"
      using tcp.read_progress [OF 2(1)] by simp
    from less.hyps [OF this 2(2), of ?target] obtain c2 where
      "tcp_mode_step\<^sup>*\<^sup>* (calm_relay dialed c' script ?target)
         (calm_relay (dialed\<lparr>r_toOutbound := Sending None\<rparr>) c2 script (?target\<lparr>tcp_out := tcp_out ?target @ tcp_remaining c'\<rparr>))"
      "tcp_out c2 = tcp_out c'" by blast
    then show ?thesis
      using converse_rtranclp_into_rtranclp [where r = tcp_mode_step, OF step] c by (intro exI [of _ c2]) simp
  qed
qed

definition half_closed :: relay where
  "half_closed = dialed\<lparr>r_toOutbound := Ended, r_phase := Finished, r_errChan := \<lparr>chan_buf = [], chan_cap = 2\<rparr>,
     r_outClosed := 1, r_inClosed := 1\<rparr>"

lemma half_close_runs:
  assumes "sends_then_closes application"
  shows "\<exists>c. tcp_mode_step\<^sup>*\<^sup>* (duplex_start \<lparr>sc_conn = application, sc_script = script\<rparr> \<lparr>sc_conn = target, sc_script = []\<rparr>)
      (calm_relay half_closed c script (target\<lparr>tcp_out := tcp_out target @ tcp_remaining application\<rparr>)) \<and>
    tcp_out c = tcp_out application"
proof -
  let ?target = "target\<lparr>tcp_out := tcp_out target @ tcp_remaining application\<rparr>"
  let ?sending = "dialed\<lparr>r_toOutbound := Sending None\<rparr>"
  let ?sent = "dialed\<lparr>r_toOutbound := Ended, r_errChan := \<lparr>chan_buf = [None], chan_cap = 2\<rparr>\<rparr>"
  obtain c where c: "tcp_mode_step\<^sup>*\<^sup>* (calm_relay dialed application script target) (calm_relay ?sending c script ?target)"
      "tcp_out c = tcp_out application"
    using request_copied [OF assms] by blast
  have "tcp_mode_step (calm_relay relay_start application script target) (calm_relay dialed application script target)"
    using relay_step.dial_succeeds [of relay_start]
    by (intro control_to) (simp_all add: calm_relay_def dialed_def relay_start_def)
  moreover have "relay_step ?sending ?sent"
    using relay_step.send_out [of ?sending None "\<lparr>chan_buf = [None], chan_cap = 2\<rparr>"]
    by (simp add: dialed_def relay_start_def make_chan_def chan_try_send_def)
  then have "tcp_mode_step (calm_relay ?sending c script ?target) (calm_relay ?sent c script ?target)"
    by (intro control_to) (simp_all add: calm_relay_def dialed_def)
  moreover have "relay_step ?sent half_closed"
    using relay_step.receive_err [of ?sent None "\<lparr>chan_buf = [], chan_cap = 2\<rparr>"]
    by (simp add: half_closed_def dialed_def relay_start_def chan_recv_def)
  then have "tcp_mode_step (calm_relay ?sent c script ?target) (calm_relay half_closed c script ?target)"
    by (intro control_to) (simp_all add: calm_relay_def half_closed_def dialed_def)
  ultimately have "tcp_mode_step\<^sup>*\<^sup>* (calm_relay relay_start application script target) (calm_relay half_closed c script ?target)"
    using c(1) by (meson converse_rtranclp_into_rtranclp rtranclp.rtrancl_into_rtrancl)
  moreover have "duplex_start \<lparr>sc_conn = application, sc_script = script\<rparr> \<lparr>sc_conn = target, sc_script = []\<rparr>
      = calm_relay relay_start application script target"
    by (simp add: duplex_start_def calm_relay_def)
  ultimately show ?thesis using c(2) by auto
qed

text \<open>
  C36: A half-closed connection is not kept. Take any application that sends data and then closes its sending
  side, and any target, in tcp mode: there is a run without any error in which the request is
  delivered and then both connections are closed while everything the target sends is still
  to be read; and whatever happens after that, the application never receives any of it.
\<close>

theorem half_close_truncates:
  assumes "sends_then_closes application"
  shows "\<exists>s. tcp_mode_step\<^sup>*\<^sup>* (duplex_start \<lparr>sc_conn = application, sc_script = script\<rparr> \<lparr>sc_conn = target, sc_script = []\<rparr>) s \<and>
     r_phase (d_relay s) = Finished \<and> r_inClosed (d_relay s) = 1 \<and> r_outClosed (d_relay s) = 1 \<and>
     \<not> d_failed_in s \<and> \<not> d_failed_out s \<and>
     tcp_out (sc_conn (d_out s)) = tcp_out target @ tcp_remaining application \<and>
     tcp_remaining (sc_conn (d_out s)) = tcp_remaining target \<and>
     (\<forall>t. tcp_mode_step\<^sup>*\<^sup>* s t \<longrightarrow> tcp_out (sc_conn (d_in t)) = tcp_out application)"
proof -
  obtain c where c: "tcp_mode_step\<^sup>*\<^sup>* (duplex_start \<lparr>sc_conn = application, sc_script = script\<rparr> \<lparr>sc_conn = target, sc_script = []\<rparr>)
      (calm_relay half_closed c script (target\<lparr>tcp_out := tcp_out target @ tcp_remaining application\<rparr>))"
      "tcp_out c = tcp_out application"
    using half_close_runs [OF assms] by blast
  let ?s = "calm_relay half_closed c script (target\<lparr>tcp_out := tcp_out target @ tcp_remaining application\<rparr>)"
  have f: "r_phase (d_relay ?s) = Finished" by (simp add: calm_relay_def half_closed_def)
  have "tcp_out (sc_conn (d_in t)) = tcp_out application" if "tcp_mode_step\<^sup>*\<^sup>* ?s t" for t
    using tcp_tcp.finished_run [OF that f] c(2) by (simp add: calm_relay_def)
  with c(1) show ?thesis by (intro exI [of _ ?s]) (simp add: calm_relay_def half_closed_def tcp_remaining_def)
qed

definition half_closing :: tcp_conn where
  "half_closing = \<lparr>tcp_answers = [(''request'', None), ([], Some EOF)], tcp_rb = [], tcp_out = []\<rparr>"

definition responding :: tcp_conn where
  "responding = \<lparr>tcp_answers = [(''response'', None), ([], Some EOF)], tcp_rb = [], tcp_out = []\<rparr>"

lemma half_closing_closes: "sends_then_closes half_closing"
  by (auto simp: sends_then_closes_def half_closing_def intro: exI [of _ "[''request'']"])

theorem half_close_truncates_witness:
  "\<exists>s. tcp_mode_step\<^sup>*\<^sup>* (duplex_start \<lparr>sc_conn = half_closing, sc_script = []\<rparr> \<lparr>sc_conn = responding, sc_script = []\<rparr>) s \<and>
     tcp_out (sc_conn (d_out s)) = ''request'' \<and> tcp_remaining (sc_conn (d_out s)) = ''response'' \<and>
     (\<forall>t. tcp_mode_step\<^sup>*\<^sup>* s t \<longrightarrow> tcp_out (sc_conn (d_in t)) = [])"
  using half_close_truncates [OF half_closing_closes, of "[]" responding]
  by (auto simp: half_closing_def responding_def tcp_remaining_def)

theorem duplex_refines_witness:
  "\<exists>s. tcp_mode_step\<^sup>*\<^sup>* (duplex_start \<lparr>sc_conn = half_closing, sc_script = []\<rparr> \<lparr>sc_conn = responding, sc_script = []\<rparr>) s \<and>
     relay_step\<^sup>*\<^sup>* relay_start (d_relay s) \<and> r_phase (d_relay s) = Finished \<and> r_inClosed (d_relay s) = 1"
proof -
  obtain c where c: "tcp_mode_step\<^sup>*\<^sup>* (duplex_start \<lparr>sc_conn = half_closing, sc_script = []\<rparr> \<lparr>sc_conn = responding, sc_script = []\<rparr>)
      (calm_relay half_closed c [] (responding\<lparr>tcp_out := tcp_out responding @ tcp_remaining half_closing\<rparr>))"
    using half_close_runs [OF half_closing_closes] by blast
  have "r_phase half_closed = Finished" by (simp add: half_closed_def)
  then show ?thesis
    using duplex_refines [OF tcp_tcp.duplex_pair_axioms c] c
    by (intro exI [of _ "calm_relay half_closed c [] (responding\<lparr>tcp_out := tcp_out responding @ tcp_remaining half_closing\<rparr>)"])
      (simp add: calm_relay_def)
qed

end
