(* ===== verification/Tunnel.thy ===== *)
theory Tunnel
  imports Duplex
begin

text \<open>
  The whole path of a connection: the relay of the client between the application and its end of the
  transport, the relay of the server between its end and the target, and the network that moves
  messages from one end of the transport to the other. All goroutines of both programs and the
  network are interleaved.
\<close>

section \<open>Transports that carry messages\<close>

text \<open>
  \<open>sent\<close> are the messages an end has sent, \<open>arrive\<close> makes a message available to an end, \<open>break\<close> an error.
\<close>

locale msg_transport = duplex_conn rd remaining pending healthy wr sunk
  for rd :: "'s reader" and remaining pending healthy and wr :: "'s writer" and sunk +
  fixes sent :: "'s \<Rightarrow> bytes list"
    and arrive :: "bytes \<Rightarrow> 's \<Rightarrow> 's"
    and break :: "go_error \<Rightarrow> 's \<Rightarrow> 's"
  assumes sunk_sent: "sunk s = concat (sent s)"
    and read_sent: "rd n s = Some (a, s') \<Longrightarrow> sent s' = sent s"
    and write_sent: "wr b s = (r, s') \<Longrightarrow> \<exists>ms. sent s' = sent s @ ms"
    and arrive_remaining: "remaining (arrive m s) = remaining s @ m"
    and arrive_sent: "sent (arrive m s) = sent s"
    and break_remaining: "remaining (break e s) = remaining s"
    and break_sent: "sent (break e s) = sent s"

definition gun_arrive :: "bytes \<Rightarrow> gun_conn \<Rightarrow> gun_conn" where
  "gun_arrive m s = s\<lparr>sc_conn := (sc_conn s)\<lparr>gun_recv := gun_recv (sc_conn s) @ [Inr m]\<rparr>\<rparr>"

definition gun_break :: "go_error \<Rightarrow> gun_conn \<Rightarrow> gun_conn" where
  "gun_break e s = s\<lparr>sc_conn := (sc_conn s)\<lparr>gun_recv := gun_recv (sc_conn s) @ [Inl e]\<rparr>\<rparr>"

definition ws_arrive :: "bytes \<Rightarrow> ws_conn \<Rightarrow> ws_conn" where
  "ws_arrive m s = s\<lparr>sc_conn := (sc_conn s)\<lparr>ws_answers := ws_answers (sc_conn s) @ [(m, None)]\<rparr>\<rparr>"

definition ws_break :: "go_error \<Rightarrow> ws_conn \<Rightarrow> ws_conn" where
  "ws_break e s = s\<lparr>sc_conn := (sc_conn s)\<lparr>ws_answers := ws_answers (sc_conn s) @ [([], Some e)]\<rparr>\<rparr>"

lemma gun_Write_sent: "gun_Write a b c = (r, c') \<Longrightarrow> \<exists>ms. gun_sent c' = gun_sent c @ ms"
  by (auto simp: gun_Write_def split: option.splits)

lemma ws_Write_sent: "ws_Write a b c = (r, c') \<Longrightarrow> \<exists>ms. ws_sent c' = ws_sent c @ ms"
  by (auto simp: ws_Write_def split: if_splits)

interpretation gun_transport: msg_transport "scripted_Read gun_Read" "\<lambda>s. gun_remaining (sc_conn s)" "\<lambda>s. length (gun_recv (sc_conn s))"
  "\<lambda>s. \<forall>a \<in> set (gun_recv (sc_conn s)). \<not> isl a" "scripted_Write gun_Write" "\<lambda>s. concat (gun_sent (sc_conn s))"
  "\<lambda>s. gun_sent (sc_conn s)" gun_arrive gun_break
  by unfold_locales
    (auto simp: scripted_Read_Some gun_Read_def go_copy_def Let_def gun_arrive_def gun_break_def gun_remaining_def
       dest!: scripted_Write_cases gun_Write_sent split: if_splits list.splits sum.splits option.splits)

interpretation ws_transport: msg_transport "scripted_Read ws_Read" "\<lambda>s. ws_remaining (sc_conn s)" "\<lambda>s. length (ws_answers (sc_conn s))"
  "\<lambda>s. \<forall>a \<in> set (ws_answers (sc_conn s)). snd a = None" "scripted_Write ws_Write" "\<lambda>s. concat (ws_sent (sc_conn s))"
  "\<lambda>s. ws_sent (sc_conn s)" ws_arrive ws_break
  by unfold_locales
    (auto simp: scripted_Read_Some ws_Read_def go_copy_def Let_def ws_arrive_def ws_break_def ws_remaining_def
       dest!: scripted_Write_cases ws_Write_sent split: if_splits list.splits option.splits)

section \<open>The steps of the whole path\<close>

record 's tunnel =
  client_side :: "(app_conn, 's) duplex"
  server_side :: "('s, app_conn) duplex"
  upward :: nat      \<comment> \<open>messages of the client that have arrived at the server\<close>
  downward :: nat    \<comment> \<open>messages of the server that have arrived at the client\<close>

definition tunnel_start :: "tcp_conn \<Rightarrow> (nat \<times> go_error) option list \<Rightarrow> 's \<Rightarrow> 's \<Rightarrow> tcp_conn \<Rightarrow> (nat \<times> go_error) option list \<Rightarrow> 's tunnel" where
  "tunnel_start application app_script c s target target_script =
     \<lparr>client_side = duplex_start \<lparr>sc_conn = application, sc_script = app_script\<rparr> c,
      server_side = duplex_start s \<lparr>sc_conn = target, sc_script = target_script\<rparr>,
      upward = 0, downward = 0\<rparr>"

inductive tunnel_step ::
  "'s reader \<Rightarrow> 's writer \<Rightarrow> ('s \<Rightarrow> bytes list) \<Rightarrow> (bytes \<Rightarrow> 's \<Rightarrow> 's) \<Rightarrow> (go_error \<Rightarrow> 's \<Rightarrow> 's)
     \<Rightarrow> 's tunnel \<Rightarrow> 's tunnel \<Rightarrow> bool"
  for rd wr sent arrive break where
  client: "duplex_step (scripted_Read tcp_Read) (scripted_Write tcp_Write_answer) rd wr (client_side t) c \<Longrightarrow>
     tunnel_step rd wr sent arrive break t (t\<lparr>client_side := c\<rparr>)"
| server: "duplex_step rd wr (scripted_Read tcp_Read) (scripted_Write tcp_Write_answer) (server_side t) s \<Longrightarrow>
     tunnel_step rd wr sent arrive break t (t\<lparr>server_side := s\<rparr>)"
| up: "upward t < length (sent (d_out (client_side t))) \<Longrightarrow>
     tunnel_step rd wr sent arrive break t
       (t\<lparr>server_side := (server_side t)\<lparr>d_in := arrive (sent (d_out (client_side t)) ! upward t) (d_in (server_side t))\<rparr>,
          upward := Suc (upward t)\<rparr>)"
| down: "downward t < length (sent (d_in (server_side t))) \<Longrightarrow>
     tunnel_step rd wr sent arrive break t
       (t\<lparr>client_side := (client_side t)\<lparr>d_out := arrive (sent (d_in (server_side t)) ! downward t) (d_out (client_side t))\<rparr>,
          downward := Suc (downward t)\<rparr>)"
| break_client: "tunnel_step rd wr sent arrive break t
       (t\<lparr>client_side := (client_side t)\<lparr>d_out := break e (d_out (client_side t))\<rparr>\<rparr>)"
| break_server: "tunnel_step rd wr sent arrive break t
       (t\<lparr>server_side := (server_side t)\<lparr>d_in := break e (d_in (server_side t))\<rparr>\<rparr>)"

inductive_cases tunnel_stepE: "tunnel_step rd wr msgs arrive break t u"

section \<open>What every step preserves\<close>

text \<open>One stage of the path: what a copy on one side was given, and what the network was given.\<close>

definition delivered :: "nat \<Rightarrow> bytes list \<Rightarrow> bytes" where
  "delivered n ms = concat (take n ms)"

lemma delivered_Suc: "n < length ms \<Longrightarrow> delivered (Suc n) ms = delivered n ms @ ms ! n"
  by (simp add: delivered_def take_Suc_conv_app_nth)

lemma delivered_append: "n \<le> length ms \<Longrightarrow> delivered n (ms @ ms') = delivered n ms"
  by (simp add: delivered_def)

lemma delivered_prefix: "prefix (delivered n ms) (concat ms)"
proof -
  have "concat ms = delivered n ms @ concat (drop n ms)"
    unfolding delivered_def by (simp flip: concat_append)
  then show ?thesis by (simp add: prefix_def)
qed

text \<open>
  What has come out at both ends, and when a direction is quiet: nothing has failed on it and nothing is
  left to move.
\<close>

definition target_received :: "'s tunnel \<Rightarrow> bytes" where
  "target_received t = tcp_out (sc_conn (d_out (server_side t)))"

definition app_received :: "'s tunnel \<Rightarrow> bytes" where
  "app_received t = tcp_out (sc_conn (d_in (client_side t)))"

definition quiet_up :: "('s \<Rightarrow> bytes) \<Rightarrow> ('s \<Rightarrow> bytes list) \<Rightarrow> 's tunnel \<Rightarrow> bool" where
  "quiet_up remaining msgs t \<longleftrightarrow>
     \<not> d_failed_out (client_side t) \<and> \<not> d_failed_out (server_side t) \<and>
     tcp_remaining (sc_conn (d_in (client_side t))) = [] \<and>
     upward t = length (msgs (d_out (client_side t))) \<and> remaining (d_in (server_side t)) = []"

definition quiet_down :: "('s \<Rightarrow> bytes) \<Rightarrow> ('s \<Rightarrow> bytes list) \<Rightarrow> 's tunnel \<Rightarrow> bool" where
  "quiet_down remaining msgs t \<longleftrightarrow>
     \<not> d_failed_in (server_side t) \<and> \<not> d_failed_in (client_side t) \<and>
     tcp_remaining (sc_conn (d_out (server_side t))) = [] \<and>
     downward t = length (msgs (d_in (server_side t))) \<and> remaining (d_out (client_side t)) = []"

sublocale msg_transport \<subseteq> cl: duplex_pair "scripted_Read tcp_Read" "\<lambda>s. tcp_remaining (sc_conn s)" "\<lambda>s. length (tcp_answers (sc_conn s))"
  "\<lambda>s. \<forall>a \<in> set (tcp_answers (sc_conn s)). snd a = None" "scripted_Write tcp_Write_answer" "\<lambda>s. tcp_out (sc_conn s)"
  rd remaining pending healthy wr sunk
  by unfold_locales

sublocale msg_transport \<subseteq> sv: duplex_pair rd remaining pending healthy wr sunk
  "scripted_Read tcp_Read" "\<lambda>s. tcp_remaining (sc_conn s)" "\<lambda>s. length (tcp_answers (sc_conn s))"
  "\<lambda>s. \<forall>a \<in> set (tcp_answers (sc_conn s)). snd a = None" "scripted_Write tcp_Write_answer" "\<lambda>s. tcp_out (sc_conn s)"
  by unfold_locales

context msg_transport begin

lemma arrive_sunk: "sunk (arrive m s) = sunk s" and break_sunk: "sunk (break e s) = sunk s"
  by (simp_all only: sunk_sent arrive_sent break_sent)

lemma chunk_sent: "copy_chunk wr d s = (ew, s') \<Longrightarrow> \<exists>ms. sent s' = sent s @ ms"
  by (auto simp: copy_chunk_def Let_def split: if_splits prod.splits option.splits dest: write_sent)

lemma sent_client_step:
  "duplex_step rdI wrI rd wr s t \<Longrightarrow> \<exists>ms. sent (d_out t) = sent (d_out s) @ ms"
proof (induction rule: duplex_step.induct)
  case (torn_in s out' answer err)
  then show ?case by (cases answer) (auto dest: read_sent)
qed (auto dest: chunk_sent read_sent)

lemma sent_server_step:
  "duplex_step rd wr rdO wrO s t \<Longrightarrow> \<exists>ms. sent (d_in t) = sent (d_in s) @ ms"
proof (induction rule: duplex_step.induct)
  case (torn_out s in' answer err)
  then show ?case by (cases answer) (auto dest: read_sent)
qed (auto dest: chunk_sent read_sent)

text \<open>
  \<open>appl\<close> is all the application sends, \<open>early\<close> what the server's end held from the start, \<open>target0\<close> what the
  target had before; likewise downwards.
\<close>

definition tunnel_inv :: "bytes \<Rightarrow> bytes \<Rightarrow> bytes \<Rightarrow> bytes \<Rightarrow> bytes \<Rightarrow> bytes \<Rightarrow> 's tunnel \<Rightarrow> bool" where
  "tunnel_inv appl early target0 targ late appl0 t \<longleftrightarrow>
     upward t \<le> length (sent (d_out (client_side t))) \<and> downward t \<le> length (sent (d_in (server_side t))) \<and>
     cl.pair_inv (appl0 @ late @ delivered (downward t) (sent (d_in (server_side t)))) appl (client_side t) \<and>
     sv.pair_inv targ (target0 @ early @ delivered (upward t) (sent (d_out (client_side t)))) (server_side t)"

lemma tunnel_inv_step:
  "tunnel_step rd wr sent arrive break t u \<Longrightarrow> tunnel_inv appl early target0 targ late appl0 t \<Longrightarrow>
     tunnel_inv appl early target0 targ late appl0 u"
proof (induction rule: tunnel_step.induct)
  case (client t c)
  obtain ms where ms: "sent (d_out c) = sent (d_out (client_side t)) @ ms" using sent_client_step [OF client(1)] by blast
  show ?case
    using client cl.pair_inv_step [OF client(1)] ms by (simp add: tunnel_inv_def delivered_append)
next
  case (server t s)
  obtain ms where ms: "sent (d_in s) = sent (d_in (server_side t)) @ ms" using sent_server_step [OF server(1)] by blast
  show ?case
    using server sv.pair_inv_step [OF server(1)] ms by (simp add: tunnel_inv_def delivered_append)
next
  case (up t)
  then show ?case
    using flow_arrival
    by (simp add: tunnel_inv_def sv.pair_inv_def cl.pair_inv_def arrive_sent arrive_remaining arrive_sunk delivered_Suc
        flip: append_assoc)
next
  case (down t)
  then show ?case
    using flow_arrival
    by (simp add: tunnel_inv_def sv.pair_inv_def cl.pair_inv_def arrive_sent arrive_remaining arrive_sunk delivered_Suc
        flip: append_assoc)
next
  case (break_client t e)
  then show ?case
    by (simp add: tunnel_inv_def sv.pair_inv_def cl.pair_inv_def break_sent break_remaining break_sunk)
next
  case (break_server t e)
  then show ?case
    by (simp add: tunnel_inv_def sv.pair_inv_def cl.pair_inv_def break_sent break_remaining break_sunk)
qed

lemma tunnel_inv_start:
  "sent c = [] \<Longrightarrow> sent s = [] \<Longrightarrow>
     tunnel_inv (tcp_remaining application) (remaining s) (tcp_out target) (tcp_remaining target) (remaining c) (tcp_out application)
       (tunnel_start application app_script c s target target_script)"
  using cl.pair_inv_start [of "\<lparr>sc_conn = application, sc_script = app_script\<rparr>" c]
    sv.pair_inv_start [of s "\<lparr>sc_conn = target, sc_script = target_script\<rparr>"]
  by (simp add: tunnel_inv_def tunnel_start_def delivered_def duplex_start_def sunk_sent [of c] sunk_sent [of s])

lemma tunnel_reachable:
  assumes "(tunnel_step rd wr sent arrive break)\<^sup>*\<^sup>* (tunnel_start application app_script c s target target_script) t"
    and "sent c = []" "sent s = []"
  shows "tunnel_inv (tcp_remaining application) (remaining s) (tcp_out target) (tcp_remaining target) (remaining c) (tcp_out application) t"
  using assms(1) by (induction rule: rtranclp_induct) (auto intro: tunnel_inv_start [OF assms(2,3)] tunnel_inv_step)

lemma flow_through:
  assumes "flow all (concat ms) rem1 fl1 c1" "flow (base @ delivered n ms) out rem2 fl2 c2"
  shows "prefix out (base @ all)"
    and "\<not> fl1 \<Longrightarrow> \<not> fl2 \<Longrightarrow> rem1 = [] \<Longrightarrow> rem2 = [] \<Longrightarrow> n = length ms \<Longrightarrow> out = base @ all"
proof -
  have "prefix (delivered n ms) all"
    using delivered_prefix [of n ms] flow_prefix [OF assms(1)] by (rule prefix_order.trans)
  then have "prefix (base @ delivered n ms) (base @ all)" by simp
  with flow_prefix [OF assms(2)] show "prefix out (base @ all)" by (rule prefix_order.trans)
  show "out = base @ all" if "\<not> fl1" "\<not> fl2" "rem1 = []" "rem2 = []" "n = length ms"
    using assms that by (auto simp: flow_def delivered_def)
qed

lemma tunnel_faithful:
  assumes "tunnel_inv appl early target0 targ late appl0 t"
  shows "prefix (target_received t) (target0 @ early @ appl)" "prefix (app_received t) (appl0 @ late @ targ)"
    and "quiet_up remaining sent t \<Longrightarrow> target_received t = target0 @ early @ appl"
    and "quiet_down remaining sent t \<Longrightarrow> app_received t = appl0 @ late @ targ"
proof -
  have up: "flow appl (concat (sent (d_out (client_side t)))) (tcp_remaining (sc_conn (d_in (client_side t))))
        (d_failed_out (client_side t)) (r_toOutbound (d_relay (client_side t)))"
      "flow ((target0 @ early) @ delivered (upward t) (sent (d_out (client_side t)))) (target_received t)
        (remaining (d_in (server_side t))) (d_failed_out (server_side t)) (r_toOutbound (d_relay (server_side t)))"
    using assms by (simp_all add: tunnel_inv_def cl.pair_inv_def sv.pair_inv_def target_received_def sunk_sent)
  have down: "flow targ (concat (sent (d_in (server_side t)))) (tcp_remaining (sc_conn (d_out (server_side t))))
        (d_failed_in (server_side t)) (r_toInbound (d_relay (server_side t)))"
      "flow ((appl0 @ late) @ delivered (downward t) (sent (d_in (server_side t)))) (app_received t)
        (remaining (d_out (client_side t))) (d_failed_in (client_side t)) (r_toInbound (d_relay (client_side t)))"
    using assms by (simp_all add: tunnel_inv_def cl.pair_inv_def sv.pair_inv_def app_received_def sunk_sent)
  show "prefix (target_received t) (target0 @ early @ appl)" using flow_through(1) [OF up] by simp
  show "prefix (app_received t) (appl0 @ late @ targ)" using flow_through(1) [OF down] by simp
  show "target_received t = target0 @ early @ appl" if "quiet_up remaining sent t"
    using flow_through(2) [OF up] that by (simp add: quiet_up_def)
  show "app_received t = appl0 @ late @ targ" if "quiet_down remaining sent t"
    using flow_through(2) [OF down] that by (simp add: quiet_down_def)
qed

lemma tunnel_relays:
  "tunnel_inv appl early target0 targ late appl0 t \<Longrightarrow> relay_inv (d_relay (client_side t)) \<and> relay_inv (d_relay (server_side t))"
  by (simp add: tunnel_inv_def cl.pair_inv_def sv.pair_inv_def)

end

section \<open>Properties\<close>

abbreviation gun_step :: "gun_conn tunnel \<Rightarrow> gun_conn tunnel \<Rightarrow> bool" where
  "gun_step \<equiv> tunnel_step (scripted_Read gun_Read) (scripted_Write gun_Write) (\<lambda>s. gun_sent (sc_conn s)) gun_arrive gun_break"

abbreviation ws_step :: "ws_conn tunnel \<Rightarrow> ws_conn tunnel \<Rightarrow> bool" where
  "ws_step \<equiv> tunnel_step (scripted_Read ws_Read) (scripted_Write ws_Write) (\<lambda>s. ws_sent (sc_conn s)) ws_arrive ws_break"

text \<open>A connection of the gun transport when both ends have just been made.\<close>

definition gun_start ::
  "tcp_conn \<Rightarrow> (nat \<times> go_error) option list \<Rightarrow> go_error option list \<Rightarrow> net_addr option
     \<Rightarrow> go_error option list \<Rightarrow> net_addr option \<Rightarrow> net_addr option \<Rightarrow> tcp_conn \<Rightarrow> (nat \<times> go_error) option list \<Rightarrow> gun_conn tunnel" where
  "gun_start application app_script cs cpr ss spr loc target target_script =
     tunnel_start application app_script \<lparr>sc_conn = NewGunConnection [] cpr None, sc_script = cs\<rparr>
       \<lparr>sc_conn = NewGunConnection [] spr loc, sc_script = ss\<rparr> target target_script"

definition ws_start ::
  "tcp_conn \<Rightarrow> (nat \<times> go_error) option list \<Rightarrow> go_error option list \<Rightarrow> bytes \<Rightarrow> go_error option list \<Rightarrow> tcp_conn
     \<Rightarrow> (nat \<times> go_error) option list \<Rightarrow> ws_conn tunnel" where
  "ws_start application app_script cs early ss target target_script =
     tunnel_start application app_script \<lparr>sc_conn = NewWebsocketConn [] [], sc_script = cs\<rparr>
       \<lparr>sc_conn = websocketServerConn [] early, sc_script = ss\<rparr> target target_script"

lemma gun_start_reachable:
  assumes "gun_step\<^sup>*\<^sup>* (gun_start application app_script cs cpr ss spr loc target target_script) t"
  shows "gun_transport.tunnel_inv (tcp_remaining application) [] (tcp_out target) (tcp_remaining target) [] (tcp_out application) t"
  using gun_transport.tunnel_reachable [OF assms [unfolded gun_start_def]]
  by (simp add: NewGunConnection_def gun_remaining_def)

lemma ws_start_reachable:
  assumes "ws_step\<^sup>*\<^sup>* (ws_start application app_script cs early ss target target_script) t"
  shows "ws_transport.tunnel_inv (tcp_remaining application) early (tcp_out target) (tcp_remaining target) [] (tcp_out application) t"
  using ws_transport.tunnel_reachable [OF assms [unfolded ws_start_def]]
  by (simp add: NewWebsocketConn_def websocketServerConn_def ws_remaining_def)

text \<open>
  C1: The gun mode is transparent. In every reachable state of a client, a server and the network between
  them, with any failures of reads, writes and dials, the target has received a prefix of what the
  application sends and the application a prefix of what the target sends; and a direction on which
  nothing failed and nothing is left to move has delivered everything.
\<close>

theorem gun_tunnel:
  assumes "gun_step\<^sup>*\<^sup>* (gun_start application app_script cs cpr ss spr loc target target_script) t"
  shows "prefix (target_received t) (tcp_out target @ tcp_remaining application) \<and>
    prefix (app_received t) (tcp_out application @ tcp_remaining target) \<and>
    (quiet_up (\<lambda>s. gun_remaining (sc_conn s)) (\<lambda>s. gun_sent (sc_conn s)) t \<longrightarrow>
       target_received t = tcp_out target @ tcp_remaining application) \<and>
    (quiet_down (\<lambda>s. gun_remaining (sc_conn s)) (\<lambda>s. gun_sent (sc_conn s)) t \<longrightarrow>
       app_received t = tcp_out application @ tcp_remaining target)"
  using gun_transport.tunnel_faithful [OF gun_start_reachable [OF assms]] by simp

text \<open>
  C2: The websocket modes are transparent in the same sense; the bytes that came to the server in the
  header of the upgrade request go to the target first.
\<close>

theorem ws_tunnel:
  assumes "ws_step\<^sup>*\<^sup>* (ws_start application app_script cs early ss target target_script) t"
  shows "prefix (target_received t) (tcp_out target @ early @ tcp_remaining application) \<and>
    prefix (app_received t) (tcp_out application @ tcp_remaining target) \<and>
    (quiet_up (\<lambda>s. ws_remaining (sc_conn s)) (\<lambda>s. ws_sent (sc_conn s)) t \<longrightarrow>
       target_received t = tcp_out target @ early @ tcp_remaining application) \<and>
    (quiet_down (\<lambda>s. ws_remaining (sc_conn s)) (\<lambda>s. ws_sent (sc_conn s)) t \<longrightarrow>
       app_received t = tcp_out application @ tcp_remaining target)"
  using ws_transport.tunnel_faithful [OF ws_start_reachable [OF assms]] by simp

section \<open>A run\<close>

text \<open>The application sends two bytes, the target receives them.\<close>

definition idle_tcp :: "bytes list \<Rightarrow> tcp_conn" where
  "idle_tcp segments = \<lparr>tcp_answers = map (\<lambda>d. (d, None)) segments, tcp_rb = [], tcp_out = []\<rparr>"

lemma dial_control:
  assumes "r_phase (d_relay s) = Dialing" "r_toInbound (d_relay s) = NotStarted" "r_toOutbound (d_relay s) = NotStarted"
  shows "duplex_step rdI wrI rdO wrO s
    (s\<lparr>d_relay := (d_relay s)\<lparr>r_phase := AwaitingErr, r_dialed := True, r_toInbound := Copying, r_toOutbound := Copying\<rparr>\<rparr>)"
  by (rule duplex_step.control) (use assms relay_step.dial_succeeds [of "d_relay s"] in simp_all)

lemma client_to:
  "duplex_step (scripted_Read tcp_Read) (scripted_Write tcp_Write_answer) rd wr (client_side t) (client_side u) \<Longrightarrow>
     u = t\<lparr>client_side := client_side u\<rparr> \<Longrightarrow> tunnel_step rd wr msgs arrive break t u"
  by (metis tunnel_step.client)

lemma server_to:
  "duplex_step rd wr (scripted_Read tcp_Read) (scripted_Write tcp_Write_answer) (server_side t) (server_side u) \<Longrightarrow>
     u = t\<lparr>server_side := server_side u\<rparr> \<Longrightarrow> tunnel_step rd wr msgs arrive break t u"
  by (metis tunnel_step.server)

lemma up_to:
  "upward t < length (msgs (d_out (client_side t))) \<Longrightarrow>
     u = t\<lparr>server_side := (server_side t)\<lparr>d_in := arrive (msgs (d_out (client_side t)) ! upward t) (d_in (server_side t))\<rparr>,
          upward := Suc (upward t)\<rparr> \<Longrightarrow> tunnel_step rd wr msgs arrive break t u"
  using tunnel_step.up by blast

lemma dial_to:
  "r_phase (d_relay s) = Dialing \<Longrightarrow> r_toInbound (d_relay s) = NotStarted \<Longrightarrow> r_toOutbound (d_relay s) = NotStarted \<Longrightarrow>
     u = s\<lparr>d_relay := (d_relay s)\<lparr>r_phase := AwaitingErr, r_dialed := True, r_toInbound := Copying, r_toOutbound := Copying\<rparr>\<rparr> \<Longrightarrow>
     duplex_step rdI wrI rdO wrO s u"
  using dial_control by blast

lemma round_to:
  "r_toOutbound (d_relay s) = Copying \<Longrightarrow> r_phase (d_relay s) \<noteq> Finished \<Longrightarrow>
     rdI 32768 (d_in s) = Some ((d, None), d_in u) \<Longrightarrow> copy_chunk wrO d (d_out s) = (None, d_out u) \<Longrightarrow>
     u = s\<lparr>d_in := d_in u, d_out := d_out u, d_failed_out := False\<rparr> \<Longrightarrow>
     duplex_step rdI wrI rdO wrO s u"
  by (rule round_out_to [where er = None and ew = None]) (simp_all add: after_round_def failed_def relay_set_self)

text \<open>One message of the application goes all the way to the target.\<close>

definition up_state ::
  "relay \<Rightarrow> tcp_conn \<Rightarrow> 's \<Rightarrow> relay \<Rightarrow> 's \<Rightarrow> tcp_conn \<Rightarrow> nat \<Rightarrow> 's tunnel" where
  "up_state rc application c rs s target n =
     \<lparr>client_side = \<lparr>d_relay = rc, d_in = \<lparr>sc_conn = application, sc_script = []\<rparr>, d_out = c,
        d_failed_in = False, d_failed_out = False\<rparr>,
      server_side = \<lparr>d_relay = rs, d_in = s, d_out = \<lparr>sc_conn = target, sc_script = []\<rparr>,
        d_failed_in = False, d_failed_out = False\<rparr>, upward = n, downward = 0\<rparr>"

lemma one_message_run:
  assumes d: "d \<noteq> []" "length d \<le> 32768" and wr: "wr d c = ((length d, None), c')" and c': "msgs c' = [d]"
    and rd: "rd 32768 (arrive d s) = Some ((d, None), s')"
  shows "(tunnel_step rd wr msgs arrive break)\<^sup>*\<^sup>* (tunnel_start (idle_tcp [d]) [] c s (idle_tcp []) [])
    (up_state dialed (idle_tcp []) c' dialed s' ((idle_tcp [])\<lparr>tcp_out := d\<rparr>) 1)"
proof -
  let ?step = "tunnel_step rd wr msgs arrive break" and ?e = "idle_tcp []"
  have 1: "?step (up_state relay_start (idle_tcp [d]) c relay_start s ?e 0) (up_state dialed (idle_tcp [d]) c relay_start s ?e 0)"
    by (rule client_to, rule dial_to) (simp_all add: up_state_def relay_start_def dialed_def)
  have 2: "?step (up_state dialed (idle_tcp [d]) c relay_start s ?e 0) (up_state dialed (idle_tcp [d]) c dialed s ?e 0)"
    by (rule server_to, rule dial_to) (simp_all add: up_state_def relay_start_def dialed_def)
  have 3: "?step (up_state dialed (idle_tcp [d]) c dialed s ?e 0) (up_state dialed ?e c' dialed s ?e 0)"
    by (rule client_to, rule round_to [where d = d])
      (simp_all add: up_state_def dialed_def scripted_Read_def tcp_Read_def idle_tcp_def copy_chunk_def wr d)
  have 4: "?step (up_state dialed ?e c' dialed s ?e 0) (up_state dialed ?e c' dialed (arrive d s) ?e 1)"
    by (rule up_to) (simp_all add: up_state_def c')
  have 5: "?step (up_state dialed ?e c' dialed (arrive d s) ?e 1) (up_state dialed ?e c' dialed s' (?e\<lparr>tcp_out := d\<rparr>) 1)"
    by (rule server_to, rule round_to [where d = d])
      (simp_all add: up_state_def dialed_def rd idle_tcp_def copy_chunk_def scripted_Write_def tcp_Write_answer_def tcp_Write_def d)
  have "?step\<^sup>*\<^sup>* (up_state relay_start (idle_tcp [d]) c relay_start s ?e 0) (up_state dialed ?e c' dialed s' (?e\<lparr>tcp_out := d\<rparr>) 1)"
    by (rule converse_rtranclp_into_rtranclp [of ?step], rule 1, rule converse_rtranclp_into_rtranclp [of ?step], rule 2, rule converse_rtranclp_into_rtranclp [of ?step], rule 3, rule converse_rtranclp_into_rtranclp [of ?step], rule 4, rule converse_rtranclp_into_rtranclp [of ?step], rule 5, rule rtranclp.rtrancl_refl)
  then show ?thesis by (simp add: up_state_def tunnel_start_def duplex_start_def)
qed

lemma quiet_up_state:
  "quiet_up remaining msgs (up_state rc (idle_tcp []) c rs s target n) \<longleftrightarrow> n = length (msgs c) \<and> remaining s = []"
  by (simp add: quiet_up_def up_state_def idle_tcp_def tcp_remaining_def)

lemma gun_run:
  "\<exists>t. gun_step\<^sup>*\<^sup>* (gun_start (idle_tcp [''ab'']) [] [] None [] None None (idle_tcp []) []) t \<and>
     quiet_up (\<lambda>s. gun_remaining (sc_conn s)) (\<lambda>s. gun_sent (sc_conn s)) t"
proof -
  let ?g = "\<lparr>sc_conn = NewGunConnection [] None None, sc_script = []\<rparr> :: gun_conn"
  let ?c = "?g\<lparr>sc_conn := (sc_conn ?g)\<lparr>gun_sent := [''ab'']\<rparr>\<rparr>"
  have "gun_step\<^sup>*\<^sup>* (tunnel_start (idle_tcp [''ab'']) [] ?g ?g (idle_tcp []) [])
      (up_state dialed (idle_tcp []) ?c dialed ?g ((idle_tcp [])\<lparr>tcp_out := ''ab''\<rparr>) 1)"
    by (rule one_message_run)
      (simp_all add: scripted_Read_def scripted_Write_def gun_Read_def gun_Write_def go_copy_def gun_arrive_def NewGunConnection_def)
  moreover have "quiet_up (\<lambda>s. gun_remaining (sc_conn s)) (\<lambda>s. gun_sent (sc_conn s))
      (up_state dialed (idle_tcp []) ?c dialed ?g ((idle_tcp [])\<lparr>tcp_out := ''ab''\<rparr>) 1)"
    by (simp add: quiet_up_state gun_remaining_def NewGunConnection_def)
  ultimately show ?thesis unfolding gun_start_def by blast
qed

theorem gun_tunnel_witness:
  "\<exists>t. gun_step\<^sup>*\<^sup>* (gun_start (idle_tcp [''ab'']) [] [] None [] None None (idle_tcp []) []) t \<and> target_received t = ''ab''"
proof -
  obtain t where t: "gun_step\<^sup>*\<^sup>* (gun_start (idle_tcp [''ab'']) [] [] None [] None None (idle_tcp []) []) t"
      "quiet_up (\<lambda>s. gun_remaining (sc_conn s)) (\<lambda>s. gun_sent (sc_conn s)) t"
    using gun_run by blast
  have "target_received t = ''ab''" using gun_tunnel [OF t(1)] t(2) by (simp add: idle_tcp_def tcp_remaining_def)
  with t(1) show ?thesis by blast
qed

text \<open>With early data alone, the server's copy delivers it before any message has been sent.\<close>

lemma ws_run:
  "\<exists>t. ws_step\<^sup>*\<^sup>* (ws_start (idle_tcp []) [] [] ''hi'' [] (idle_tcp []) []) t \<and>
     quiet_up (\<lambda>s. ws_remaining (sc_conn s)) (\<lambda>s. ws_sent (sc_conn s)) t"
proof -
  let ?w = "NewWebsocketConn [] []" and ?e = "NewWebsocketConn [] ''hi''"
  let ?c = "\<lambda>x. \<lparr>sc_conn = x, sc_script = []\<rparr>"
  let ?side = "\<lambda>r i out. \<lparr>d_relay = r, d_in = ?c i, d_out = ?c out, d_failed_in = False, d_failed_out = False\<rparr>"
  let ?t = "\<lambda>rs wi tout.
    \<lparr>client_side = ?side relay_start (idle_tcp []) ?w, server_side = ?side rs wi tout, upward = 0, downward = 0\<rparr> :: ws_conn tunnel"
  let ?out = "(idle_tcp [])\<lparr>tcp_out := ''hi''\<rparr>"
  have 1: "ws_step (?t relay_start ?e (idle_tcp [])) (?t dialed ?e (idle_tcp []))"
    by (rule server_to, rule dial_to) (simp_all add: relay_start_def dialed_def)
  have 2: "ws_step (?t dialed ?e (idle_tcp [])) (?t dialed ?w ?out)"
    by (rule server_to, rule round_to [where d = "''hi''"])
      (simp_all add: dialed_def scripted_Read_def ws_Read_def go_copy_def idle_tcp_def copy_chunk_def scripted_Write_def
        tcp_Write_answer_def tcp_Write_def NewWebsocketConn_def)
  have "ws_step\<^sup>*\<^sup>* (?t relay_start ?e (idle_tcp [])) (?t dialed ?w ?out)"
    by (rule converse_rtranclp_into_rtranclp [of ws_step], rule 1, rule converse_rtranclp_into_rtranclp [of ws_step], rule 2, rule rtranclp.rtrancl_refl)
  then have "ws_step\<^sup>*\<^sup>* (ws_start (idle_tcp []) [] [] ''hi'' [] (idle_tcp []) []) (?t dialed ?w ?out)"
    by (simp add: ws_start_def tunnel_start_def duplex_start_def websocketServerConn_def)
  moreover have "quiet_up (\<lambda>s. ws_remaining (sc_conn s)) (\<lambda>s. ws_sent (sc_conn s)) (?t dialed ?w ?out)"
    by (simp add: quiet_up_def idle_tcp_def tcp_remaining_def NewWebsocketConn_def ws_remaining_def)
  ultimately show ?thesis by blast
qed

theorem ws_tunnel_witness:
  "\<exists>t. ws_step\<^sup>*\<^sup>* (ws_start (idle_tcp []) [] [] ''hi'' [] (idle_tcp []) []) t \<and> target_received t = ''hi''"
proof -
  obtain t where t: "ws_step\<^sup>*\<^sup>* (ws_start (idle_tcp []) [] [] ''hi'' [] (idle_tcp []) []) t"
      "quiet_up (\<lambda>s. ws_remaining (sc_conn s)) (\<lambda>s. ws_sent (sc_conn s)) t"
    using ws_run by blast
  have "target_received t = ''hi''" using ws_tunnel [OF t(1)] t(2) by (simp add: idle_tcp_def tcp_remaining_def)
  with t(1) show ?thesis by blast
qed

end
