(* ===== verification/H2Tunnel.thy ===== *)
theory H2Tunnel
  imports Tunnel HttpConn
begin

text \<open>
  The whole path in the HTTP/2 mode: at each end an \<open>HttpConnection\<close> (src/gost/protocol/http/conn.go) over
  the two bodies of one exchange. The bodies belong to the HTTP libraries: what arrives in one is
  read as from a TCP connection, and the writer of the other takes everything, or a part and fails.
\<close>

section \<open>The end of an exchange\<close>

record h2_end =
  h2_http :: HttpConnection
  h2_body :: tcp_conn
  h2_sent :: "bytes list"    \<comment> \<open>what the writer has taken\<close>

definition h2_Read :: "h2_end reader" where
  "h2_Read n c = (case tcp_Read n (h2_body c) of None \<Rightarrow> None | Some (a, t) \<Rightarrow> Some (a, c\<lparr>h2_body := t\<rparr>))"

definition h2_answer :: "(nat \<times> go_error) option \<Rightarrow> bytes \<Rightarrow> nat \<times> go_error option" where
  "h2_answer a b = (case a of None \<Rightarrow> (length b, None) | Some (n, e) \<Rightarrow> (min n (length b), Some e))"

definition h2_Write :: "(nat \<times> go_error) option \<Rightarrow> h2_end writer" where
  "h2_Write a b c =
     (case http_Write (h2_answer a b) b (h2_http c) of
        (r, h) \<Rightarrow> (r, c\<lparr>h2_http := h,
          h2_sent := (if http_isClosed (h2_http c) then h2_sent c else h2_sent c @ [take (fst (h2_answer a b)) b])\<rparr>))"

definition h2_remaining :: "h2_end \<Rightarrow> bytes" where
  "h2_remaining c = tcp_remaining (h2_body c)"

type_synonym h2_conn = "(h2_end, nat \<times> go_error) scripted"

lemma h2_Read_Some: "h2_Read n c = Some (a, c') \<longleftrightarrow> (\<exists>t. tcp_Read n (h2_body c) = Some (a, t) \<and> c' = c\<lparr>h2_body := t\<rparr>)"
  by (auto simp: h2_Read_def split: option.splits)

lemma h2_Read_None: "h2_Read n c = None \<longleftrightarrow> tcp_Read n (h2_body c) = None"
  by (auto simp: h2_Read_def split: option.splits)

lemma h2_Write_ok:
  "h2_Write a b c = ((n, None), c') \<Longrightarrow> n = length b \<and> h2_sent c' = h2_sent c @ [b] \<and> h2_body c' = h2_body c"
  by (auto simp: h2_Write_def h2_answer_def http_Write_def http_forward_def Let_def split: prod.splits option.splits if_splits)

lemma h2_Write_err:
  "h2_Write a b c = ((n, Some e), c') \<Longrightarrow>
     \<exists>p. prefix p b \<and> (h2_sent c' = h2_sent c @ [p] \<or> p = [] \<and> h2_sent c' = h2_sent c) \<and> h2_body c' = h2_body c"
  by (auto simp: h2_Write_def h2_answer_def http_Write_def http_forward_def Let_def take_is_prefix
      split: prod.splits option.splits if_splits)

lemma h2_answer_conn: "duplex_conn h2_Read h2_remaining (\<lambda>c. length (tcp_answers (h2_body c)))
  (\<lambda>c. \<forall>a \<in> set (tcp_answers (h2_body c)). snd a = None) (h2_Write a) (\<lambda>c. concat (h2_sent c))"
proof unfold_locales
  fix n s d e s' assume r: "h2_Read n s = Some ((d, e), s')"
  then obtain t where t: "tcp_Read n (h2_body s) = Some ((d, e), t)" "s' = s\<lparr>h2_body := t\<rparr>"
    unfolding h2_Read_Some by blast
  show "h2_remaining s = d @ h2_remaining s'" using tcp.read_split [OF t(1)] t(2) by (simp add: h2_remaining_def)
  show "length d \<le> n" using tcp.read_bound [OF t(1)] .
  show "length (h2_remaining s') + length (tcp_answers (h2_body s'))
      < length (h2_remaining s) + length (tcp_answers (h2_body s))" if "0 < n"
    using tcp.read_progress [OF t(1) that] t(2) by (simp add: h2_remaining_def)
  show "e = None \<and> (\<forall>a \<in> set (tcp_answers (h2_body s')). snd a = None)"
    if "\<forall>a \<in> set (tcp_answers (h2_body s)). snd a = None"
    using tcp.read_healthy [OF that t(1)] t(2) by simp
next
  fix n s assume "h2_Read n s = None"
  then show "h2_remaining s = []" using tcp.read_blocks [of n "h2_body s"] by (simp add: h2_Read_None h2_remaining_def)
next
  fix b s n s' assume "h2_Write a b s = ((n, None), s')"
  from h2_Write_ok [OF this] show "n = length b \<and> concat (h2_sent s') = concat (h2_sent s) @ b" by simp
next
  fix b s n e s' assume "h2_Write a b s = ((n, Some e), s')"
  from h2_Write_err [OF this] show "\<exists>p. prefix p b \<and> concat (h2_sent s') = concat (h2_sent s) @ p" by auto
next
  fix n s x s' assume "h2_Read n s = Some (x, s')"
  then show "concat (h2_sent s') = concat (h2_sent s)" by (auto simp: h2_Read_Some)
next
  fix b s r s' assume w: "h2_Write a b s = (r, s')"
  then show "h2_remaining s' = h2_remaining s"
    using h2_Write_ok [of a b s _ s'] h2_Write_err [of a b s _ _ s']
    by (cases r; cases "snd r") (fastforce simp: h2_remaining_def)+
qed

section \<open>The transport\<close>

definition h2_arrive :: "bytes \<Rightarrow> h2_conn \<Rightarrow> h2_conn" where
  "h2_arrive m s = s\<lparr>sc_conn := (sc_conn s)\<lparr>h2_body :=
     (h2_body (sc_conn s))\<lparr>tcp_answers := tcp_answers (h2_body (sc_conn s)) @ [(m, None)]\<rparr>\<rparr>\<rparr>"

definition h2_break :: "go_error \<Rightarrow> h2_conn \<Rightarrow> h2_conn" where
  "h2_break e s = s\<lparr>sc_conn := (sc_conn s)\<lparr>h2_body :=
     (h2_body (sc_conn s))\<lparr>tcp_answers := tcp_answers (h2_body (sc_conn s)) @ [([], Some e)]\<rparr>\<rparr>\<rparr>"

lemma h2_Write_sent: "h2_Write a b c = (r, c') \<Longrightarrow> \<exists>ms. h2_sent c' = h2_sent c @ ms"
  by (auto simp: h2_Write_def split: prod.splits if_splits)

interpretation h2c: duplex_conn "scripted_Read h2_Read" "\<lambda>s. h2_remaining (sc_conn s)"
  "\<lambda>s. length (tcp_answers (h2_body (sc_conn s)))" "\<lambda>s. \<forall>a \<in> set (tcp_answers (h2_body (sc_conn s))). snd a = None"
  "scripted_Write h2_Write" "\<lambda>s. concat (h2_sent (sc_conn s))"
  by (rule scripted_conn) (rule h2_answer_conn)

interpretation h2_transport: msg_transport "scripted_Read h2_Read" "\<lambda>s. h2_remaining (sc_conn s)"
  "\<lambda>s. length (tcp_answers (h2_body (sc_conn s)))" "\<lambda>s. \<forall>a \<in> set (tcp_answers (h2_body (sc_conn s))). snd a = None"
  "scripted_Write h2_Write" "\<lambda>s. concat (h2_sent (sc_conn s))" "\<lambda>s. h2_sent (sc_conn s)" h2_arrive h2_break
  by unfold_locales
    (auto simp: scripted_Read_Some h2_Read_Some h2_arrive_def h2_break_def h2_remaining_def tcp_remaining_def
       dest!: scripted_Write_cases h2_Write_sent)

abbreviation h2_step :: "h2_conn tunnel \<Rightarrow> h2_conn tunnel \<Rightarrow> bool" where
  "h2_step \<equiv> tunnel_step (scripted_Read h2_Read) (scripted_Write h2_Write) (\<lambda>s. h2_sent (sc_conn s)) h2_arrive h2_break"

text \<open>
  The two ends as they are made: the client writes to a pipe, the server to a response writer, which
  can be flushed; both bodies are still empty.
\<close>

definition h2_end_start :: "bool \<Rightarrow> net_addr option \<Rightarrow> net_addr option \<Rightarrow> h2_end" where
  "h2_end_start flusher loc remote =
     \<lparr>h2_http = NewHttpConnection flusher loc remote,
      h2_body = \<lparr>tcp_answers = [], tcp_rb = [], tcp_out = []\<rparr>, h2_sent = []\<rparr>"

definition h2_start ::
  "tcp_conn \<Rightarrow> (nat \<times> go_error) option list \<Rightarrow> (nat \<times> go_error) option list \<Rightarrow> net_addr option
     \<Rightarrow> (nat \<times> go_error) option list \<Rightarrow> net_addr option \<Rightarrow> net_addr option
     \<Rightarrow> tcp_conn \<Rightarrow> (nat \<times> go_error) option list \<Rightarrow> h2_conn tunnel" where
  "h2_start application app_script cs cpr ss spr loc target target_script =
     tunnel_start application app_script \<lparr>sc_conn = h2_end_start False None cpr, sc_script = cs\<rparr>
       \<lparr>sc_conn = h2_end_start True loc spr, sc_script = ss\<rparr> target target_script"

lemma h2_start_reachable:
  assumes "h2_step\<^sup>*\<^sup>* (h2_start application app_script cs cpr ss spr loc target target_script) t"
  shows "h2_transport.tunnel_inv (tcp_remaining application) [] (tcp_out target) (tcp_remaining target) [] (tcp_out application) t"
  using h2_transport.tunnel_reachable [OF assms [unfolded h2_start_def]]
  by (simp add: h2_end_start_def h2_remaining_def tcp_remaining_def)

section \<open>Properties\<close>

text \<open>
  C4: The HTTP/2 mode is transparent: in every reachable state, whatever fails, each end has
  received a prefix of what the other sends, and everything once nothing failed and nothing is left
  to move.
\<close>

theorem h2_tunnel:
  assumes "h2_step\<^sup>*\<^sup>* (h2_start application app_script cs cpr ss spr loc target target_script) t"
  shows "prefix (target_received t) (tcp_out target @ tcp_remaining application) \<and>
    prefix (app_received t) (tcp_out application @ tcp_remaining target) \<and>
    (quiet_up (\<lambda>s. h2_remaining (sc_conn s)) (\<lambda>s. h2_sent (sc_conn s)) t \<longrightarrow>
       target_received t = tcp_out target @ tcp_remaining application) \<and>
    (quiet_down (\<lambda>s. h2_remaining (sc_conn s)) (\<lambda>s. h2_sent (sc_conn s)) t \<longrightarrow>
       app_received t = tcp_out application @ tcp_remaining target)"
  using h2_transport.tunnel_faithful [OF h2_start_reachable [OF assms]] by simp

lemma h2_run:
  "\<exists>t. h2_step\<^sup>*\<^sup>* (h2_start (idle_tcp [''ab'']) [] [] None [] None None (idle_tcp []) []) t \<and>
     quiet_up (\<lambda>s. h2_remaining (sc_conn s)) (\<lambda>s. h2_sent (sc_conn s)) t"
proof -
  let ?c = "\<lparr>sc_conn = h2_end_start False None None, sc_script = []\<rparr> :: h2_conn"
  let ?s = "\<lparr>sc_conn = h2_end_start True None None, sc_script = []\<rparr> :: h2_conn"
  let ?c' = "?c\<lparr>sc_conn := (sc_conn ?c)\<lparr>h2_http := snd (http_Write (2, None) ''ab'' (h2_http (sc_conn ?c))), h2_sent := [''ab'']\<rparr>\<rparr>"
  have "h2_step\<^sup>*\<^sup>* (tunnel_start (idle_tcp [''ab'']) [] ?c ?s (idle_tcp []) [])
      (up_state dialed (idle_tcp []) ?c' dialed ?s ((idle_tcp [])\<lparr>tcp_out := ''ab''\<rparr>) 1)"
    by (rule one_message_run)
      (simp_all add: scripted_Read_def scripted_Write_def h2_Read_def h2_Write_def h2_answer_def http_Write_def http_forward_def
        http_isClosed_def tcp_Read_def h2_arrive_def h2_end_start_def NewHttpConnection_def)
  moreover have "quiet_up (\<lambda>s. h2_remaining (sc_conn s)) (\<lambda>s. h2_sent (sc_conn s))
      (up_state dialed (idle_tcp []) ?c' dialed ?s ((idle_tcp [])\<lparr>tcp_out := ''ab''\<rparr>) 1)"
    by (simp add: quiet_up_state h2_remaining_def tcp_remaining_def h2_end_start_def)
  ultimately show ?thesis unfolding h2_start_def by blast
qed

theorem h2_tunnel_witness:
  "\<exists>t. h2_step\<^sup>*\<^sup>* (h2_start (idle_tcp [''ab'']) [] [] None [] None None (idle_tcp []) []) t \<and> target_received t = ''ab''"
proof -
  obtain t where t: "h2_step\<^sup>*\<^sup>* (h2_start (idle_tcp [''ab'']) [] [] None [] None None (idle_tcp []) []) t"
      "quiet_up (\<lambda>s. h2_remaining (sc_conn s)) (\<lambda>s. h2_sent (sc_conn s)) t"
    using h2_run by blast
  have "target_received t = ''ab''" using h2_tunnel [OF t(1)] t(2) by (simp add: idle_tcp_def tcp_remaining_def)
  with t(1) show ?thesis by blast
qed

end
