(* ===== verification/StreamTunnel.thy ===== *)
theory StreamTunnel
  imports Tunnel
begin

text \<open>
  The whole path over byte streams. A stream of QUIC, smux or TLS keeps no boundaries: what one end writes
  arrives byte by byte, and a read takes any part of what has arrived. QUIC mode wraps its streams in
  \<open>interConn\<close> (src/gost/protocol/quic/conn.go); a stream of smux is used as it is (src/mux/mux.go,
  src/gost/proxy/tcp.go).
\<close>

section \<open>The end of a stream\<close>

text \<open>
  What has arrived and not been read, the errors that reads give when it is used up, how much the next
  reads take of it (all of it when this script is used up, at least one byte), and what was written.
\<close>

record stream_end =
  se_rb :: bytes
  se_errs :: "go_error list"
  se_sizes :: "nat list"
  se_out :: bytes

definition read_size :: "nat \<Rightarrow> stream_end \<Rightarrow> nat" where
  "read_size n s = min n (case se_sizes s of [] \<Rightarrow> length (se_rb s) | k # _ \<Rightarrow> max 1 k)"

definition stream_Read :: "stream_end reader" where
  "stream_Read n s =
     (if se_rb s = [] then
        (case se_errs s of [] \<Rightarrow> None | e # es \<Rightarrow> Some (([], Some e), s\<lparr>se_errs := es\<rparr>))
      else Some ((take (read_size n s) (se_rb s), None),
        s\<lparr>se_rb := drop (read_size n s) (se_rb s), se_sizes := tl (se_sizes s)\<rparr>))"

definition stream_Write :: "(nat \<times> go_error) option \<Rightarrow> stream_end writer" where
  "stream_Write a b s =
     (case a of
        None \<Rightarrow> ((length b, None), s\<lparr>se_out := se_out s @ b\<rparr>)
      | Some (n, e) \<Rightarrow> ((min n (length b), Some e), s\<lparr>se_out := se_out s @ take n b\<rparr>))"

definition stream_fresh :: "nat list \<Rightarrow> stream_end" where
  "stream_fresh sizes = \<lparr>se_rb = [], se_errs = [], se_sizes = sizes, se_out = []\<rparr>"

lemma read_size_bounds: "read_size n s \<le> n" "0 < n \<Longrightarrow> se_rb s \<noteq> [] \<Longrightarrow> 0 < read_size n s"
  by (auto simp: read_size_def split: list.splits)

lemma stream_answer_conn: "duplex_conn stream_Read se_rb (\<lambda>s. length (se_errs s)) (\<lambda>s. se_errs s = []) (stream_Write a) se_out"
proof unfold_locales
  fix n s d e s' assume r: "stream_Read n s = Some ((d, e), s')"
  then show "se_rb s = d @ se_rb s'" by (auto simp: stream_Read_def split: if_splits list.splits)
  show "length d \<le> n" using r read_size_bounds(1) [of n s] by (auto simp: stream_Read_def split: if_splits list.splits)
  show "length (se_rb s') + length (se_errs s') < length (se_rb s) + length (se_errs s)" if "0 < n"
    using r read_size_bounds(2) [OF that, of s] by (auto simp: stream_Read_def split: if_splits list.splits)
  show "e = None \<and> se_errs s' = []" if "se_errs s = []"
    using r that by (auto simp: stream_Read_def split: if_splits)
qed (auto simp: stream_Read_def stream_Write_def take_is_prefix split: if_splits list.splits option.splits)

interpretation streamr: byte_reader stream_Read se_rb "\<lambda>s. length (se_errs s)" "\<lambda>s. se_errs s = []"
  using stream_answer_conn unfolding duplex_conn_def copy_pipe_def by blast

section \<open>Wrapped streams\<close>

text \<open>\<open>interConn\<close> keeps the contract of any stream it wraps.\<close>

context duplex_conn begin

lemma quic_Write_Some: "quic_Write write_to b c = (r, c') \<longleftrightarrow> (\<exists>s. write_to b (quic_stream c) = (r, s) \<and> c' = c\<lparr>quic_stream := s\<rparr>)"
  by (auto simp: quic_Write_def split: prod.splits)

lemma quic_conn:
  "duplex_conn (quic_Read read) (\<lambda>c. remaining (quic_stream c)) (\<lambda>c. pending (quic_stream c)) (\<lambda>c. healthy (quic_stream c))
     (quic_Write write_to) (\<lambda>c. sunk (quic_stream c))"
proof (intro duplex_conn.intro copy_pipe.intro)
  show "byte_reader (quic_Read read) (\<lambda>c. remaining (quic_stream c)) (\<lambda>c. pending (quic_stream c)) (\<lambda>c. healthy (quic_stream c))"
    by (rule quic_reader)
  show "byte_sink (quic_Write write_to) (\<lambda>c. sunk (quic_stream c))"
    by unfold_locales (auto simp: quic_Write_Some dest: write_ok write_err)
  show "duplex_conn_axioms (quic_Read read) (\<lambda>c. remaining (quic_stream c)) (quic_Write write_to) (\<lambda>c. sunk (quic_stream c))"
    by (rule duplex_conn_axioms.intro) (auto simp: quic_Write_Some quic_Read_Some dest: read_sunk write_remaining)
qed

end

type_synonym stream_conn = "(stream_end, nat \<times> go_error) scripted"
type_synonym quic_conn = "(stream_end interConn, nat \<times> go_error) scripted"

interpretation streamc: duplex_conn "scripted_Read stream_Read" "\<lambda>s. se_rb (sc_conn s)" "\<lambda>s. length (se_errs (sc_conn s))"
  "\<lambda>s. se_errs (sc_conn s) = []" "scripted_Write stream_Write" "\<lambda>s. se_out (sc_conn s)"
  by (rule scripted_conn) (rule stream_answer_conn)

lemma quic_answer_conn:
  "duplex_conn (quic_Read stream_Read) (\<lambda>c. se_rb (quic_stream c)) (\<lambda>c. length (se_errs (quic_stream c)))
     (\<lambda>c. se_errs (quic_stream c) = []) (quic_Write (stream_Write a)) (\<lambda>c. se_out (quic_stream c))"
  by (rule duplex_conn.quic_conn) (rule stream_answer_conn)

interpretation quicc: duplex_conn "scripted_Read (quic_Read stream_Read)" "\<lambda>s. se_rb (quic_stream (sc_conn s))"
  "\<lambda>s. length (se_errs (quic_stream (sc_conn s)))" "\<lambda>s. se_errs (quic_stream (sc_conn s)) = []"
  "scripted_Write (\<lambda>a. quic_Write (stream_Write a))" "\<lambda>s. se_out (quic_stream (sc_conn s))"
  by (rule scripted_conn) (rule quic_answer_conn)

section \<open>The transport\<close>

text \<open>The network moves single bytes; how reads put them together is up to the sizes.\<close>

definition stream_bytes :: "stream_end \<Rightarrow> bytes list" where
  "stream_bytes s = map (\<lambda>b. [b]) (se_out s)"

definition stream_arrive :: "bytes \<Rightarrow> stream_end \<Rightarrow> stream_end" where
  "stream_arrive m s = s\<lparr>se_rb := se_rb s @ m\<rparr>"

definition stream_break :: "go_error \<Rightarrow> stream_end \<Rightarrow> stream_end" where
  "stream_break e s = s\<lparr>se_errs := se_errs s @ [e]\<rparr>"

definition on_conn :: "('s \<Rightarrow> 's) \<Rightarrow> ('s, 'a) scripted \<Rightarrow> ('s, 'a) scripted" where
  "on_conn f s = s\<lparr>sc_conn := f (sc_conn s)\<rparr>"

definition on_stream :: "('s \<Rightarrow> 's) \<Rightarrow> 's interConn \<Rightarrow> 's interConn" where
  "on_stream f c = c\<lparr>quic_stream := f (quic_stream c)\<rparr>"

lemma concat_singletons: "concat (map (\<lambda>b. [b]) xs) = xs"
  by (induction xs) simp_all

lemma quic_Write_stream: "quic_Write wr b c = (r, c') \<Longrightarrow> wr b (quic_stream c) = (r, quic_stream c')"
  by (auto simp: quic_Write_def split: prod.splits)

lemma stream_Write_out: "stream_Write a b s = (r, s') \<Longrightarrow> \<exists>p. se_out s' = se_out s @ p"
  by (auto simp: stream_Write_def split: option.splits)

lemma stream_Read_out: "stream_Read n s = Some (a, s') \<Longrightarrow> se_out s' = se_out s"
  by (auto simp: stream_Read_def split: if_splits list.splits)

lemma stream_effects [simp]:
  "se_rb (stream_arrive m s) = se_rb s @ m" "se_out (stream_arrive m s) = se_out s"
  "se_rb (stream_break e s) = se_rb s" "se_out (stream_break e s) = se_out s"
  by (simp_all add: stream_arrive_def stream_break_def)

lemma on_simps [simp]: "sc_conn (on_conn f s) = f (sc_conn s)" "quic_stream (on_stream g c) = g (quic_stream c)"
  by (simp_all add: on_conn_def on_stream_def)

interpretation stream_transport: msg_transport "scripted_Read stream_Read" "\<lambda>s. se_rb (sc_conn s)" "\<lambda>s. length (se_errs (sc_conn s))"
  "\<lambda>s. se_errs (sc_conn s) = []" "scripted_Write stream_Write" "\<lambda>s. se_out (sc_conn s)"
  "\<lambda>s. stream_bytes (sc_conn s)" "\<lambda>m. on_conn (stream_arrive m)" "\<lambda>e. on_conn (stream_break e)"
  by unfold_locales
    (auto simp: stream_bytes_def concat_singletons scripted_Read_Some dest!: scripted_Write_cases stream_Write_out stream_Read_out)

interpretation quic_transport: msg_transport "scripted_Read (quic_Read stream_Read)" "\<lambda>s. se_rb (quic_stream (sc_conn s))"
  "\<lambda>s. length (se_errs (quic_stream (sc_conn s)))" "\<lambda>s. se_errs (quic_stream (sc_conn s)) = []"
  "scripted_Write (\<lambda>a. quic_Write (stream_Write a))" "\<lambda>s. se_out (quic_stream (sc_conn s))"
  "\<lambda>s. stream_bytes (quic_stream (sc_conn s))" "\<lambda>m. on_conn (on_stream (stream_arrive m))" "\<lambda>e. on_conn (on_stream (stream_break e))"
  by unfold_locales
    (auto simp: stream_bytes_def concat_singletons scripted_Read_Some streamr.quic_Read_Some
      dest!: scripted_Write_cases quic_Write_stream stream_Write_out stream_Read_out)

abbreviation stream_step :: "stream_conn tunnel \<Rightarrow> stream_conn tunnel \<Rightarrow> bool" where
  "stream_step \<equiv> tunnel_step (scripted_Read stream_Read) (scripted_Write stream_Write) (\<lambda>s. stream_bytes (sc_conn s))
     (\<lambda>m. on_conn (stream_arrive m)) (\<lambda>e. on_conn (stream_break e))"

abbreviation quic_step :: "quic_conn tunnel \<Rightarrow> quic_conn tunnel \<Rightarrow> bool" where
  "quic_step \<equiv> tunnel_step (scripted_Read (quic_Read stream_Read)) (scripted_Write (\<lambda>a. quic_Write (stream_Write a)))
     (\<lambda>s. stream_bytes (quic_stream (sc_conn s)))
     (\<lambda>m. on_conn (on_stream (stream_arrive m))) (\<lambda>e. on_conn (on_stream (stream_break e)))"

text \<open>A stream when both of its ends have just been made, as it is and as QUIC mode wraps it.\<close>

definition stream_start ::
  "tcp_conn \<Rightarrow> (nat \<times> go_error) option list \<Rightarrow> nat list \<Rightarrow> (nat \<times> go_error) option list
     \<Rightarrow> nat list \<Rightarrow> (nat \<times> go_error) option list \<Rightarrow> tcp_conn \<Rightarrow> (nat \<times> go_error) option list \<Rightarrow> stream_conn tunnel" where
  "stream_start application app_script csz cs ssz ss target target_script =
     tunnel_start application app_script \<lparr>sc_conn = stream_fresh csz, sc_script = cs\<rparr>
       \<lparr>sc_conn = stream_fresh ssz, sc_script = ss\<rparr> target target_script"

definition quic_start ::
  "tcp_conn \<Rightarrow> (nat \<times> go_error) option list \<Rightarrow> nat list \<Rightarrow> net_addr \<times> net_addr \<Rightarrow> (nat \<times> go_error) option list
     \<Rightarrow> nat list \<Rightarrow> net_addr \<times> net_addr \<Rightarrow> (nat \<times> go_error) option list \<Rightarrow> tcp_conn
     \<Rightarrow> (nat \<times> go_error) option list \<Rightarrow> quic_conn tunnel" where
  "quic_start application app_script csz caddr cs ssz saddr ss target target_script =
     tunnel_start application app_script
       \<lparr>sc_conn = NewQUICConn (stream_fresh csz) (fst caddr) (snd caddr), sc_script = cs\<rparr>
       \<lparr>sc_conn = NewQUICConn (stream_fresh ssz) (fst saddr) (snd saddr), sc_script = ss\<rparr> target target_script"

lemma stream_start_reachable:
  assumes "stream_step\<^sup>*\<^sup>* (stream_start application app_script csz cs ssz ss target target_script) t"
  shows "stream_transport.tunnel_inv (tcp_remaining application) [] (tcp_out target) (tcp_remaining target) [] (tcp_out application) t"
  using stream_transport.tunnel_reachable [OF assms [unfolded stream_start_def]]
  by (simp add: stream_fresh_def stream_bytes_def)

lemma quic_start_reachable:
  assumes "quic_step\<^sup>*\<^sup>* (quic_start application app_script csz caddr cs ssz saddr ss target target_script) t"
  shows "quic_transport.tunnel_inv (tcp_remaining application) [] (tcp_out target) (tcp_remaining target) [] (tcp_out application) t"
  using quic_transport.tunnel_reachable [OF assms [unfolded quic_start_def]]
  by (simp add: stream_fresh_def stream_bytes_def NewQUICConn_def)

section \<open>Properties\<close>

text \<open>
  C6: The QUIC mode is transparent over streams that keep no boundaries: in every reachable state, however
  the bytes are cut into reads and whatever fails, each end has received a prefix of what the other
  sends, and everything once nothing failed and nothing is left to move.
\<close>

theorem quic_tunnel:
  assumes "quic_step\<^sup>*\<^sup>* (quic_start application app_script csz caddr cs ssz saddr ss target target_script) t"
  shows "prefix (target_received t) (tcp_out target @ tcp_remaining application) \<and>
    prefix (app_received t) (tcp_out application @ tcp_remaining target) \<and>
    (quiet_up (\<lambda>s. se_rb (quic_stream (sc_conn s))) (\<lambda>s. stream_bytes (quic_stream (sc_conn s))) t \<longrightarrow>
       target_received t = tcp_out target @ tcp_remaining application) \<and>
    (quiet_down (\<lambda>s. se_rb (quic_stream (sc_conn s))) (\<lambda>s. stream_bytes (quic_stream (sc_conn s))) t \<longrightarrow>
       app_received t = tcp_out application @ tcp_remaining target)"
  using quic_transport.tunnel_faithful [OF quic_start_reachable [OF assms]] by simp

lemma quic_run:
  "\<exists>t. quic_step\<^sup>*\<^sup>* (quic_start (idle_tcp [''a'']) [] [] (zero_addr, zero_addr) [] [] (zero_addr, zero_addr) [] (idle_tcp []) []) t \<and>
     quiet_up (\<lambda>s. se_rb (quic_stream (sc_conn s))) (\<lambda>s. stream_bytes (quic_stream (sc_conn s))) t"
proof -
  let ?c = "\<lparr>sc_conn = NewQUICConn (stream_fresh []) zero_addr zero_addr, sc_script = []\<rparr> :: quic_conn"
  let ?c' = "on_conn (on_stream (\<lambda>s. s\<lparr>se_out := ''a''\<rparr>)) ?c"
  have "quic_step\<^sup>*\<^sup>* (tunnel_start (idle_tcp [''a'']) [] ?c ?c (idle_tcp []) [])
      (up_state dialed (idle_tcp []) ?c' dialed ?c ((idle_tcp [])\<lparr>tcp_out := ''a''\<rparr>) 1)"
    by (rule one_message_run)
      (simp_all add: scripted_Read_def scripted_Write_def quic_Read_def quic_Write_def stream_Read_def stream_Write_def
        read_size_def stream_arrive_def stream_fresh_def NewQUICConn_def on_conn_def on_stream_def stream_bytes_def)
  moreover have "quiet_up (\<lambda>s. se_rb (quic_stream (sc_conn s))) (\<lambda>s. stream_bytes (quic_stream (sc_conn s)))
      (up_state dialed (idle_tcp []) ?c' dialed ?c ((idle_tcp [])\<lparr>tcp_out := ''a''\<rparr>) 1)"
    by (simp add: quiet_up_state stream_bytes_def stream_fresh_def NewQUICConn_def)
  ultimately show ?thesis unfolding quic_start_def by auto
qed

theorem quic_tunnel_witness:
  "\<exists>t. quic_step\<^sup>*\<^sup>* (quic_start (idle_tcp [''a'']) [] [] (zero_addr, zero_addr) [] [] (zero_addr, zero_addr) [] (idle_tcp []) []) t \<and>
     target_received t = ''a''"
proof -
  obtain t where t: "quic_step\<^sup>*\<^sup>* (quic_start (idle_tcp [''a'']) [] [] (zero_addr, zero_addr) [] [] (zero_addr, zero_addr) [] (idle_tcp []) []) t"
      "quiet_up (\<lambda>s. se_rb (quic_stream (sc_conn s))) (\<lambda>s. stream_bytes (quic_stream (sc_conn s))) t"
    using quic_run by blast
  have "target_received t = ''a''" using quic_tunnel [OF t(1)] t(2) by (simp add: idle_tcp_def tcp_remaining_def)
  with t(1) show ?thesis by blast
qed

end
