(* ===== verification/Lifecycle.thy ===== *)
theory Lifecycle
  imports Relay
begin

text \<open>
  The program after its start: the goroutines that \<open>handler.Serve\<close> starts (src/handler.go), and the end of
  \<open>main\<close> (src/main.go), which waits for a signal, cancels the context and closes the listener. The loop of
  the listener's \<open>Serve\<close> is a parameter; its contract is a locale, interpreted on the loops of the
  listeners that accept themselves.
\<close>

section \<open>Accept loops\<close>

text \<open>Once its context is done, an accept loop returns at the first accept that fails.\<close>

locale accept_loop =
  fixes serve :: "'k accept_event list \<Rightarrow> 'st \<Rightarrow> loop_exit \<times> 'st"
  assumes done_returns: "serve [AcceptError err True] st = (Returned, st)"

interpretation keep_accepting: accept_loop KeepAccepting
  by unfold_locales simp

interpretation keep_mux_accepting: accept_loop KeepMuxAccepting
  by unfold_locales simp

interpretation quic_serve: accept_loop QUIC_Serve
  by unfold_locales simp

section \<open>The steps\<close>

datatype main_phase = AwaitingSignal | CtxCancelled | ListenerClosed | ProcessGone

text \<open>
  \<open>lf_state\<close> is the state of the listener's loop, \<open>lf_relayed\<close> the connections the first goroutine of
  \<open>handler.Serve\<close> has started a relay for, \<open>lf_late\<close> how many accepts have failed since the listener was
  closed.
\<close>

record ('st, 'c) life =
  lf_main :: main_phase
  lf_ctx_done :: bool
  lf_open :: bool
  lf_serve :: loop_exit
  lf_state :: 'st
  lf_accepter :: loop_exit
  lf_relayed :: "'c list"
  lf_late :: nat

definition life_start :: "'st \<Rightarrow> ('st, 'c) life" where
  "life_start st =
     \<lparr>lf_main = AwaitingSignal, lf_ctx_done = False, lf_open = True, lf_serve = Waiting, lf_state = st,
      lf_accepter = Waiting, lf_relayed = [], lf_late = 0\<rparr>"

text \<open>What \<open>AcceptConn\<close> answers, as an event of the first goroutine; \<open>done\<close> is the context.\<close>

definition conn_event :: "bool \<Rightarrow> 'c result \<Rightarrow> 'c accept_event" where
  "conn_event done r = (case r of Inl err \<Rightarrow> AcceptError ''accept'' done | Inr c \<Rightarrow> Accepted c)"

text \<open>
  Accepts succeed only while the listener is open; they may fail at any time, with any text. \<open>tk\<close> is
  \<open>AcceptConn\<close> on the state of the listener.
\<close>

inductive life_step ::
  "('k accept_event list \<Rightarrow> 'st \<Rightarrow> loop_exit \<times> 'st) \<Rightarrow> ('st \<Rightarrow> ('c result \<times> 'st) option)
     \<Rightarrow> ('st, 'c) life \<Rightarrow> ('st, 'c) life \<Rightarrow> bool"
  for serve tk where
  accept_conn: "lf_main s \<noteq> ProcessGone \<Longrightarrow> lf_serve s = Waiting \<Longrightarrow> lf_open s \<Longrightarrow>
     serve [Accepted k] (lf_state s) = (ex, st) \<Longrightarrow> life_step serve tk s (s\<lparr>lf_serve := ex, lf_state := st\<rparr>)"
| accept_fails: "lf_main s \<noteq> ProcessGone \<Longrightarrow> lf_serve s = Waiting \<Longrightarrow>
     serve [AcceptError err (lf_ctx_done s)] (lf_state s) = (ex, st) \<Longrightarrow>
     life_step serve tk s
       (s\<lparr>lf_serve := ex, lf_state := st, lf_late := (if lf_open s then lf_late s else Suc (lf_late s))\<rparr>)"
| relay_conn: "lf_main s \<noteq> ProcessGone \<Longrightarrow> lf_accepter s = Waiting \<Longrightarrow> tk (lf_state s) = Some (r, st) \<Longrightarrow>
     handler_accepts [conn_event (lf_ctx_done s) r] (lf_relayed s) = (ex, relayed) \<Longrightarrow>
     life_step serve tk s (s\<lparr>lf_state := st, lf_accepter := ex, lf_relayed := relayed\<rparr>)"
| signal_cancels: "lf_main s = AwaitingSignal \<Longrightarrow>
     life_step serve tk s (s\<lparr>lf_main := CtxCancelled, lf_ctx_done := True\<rparr>)"
| handler_closes: "lf_main s = CtxCancelled \<Longrightarrow> life_step serve tk s (s\<lparr>lf_main := ListenerClosed, lf_open := False\<rparr>)"
| main_returns: "lf_main s = ListenerClosed \<Longrightarrow> life_step serve tk s (s\<lparr>lf_main := ProcessGone\<rparr>)"

inductive_cases life_stepE: "life_step serve tk s t"

section \<open>Shutting down\<close>

definition life_inv :: "('st, 'c) life \<Rightarrow> bool" where
  "life_inv s \<longleftrightarrow>
     (lf_open s \<longleftrightarrow> lf_main s \<in> {AwaitingSignal, CtxCancelled}) \<and>
     (lf_ctx_done s \<longleftrightarrow> lf_main s \<noteq> AwaitingSignal) \<and>
     lf_late s \<le> 1 \<and> (lf_late s = 1 \<longrightarrow> lf_serve s = Returned) \<and> (lf_open s \<longrightarrow> lf_late s = 0)"

lemma life_inv_start: "life_inv (life_start st)"
  by (simp add: life_inv_def life_start_def)

context accept_loop begin

lemma life_inv_step: "life_step serve tk s t \<Longrightarrow> life_inv s \<Longrightarrow> life_inv t"
proof (induction rule: life_step.induct)
  case (accept_fails s err ex st)
  then show ?case
    using done_returns [of err "lf_state s"] by (cases "lf_ctx_done s") (auto simp: life_inv_def)
qed (auto simp: life_inv_def)

lemma life_inv_reachable: "(life_step serve tk)\<^sup>*\<^sup>* (life_start st) s \<Longrightarrow> life_inv s"
  by (induction rule: rtranclp_induct) (auto intro: life_inv_start life_inv_step)

lemma stops_after_close:
  assumes "(life_step serve tk)\<^sup>*\<^sup>* (life_start st) s" "lf_main s = ListenerClosed" "lf_serve s = Waiting"
    and "serve [AcceptError err (lf_ctx_done s)] (lf_state s) = (ex, st')"
  shows "ex = Returned"
  using life_inv_reachable [OF assms(1)] assms(2-4) done_returns [of err "lf_state s"] by (auto simp: life_inv_def)

end

section \<open>The queue between the two goroutines\<close>

definition take_conn :: "'c accept_state \<Rightarrow> ('c result \<times> 'c accept_state) option" where
  "take_conn s = (case AcceptConn (connChan s) of None \<Rightarrow> None | Some (r, q) \<Rightarrow> Some (r, s\<lparr>connChan := q\<rparr>))"

abbreviation tcp_life_step :: "('c accept_state, 'c) life \<Rightarrow> ('c accept_state, 'c) life \<Rightarrow> bool" where
  "tcp_life_step \<equiv> life_step KeepAccepting take_conn"

definition queue_inv :: "nat \<Rightarrow> ('c accept_state, 'c) life \<Rightarrow> bool" where
  "queue_inv n s \<longleftrightarrow>
     sent (lf_state s) = lf_relayed s @ chan_buf (connChan (lf_state s)) \<and>
     chan_cap (connChan (lf_state s)) = n \<and> length (chan_buf (connChan (lf_state s))) \<le> n \<and>
     lf_accepter s = Waiting"

lemma queue_inv_start: "queue_inv n (life_start (start_accepting (make_chan n)))"
  by (simp add: queue_inv_def life_start_def start_accepting_def make_chan_def)

lemma queue_inv_step: "tcp_life_step s t \<Longrightarrow> queue_inv n s \<Longrightarrow> queue_inv n t"
proof (induction rule: life_step.induct)
  case (accept_conn s k ex st)
  then show ?case
    by (auto simp: queue_inv_def deliver_def chan_try_send_def split: if_splits)
next
  case (relay_conn s r st ex relayed)
  then show ?case
    by (auto simp: queue_inv_def take_conn_def AcceptConn_def conn_event_def dest!: chan_recv_Some split: option.splits)
qed (auto simp: queue_inv_def split: if_splits)

interpretation tcp_life: step_invariant tcp_life_step "queue_inv n" for n
  by unfold_locales (rule queue_inv_step)

section \<open>Properties\<close>

text \<open>
  C21: The shutdown ends the accept loops. Since the context is cancelled before the listener is closed, at
  most one accept returns to a loop after the close, whatever its error, and with it the loop ends:
  none of the three loops can spin on a closed listener.
\<close>

theorem shutdown_ends_loops:
  assumes "(life_step KeepAccepting tk)\<^sup>*\<^sup>* (life_start st1) s1"
    and "(life_step KeepMuxAccepting tm)\<^sup>*\<^sup>* (life_start st2) s2"
    and "(life_step QUIC_Serve tq)\<^sup>*\<^sup>* (life_start st3) s3"
  shows "lf_late s1 \<le> 1 \<and> lf_late s2 \<le> 1 \<and> lf_late s3 \<le> 1 \<and>
    (lf_late s1 = 1 \<longrightarrow> lf_serve s1 = Returned) \<and> (lf_late s2 = 1 \<longrightarrow> lf_serve s2 = Returned) \<and>
    (lf_late s3 = 1 \<longrightarrow> lf_serve s3 = Returned) \<and>
    (lf_main s1 = ListenerClosed \<longrightarrow> fst (KeepAccepting [AcceptError err (lf_ctx_done s1)] (lf_state s1)) = Returned) \<and>
    (lf_main s2 = ListenerClosed \<longrightarrow> fst (KeepMuxAccepting [AcceptError err (lf_ctx_done s2)] (lf_state s2)) = Returned) \<and>
    (lf_main s3 = ListenerClosed \<longrightarrow> fst (QUIC_Serve [AcceptError err (lf_ctx_done s3)] (lf_state s3)) = Returned)"
  using keep_accepting.life_inv_reachable [OF assms(1)] keep_mux_accepting.life_inv_reachable [OF assms(2)]
    quic_serve.life_inv_reachable [OF assms(3)]
  by (simp add: life_inv_def)

text \<open>
  C22: In tcp mode no connection is lost between the two goroutines of the handler: in every reachable state
  the connections that were enqueued are those relayed, in order, followed by those that wait, at
  most as many as the queue holds; and the goroutine that starts the relays never ends before the
  process does, since \<open>AcceptConn\<close> never fails.
\<close>

theorem accepted_are_relayed:
  assumes "tcp_life_step\<^sup>*\<^sup>* (life_start (start_accepting (make_chan n))) s"
  shows "sent (lf_state s) = lf_relayed s @ chan_buf (connChan (lf_state s)) \<and>
    length (chan_buf (connChan (lf_state s))) \<le> n \<and> lf_accepter s = Waiting"
  using tcp_life.reachable [OF assms queue_inv_start] by (simp add: queue_inv_def)

text \<open>A run: a connection is accepted and relayed, then the program is told to stop.\<close>

definition stopping :: "(nat accept_state, nat) life" where
  "stopping =
     \<lparr>lf_main = ListenerClosed, lf_ctx_done = True, lf_open = False, lf_serve = Returned,
      lf_state = (start_accepting (make_chan 1024))\<lparr>sent := [7]\<rparr>, lf_accepter = Waiting, lf_relayed = [7], lf_late = 1\<rparr>"

lemma tcp_life_run: "tcp_life_step\<^sup>*\<^sup>* (life_start (start_accepting (make_chan 1024))) stopping"
proof -
  let ?q = "start_accepting (make_chan 1024) :: nat accept_state"
  let ?s0 = "life_start ?q :: (nat accept_state, nat) life"
  let ?s1 = "?s0\<lparr>lf_state := ?q\<lparr>connChan := \<lparr>chan_buf = [7], chan_cap = 1024\<rparr>, sent := [7]\<rparr>\<rparr>"
  let ?s2 = "?s0\<lparr>lf_state := ?q\<lparr>sent := [7]\<rparr>, lf_relayed := [7]\<rparr>"
  let ?s3 = "?s2\<lparr>lf_main := CtxCancelled, lf_ctx_done := True\<rparr>"
  let ?s4 = "?s3\<lparr>lf_main := ListenerClosed, lf_open := False\<rparr>"
  have 1: "tcp_life_step ?s0 ?s1"
    using life_step.accept_conn [of ?s0 KeepAccepting 7 Waiting "?q\<lparr>connChan := \<lparr>chan_buf = [7], chan_cap = 1024\<rparr>, sent := [7]\<rparr>"]
    by (simp add: life_start_def start_accepting_def make_chan_def deliver_def chan_try_send_def)
  have 2: "tcp_life_step ?s1 ?s2"
    using life_step.relay_conn [of ?s1 take_conn "Inr 7" "?q\<lparr>sent := [7]\<rparr>" Waiting "[7]"]
    by (simp add: life_start_def start_accepting_def make_chan_def take_conn_def AcceptConn_def chan_recv_def conn_event_def)
  have 3: "tcp_life_step ?s2 ?s3" by (rule life_step.signal_cancels) (simp add: life_start_def)
  have 4: "tcp_life_step ?s3 ?s4" by (rule life_step.handler_closes) simp
  have 5: "tcp_life_step ?s4 stopping"
    using life_step.accept_fails [of ?s4 KeepAccepting "''closed''" Returned "lf_state ?s4"]
    by (simp add: life_start_def stopping_def)
  show ?thesis
    by (rule converse_rtranclp_into_rtranclp [of tcp_life_step], rule 1, rule converse_rtranclp_into_rtranclp [of tcp_life_step], rule 2,
        rule converse_rtranclp_into_rtranclp [of tcp_life_step], rule 3, rule converse_rtranclp_into_rtranclp [of tcp_life_step], rule 4,
        rule converse_rtranclp_into_rtranclp [of tcp_life_step], rule 5, rule rtranclp.rtrancl_refl)
qed

theorem shutdown_ends_loops_witness: "lf_late stopping = 1 \<and> lf_serve stopping = Returned"
proof -
  have "lf_late stopping = 1" by (simp add: stopping_def)
  then show ?thesis
    using shutdown_ends_loops [OF tcp_life_run rtranclp.rtrancl_refl rtranclp.rtrancl_refl] by blast
qed

theorem accepted_are_relayed_witness: "sent (lf_state stopping) = [7] \<and> lf_accepter stopping = Waiting"
  using accepted_are_relayed [OF tcp_life_run] by (simp add: stopping_def start_accepting_def make_chan_def)

end
