(* ===== verification/ConnMeta.thy ===== *)
theory ConnMeta
  imports HttpConn
begin

text \<open>
  The rest of \<open>net.Conn\<close> on the connections of src/gost/protocol: addresses, deadlines and the channel
  that tells a server handler that its connection is done.
\<close>

section \<open>gun\<close>

type_synonym time = int

definition gun_LocalAddr :: "GunConnection \<Rightarrow> net_addr" where
  "gun_LocalAddr c = gun_local c"

definition gun_RemoteAddr :: "GunConnection \<Rightarrow> net_addr" where
  "gun_RemoteAddr c = gun_remote c"

definition gun_SetDeadline :: "time \<Rightarrow> GunConnection \<Rightarrow> go_error option \<times> GunConnection" where
  "gun_SetDeadline t c = (None, c)"

definition gun_SetReadDeadline :: "time \<Rightarrow> GunConnection \<Rightarrow> go_error option \<times> GunConnection" where
  "gun_SetReadDeadline t c = (None, c)"

definition gun_SetWriteDeadline :: "time \<Rightarrow> GunConnection \<Rightarrow> go_error option \<times> GunConnection" where
  "gun_SetWriteDeadline t c = (None, c)"

text \<open>A receive from \<open>Done\<close> returns exactly when the channel is closed.\<close>

definition gun_Done :: "GunConnection \<Rightarrow> unit option" where
  "gun_Done c = (if gun_done c then Some () else None)"

section \<open>HTTP/2\<close>

definition http_LocalAddr :: "HttpConnection \<Rightarrow> net_addr" where
  "http_LocalAddr c = http_local c"

definition http_RemoteAddr :: "HttpConnection \<Rightarrow> net_addr" where
  "http_RemoteAddr c = http_remote c"

definition http_SetDeadline :: "time \<Rightarrow> HttpConnection \<Rightarrow> go_error option \<times> HttpConnection" where
  "http_SetDeadline t c = (None, c)"

definition http_SetReadDeadline :: "time \<Rightarrow> HttpConnection \<Rightarrow> go_error option \<times> HttpConnection" where
  "http_SetReadDeadline t c = (None, c)"

definition http_SetWriteDeadline :: "time \<Rightarrow> HttpConnection \<Rightarrow> go_error option \<times> HttpConnection" where
  "http_SetWriteDeadline t c = (None, c)"

definition http_Done :: "HttpConnection \<Rightarrow> unit option" where
  "http_Done c = (if http_done c then Some () else None)"

section \<open>websocket\<close>

text \<open>The addresses are those of the library's connection, whose accessors are arguments.\<close>

definition ws_LocalAddr :: "(websocketConn \<Rightarrow> net_addr) \<Rightarrow> websocketConn \<Rightarrow> net_addr" where
  "ws_LocalAddr conn_LocalAddr c = conn_LocalAddr c"

definition ws_RemoteAddr :: "(websocketConn \<Rightarrow> net_addr) \<Rightarrow> websocketConn \<Rightarrow> net_addr" where
  "ws_RemoteAddr conn_RemoteAddr c = conn_RemoteAddr c"

section \<open>QUIC\<close>

definition quic_LocalAddr :: "'s interConn \<Rightarrow> net_addr" where
  "quic_LocalAddr c = quic_local c"

definition quic_RemoteAddr :: "'s interConn \<Rightarrow> net_addr" where
  "quic_RemoteAddr c = quic_remote c"

text \<open>The deadlines are those of the stream.\<close>

definition quic_SetDeadline ::
  "(time \<Rightarrow> 's \<Rightarrow> go_error option \<times> 's) \<Rightarrow> time \<Rightarrow> 's interConn \<Rightarrow> go_error option \<times> 's interConn" where
  "quic_SetDeadline set1 t c = apsnd (\<lambda>s. c\<lparr>quic_stream := s\<rparr>) (set1 t (quic_stream c))"

definition quic_SetReadDeadline ::
  "(time \<Rightarrow> 's \<Rightarrow> go_error option \<times> 's) \<Rightarrow> time \<Rightarrow> 's interConn \<Rightarrow> go_error option \<times> 's interConn" where
  "quic_SetReadDeadline set1 t c = apsnd (\<lambda>s. c\<lparr>quic_stream := s\<rparr>) (set1 t (quic_stream c))"

definition quic_SetWriteDeadline ::
  "(time \<Rightarrow> 's \<Rightarrow> go_error option \<times> 's) \<Rightarrow> time \<Rightarrow> 's interConn \<Rightarrow> go_error option \<times> 's interConn" where
  "quic_SetWriteDeadline set1 t c = apsnd (\<lambda>s. c\<lparr>quic_stream := s\<rparr>) (set1 t (quic_stream c))"

lemmas conn_meta =
  gun_LocalAddr_def gun_RemoteAddr_def gun_SetDeadline_def gun_SetReadDeadline_def gun_SetWriteDeadline_def gun_Done_def
  http_LocalAddr_def http_RemoteAddr_def http_SetDeadline_def http_SetReadDeadline_def http_SetWriteDeadline_def http_Done_def

section \<open>Properties\<close>

text \<open>
  A read of a gun connection that has nothing to read blocks whatever deadline was set: the setters
  report success and change nothing, so the error of a deadline never comes.
\<close>

lemma gun_deadline_ignored:
  assumes "gun_remaining c = []" "gun_recv c = []"
  shows "fst (gun_SetReadDeadline t c) = None \<and> gun_Read n (snd (gun_SetReadDeadline t c)) = None"
  using assms by (simp add: conn_meta gun_Read_def gun_remaining_def)

text \<open>
  The handlers of the servers wait for \<open>Done\<close>. It answers exactly after the first close, and the close
  that ends the wait is the only one that does not panic.
\<close>

lemma done_after_close:
  "gun_Close c = Inr c' \<Longrightarrow> gun_Done c' = Some ()" "http_Done (snd (http_Close answer h)) = Some ()"
  "gun_Done (NewGunConnection answers pr loc) = None" "http_Done (NewHttpConnection flusher loc remote) = None"
  by (auto simp: conn_meta gun_Close_def http_Close_def NewGunConnection_def NewHttpConnection_def Let_def split: if_splits)

end
