(* ===== verification/Serving.thy ===== *)
theory Serving
  imports Lifecycle ConnMeta
begin

text \<open>
  A server with all its connections at once. The handlers of the gRPC and HTTP/2 libraries
  (src/gost/proxy/server/gun.go, h2.go) make a connection, hand it to the queue and wait until it is done;
  the first goroutine of \<open>handler.Serve\<close> (src/handler.go) takes connections from the queue and starts a
  relay for each. Any number of handlers and relays interleave. Closing a connection twice would close its
  channel \<open>done\<close> twice, which panics and ends the whole process.
\<close>

section \<open>Connections that are closed once\<close>

text \<open>\<open>close\<close> is the method \<open>Close\<close>, an error of this sum is a panic; \<open>is_done\<close> is whether \<open>Done\<close> is closed.\<close>

locale closable_conn =
  fixes close :: "'c \<Rightarrow> 'c result" and is_done :: "'c \<Rightarrow> bool"
  assumes close_open: "\<not> is_done c \<Longrightarrow> \<exists>c'. close c = Inr c' \<and> is_done c'"
    and close_again: "is_done c \<Longrightarrow> isl (close c)"


interpretation gun_closable: closable_conn gun_Close "\<lambda>c. gun_Done c \<noteq> None"
  by unfold_locales (auto simp: gun_Close_def gun_Done_def split: if_splits)


section \<open>State and steps\<close>

record 'c served =
  so_conn :: 'c
  so_handler :: handler_end
  so_relay :: "relay option"

text \<open>The connections are numbered in the order in which the handlers make them; the queue holds numbers.\<close>

record 'c serving =
  sv_accept :: "nat accept_state"
  sv_conns :: "'c served list"
  sv_panicked :: bool

definition serving_start :: "nat \<Rightarrow> 'c serving" where
  "serving_start n = \<lparr>sv_accept = start_accepting (make_chan n), sv_conns = [], sv_panicked = False\<rparr>"

definition close_if :: "('c \<Rightarrow> 'c result) \<Rightarrow> bool \<Rightarrow> 'c \<Rightarrow> bool \<times> 'c" where
  "close_if close b c =
     (if b then (case close c of Inl _ \<Rightarrow> (True, c) | Inr c' \<Rightarrow> (False, c')) else (False, c))"

text \<open>
  What the goroutines do with the connections that are there: the relay goroutine takes one from the queue; a
  relay makes a step, which closes the inbound connection when it finishes; a waiting handler returns once
  its connection is done.
\<close>

inductive drain_step :: "('c \<Rightarrow> 'c result) \<Rightarrow> ('c \<Rightarrow> bool) \<Rightarrow> 'c serving \<Rightarrow> 'c serving \<Rightarrow> bool"
  for close is_done where
  takes: "AcceptConn (connChan (sv_accept w)) = Some (Inr i, q) \<Longrightarrow> i < length (sv_conns w) \<Longrightarrow>
     drain_step close is_done w
       (w\<lparr>sv_accept := (sv_accept w)\<lparr>connChan := q\<rparr>,
          sv_conns := (sv_conns w)[i := (sv_conns w ! i)\<lparr>so_relay := Some relay_start\<rparr>]\<rparr>)"
| relays: "i < length (sv_conns w) \<Longrightarrow> so_relay (sv_conns w ! i) = Some r \<Longrightarrow> relay_step r r' \<Longrightarrow>
     close_if close (r_inClosed r < r_inClosed r') (so_conn (sv_conns w ! i)) = (panic, c') \<Longrightarrow>
     drain_step close is_done w
       (w\<lparr>sv_conns := (sv_conns w)[i := (sv_conns w ! i)\<lparr>so_conn := c', so_relay := Some r'\<rparr>],
          sv_panicked := sv_panicked w \<or> panic\<rparr>)"
| returns: "i < length (sv_conns w) \<Longrightarrow> so_handler (sv_conns w ! i) = Waits \<Longrightarrow> is_done (so_conn (sv_conns w ! i)) \<Longrightarrow>
     drain_step close is_done w (w\<lparr>sv_conns := (sv_conns w)[i := (sv_conns w ! i)\<lparr>so_handler := Returns\<rparr>]\<rparr>)"


text \<open>
  Besides, a handler offers a fresh connection and closes it if the queue is full; and the copies read and
  write, which never closes.
\<close>

inductive serving_step :: "('c \<Rightarrow> 'c result) \<Rightarrow> ('c \<Rightarrow> bool) \<Rightarrow> 'c serving \<Rightarrow> 'c serving \<Rightarrow> bool"
  for close is_done where
  offers: "\<not> is_done c \<Longrightarrow> hand_over (length (sv_conns w)) (sv_accept w) = (e, a) \<Longrightarrow>
     close_if close (e = Returns) c = (panic, c') \<Longrightarrow>
     serving_step close is_done w
       (w\<lparr>sv_accept := a, sv_conns := sv_conns w @ [\<lparr>so_conn = c', so_handler = e, so_relay = None\<rparr>],
          sv_panicked := sv_panicked w \<or> panic\<rparr>)"
| transfers: "i < length (sv_conns w) \<Longrightarrow> so_relay (sv_conns w ! i) = Some r \<Longrightarrow>
     (is_done c' \<longleftrightarrow> is_done (so_conn (sv_conns w ! i))) \<Longrightarrow>
     serving_step close is_done w (w\<lparr>sv_conns := (sv_conns w)[i := (sv_conns w ! i)\<lparr>so_conn := c'\<rparr>]\<rparr>)"
| drains: "drain_step close is_done w w' \<Longrightarrow> serving_step close is_done w w'"

inductive_cases serving_stepE: "serving_step close is_done w w'"

text \<open>Reads and writes leave \<open>Done\<close> alone, as the step \<open>transfers\<close> says.\<close>

lemma transfers_keep_done:
  "gun_Read n g = Some (a, g') \<Longrightarrow> gun_Done g' = gun_Done g"
  "gun_Done (snd (gun_Write answer b g)) = gun_Done g"
  "http_Done (snd (http_Write reply b h)) = http_Done h"
  by (auto simp: gun_Read_def gun_Write_def gun_Done_def http_Done_def http_Write_def Let_def go_copy_def
      split: if_splits list.splits sum.splits option.splits)

section \<open>The invariant\<close>

definition conn_ok :: "('c \<Rightarrow> bool) \<Rightarrow> nat list \<Rightarrow> nat list \<Rightarrow> nat \<Rightarrow> 'c served \<Rightarrow> bool" where
  "conn_ok is_done buf refused i x \<longleftrightarrow>
     (case so_relay x of
        None \<Rightarrow>
          (if i \<in> set refused then i \<notin> set buf \<and> is_done (so_conn x)
           else i \<in> set buf \<and> \<not> is_done (so_conn x))
      | Some r \<Rightarrow> i \<notin> set buf \<and> i \<notin> set refused \<and> relay_inv r \<and> (is_done (so_conn x) \<longleftrightarrow> r_phase r = Finished)) \<and>
     (so_handler x = Returns \<longrightarrow> is_done (so_conn x))"

definition serving_inv :: "('c \<Rightarrow> bool) \<Rightarrow> nat \<Rightarrow> 'c serving \<Rightarrow> bool" where
  "serving_inv is_done n w \<longleftrightarrow>
     \<not> sv_panicked w \<and> chan_cap (connChan (sv_accept w)) = n \<and> length (chan_buf (connChan (sv_accept w))) \<le> n \<and>
     distinct (chan_buf (connChan (sv_accept w))) \<and>
     set (chan_buf (connChan (sv_accept w))) \<union> set (dropped (sv_accept w)) \<subseteq> {..<length (sv_conns w)} \<and>
     (\<forall>i < length (sv_conns w).
        conn_ok is_done (chan_buf (connChan (sv_accept w))) (dropped (sv_accept w)) i (sv_conns w ! i))"

lemma serving_inv_start: "serving_inv is_done n (serving_start n)"
  by (simp add: serving_inv_def serving_start_def start_accepting_def make_chan_def)

lemma hand_over_cases:
  assumes "hand_over i a = (e, a')"
  shows "chan_cap (connChan a') = chan_cap (connChan a) \<and>
    (if length (chan_buf (connChan a)) < chan_cap (connChan a)
     then e = Waits \<and> chan_buf (connChan a') = chan_buf (connChan a) @ [i] \<and> dropped a' = dropped a
     else e = Returns \<and> chan_buf (connChan a') = chan_buf (connChan a) \<and> dropped a' = dropped a @ [i])"
  using assms by (auto simp: hand_over_def deliver_def chan_try_send_def split: if_splits)

lemma conn_ok_more:
  "conn_ok is_done buf refused i x \<Longrightarrow> i \<noteq> j \<Longrightarrow> conn_ok is_done (buf @ [j]) refused i x"
  "conn_ok is_done buf refused i x \<Longrightarrow> i \<noteq> j \<Longrightarrow> conn_ok is_done buf (refused @ [j]) i x"
  by (auto simp: conn_ok_def split: option.splits)

lemma serving_inv_conn:
  "serving_inv is_done n w \<Longrightarrow> i < length (sv_conns w) \<Longrightarrow>
     conn_ok is_done (chan_buf (connChan (sv_accept w))) (dropped (sv_accept w)) i (sv_conns w ! i)"
  by (simp add: serving_inv_def)

lemma serving_inv_update:
  assumes "serving_inv is_done n w" "i < length (sv_conns w)"
    and "conn_ok is_done (chan_buf (connChan (sv_accept w))) (dropped (sv_accept w)) i x" "\<not> panic"
  shows "serving_inv is_done n (w\<lparr>sv_conns := (sv_conns w)[i := x], sv_panicked := sv_panicked w \<or> panic\<rparr>)"
  using assms by (simp add: serving_inv_def nth_list_update)

lemma relay_step_closes:
  assumes "relay_step r r'" "relay_inv r"
  shows "(r_inClosed r < r_inClosed r') = (r_phase r \<noteq> Finished \<and> r_phase r' = Finished)"
    and "r_phase r = Finished \<Longrightarrow> r_phase r' = Finished"
  using assms relay_inv_step [OF assms] by (auto elim!: relay_stepE simp: relay_inv_def)

context closable_conn begin

lemma close_if_open: "\<not> is_done c \<Longrightarrow> close_if close b c = (panic, c') \<Longrightarrow> \<not> panic \<and> (is_done c' \<longleftrightarrow> b)"
  using close_open [of c] by (auto simp: close_if_def split: if_splits sum.splits)

lemma close_if_not: "close_if close False c = (panic, c') \<Longrightarrow> \<not> panic \<and> c' = c"
  by (auto simp: close_if_def)

lemma drain_inv_step: "drain_step close is_done w w' \<Longrightarrow> serving_inv is_done n w \<Longrightarrow> serving_inv is_done n w'"
proof (induction rule: drain_step.induct)
  case (takes w i q)
  have b: "chan_buf (connChan (sv_accept w)) = i # chan_buf q" "chan_cap q = chan_cap (connChan (sv_accept w))"
    using takes(1) by (auto simp: AcceptConn_def dest!: chan_recv_Some split: option.splits)
  show ?case using takes(2,3) b relay_inv_start
    by (auto simp: serving_inv_def nth_list_update conn_ok_def relay_start_def split: option.splits)
next
  case (relays i w r r' panic c')
  let ?x = "sv_conns w ! i"
  have ok: "conn_ok is_done (chan_buf (connChan (sv_accept w))) (dropped (sv_accept w)) i ?x"
    using relays(1,5) by (simp add: serving_inv_def)
  then have r: "relay_inv r" "is_done (so_conn ?x) \<longleftrightarrow> r_phase r = Finished" using relays(2) by (simp_all add: conn_ok_def)
  note cl = relay_step_closes [OF relays(3) r(1)]
  have "\<not> panic \<and> (is_done c' \<longleftrightarrow> r_phase r' = Finished)"
  proof (cases "r_phase r = Finished")
    case True
    then show ?thesis using cl r(2) close_if_not relays(4) by auto
  next
    case False
    then show ?thesis using cl(1) r(2) close_if_open [of "so_conn ?x"] relays(4) by auto
  qed
  then have "conn_ok is_done (chan_buf (connChan (sv_accept w))) (dropped (sv_accept w)) i (?x\<lparr>so_conn := c', so_relay := Some r'\<rparr>)"
    using relays(2) ok r(2) relay_inv_step [OF relays(3) r(1)] cl(2) by (auto simp: conn_ok_def)
  then show ?case using serving_inv_update [OF relays(5,1)] \<open>\<not> panic \<and> _\<close> by blast
next
  case (returns i w)
  then have "conn_ok is_done (chan_buf (connChan (sv_accept w))) (dropped (sv_accept w)) i ((sv_conns w ! i)\<lparr>so_handler := Returns\<rparr>)"
    using serving_inv_conn [OF returns(4,1)] by (auto simp: conn_ok_def split: option.splits if_splits)
  then show ?case using serving_inv_update [OF returns(4,1), of _ False] by simp
qed

lemma serving_inv_step: "serving_step close is_done w w' \<Longrightarrow> serving_inv is_done n w \<Longrightarrow> serving_inv is_done n w'"
proof (induction rule: serving_step.induct)
  case (offers c w e a panic c')
  let ?buf = "chan_buf (connChan (sv_accept w))" and ?i = "length (sv_conns w)"
  note h = hand_over_cases [OF offers(2)] and c = close_if_open [OF offers(1,3)]
  have new: "?i \<notin> set ?buf" "?i \<notin> set (dropped (sv_accept w))" using offers(4) by (auto simp: serving_inv_def)
  show ?case
  proof (cases "length ?buf < chan_cap (connChan (sv_accept w))")
    case True
    then show ?thesis using offers(4) h c new
      by (auto simp: serving_inv_def nth_append conn_ok_more) (auto simp: conn_ok_def)
  next
    case False
    then show ?thesis using offers(4) h c new
      by (auto simp: serving_inv_def nth_append conn_ok_more) (auto simp: conn_ok_def)
  qed
next
  case (transfers i w r c')
  then have "conn_ok is_done (chan_buf (connChan (sv_accept w))) (dropped (sv_accept w)) i ((sv_conns w ! i)\<lparr>so_conn := c'\<rparr>)"
    using serving_inv_conn [OF transfers(4,1)] by (auto simp: conn_ok_def)
  then show ?case using serving_inv_update [OF transfers(4,1), of _ False] by simp
next
  case (drains w w')
  then show ?case using drain_inv_step by blast
qed

lemma serving_reachable:
  "(serving_step close is_done)\<^sup>*\<^sup>* w w' \<Longrightarrow> serving_inv is_done n w \<Longrightarrow> serving_inv is_done n w'"
  by (induction rule: rtranclp_induct) (auto intro: serving_inv_step)

end

section \<open>How much there is left to do\<close>

text \<open>The relay of a connection that waits in the queue is still to be started.\<close>

definition conn_left :: "nat list \<Rightarrow> nat \<Rightarrow> 'c served \<Rightarrow> nat" where
  "conn_left buf i x =
     (if so_handler x = Waits then 1 else 0) +
     (case so_relay x of None \<Rightarrow> if i \<in> set buf then 7 else 0 | Some r \<Rightarrow> relay_left r)"

definition serving_left :: "'c serving \<Rightarrow> nat" where
  "serving_left w = (\<Sum>i < length (sv_conns w). conn_left (chan_buf (connChan (sv_accept w))) i (sv_conns w ! i))"



text \<open>A step that changes one connection and leaves the queue, or shortens it.\<close>

lemma serving_left_update:
  assumes "i < length (sv_conns w)" "sv_conns w' = (sv_conns w)[i := x]"
    and "set (chan_buf (connChan (sv_accept w'))) \<subseteq> set (chan_buf (connChan (sv_accept w)))"
    and "conn_left (chan_buf (connChan (sv_accept w'))) i x < conn_left (chan_buf (connChan (sv_accept w))) i (sv_conns w ! i)"
  shows "serving_left w' < serving_left w"
proof -
  have "conn_left (chan_buf (connChan (sv_accept w'))) j (sv_conns w' ! j)
      \<le> conn_left (chan_buf (connChan (sv_accept w))) j (sv_conns w ! j)" if "j < length (sv_conns w)" for j
    using that assms by (cases "j = i") (auto simp: conn_left_def split: option.splits)
  moreover have "conn_left (chan_buf (connChan (sv_accept w'))) i (sv_conns w' ! i)
      < conn_left (chan_buf (connChan (sv_accept w))) i (sv_conns w ! i)" using assms by simp
  moreover have "length (sv_conns w') = length (sv_conns w)" using assms(2) by simp
  ultimately show ?thesis
    unfolding serving_left_def using assms(1) by (auto intro!: sum_strict_mono_ex1)
qed

context closable_conn begin

lemma drain_step_left: "drain_step close is_done w w' \<Longrightarrow> serving_inv is_done n w \<Longrightarrow> serving_left w' < serving_left w"
proof (induction rule: drain_step.induct)
  case (takes w i q)
  have b: "chan_buf (connChan (sv_accept w)) = i # chan_buf q"
    using takes(1) by (auto simp: AcceptConn_def dest!: chan_recv_Some split: option.splits)
  have "so_relay (sv_conns w ! i) = None"
    using serving_inv_conn [OF takes(3,2)] b by (auto simp: conn_ok_def split: option.splits)
  then show ?case using takes(2) b
    by (intro serving_left_update [of i]) (auto simp: conn_left_def relay_left_def relay_start_def)
next
  case (relays i w r r' panic c')
  have "relay_inv r" using serving_inv_conn [OF relays(5,1)] relays(2) by (simp add: conn_ok_def)
  with relays show ?case
    by (intro serving_left_update [of i]) (auto simp: conn_left_def relay_step_left)
next
  case (returns i w)
  then show ?case by (intro serving_left_update [of i]) (auto simp: conn_left_def)
qed

lemma drain_run:
  assumes "(drain_step close is_done ^^ k) w w'" "serving_inv is_done n w"
  shows "serving_inv is_done n w' \<and> k + serving_left w' \<le> serving_left w \<and> length (sv_conns w') = length (sv_conns w)"
  using assms(1)
proof (induction k arbitrary: w')
  case 0
  then show ?case using assms(2) by simp
next
  case (Suc k)
  from Suc.prems obtain v where v: "(drain_step close is_done ^^ k) w v" "drain_step close is_done v w'" by auto
  have "length (sv_conns w') = length (sv_conns v)" using v(2) by (cases rule: drain_step.cases) simp_all
  then show ?case using Suc.IH [OF v(1)] drain_inv_step [OF v(2)] drain_step_left [OF v(2)] by fastforce
qed

text \<open>When no goroutine can go on, every connection is done and every handler has returned.\<close>

lemma drained:
  assumes inv: "serving_inv is_done n w" and stuck: "\<And>w'. \<not> drain_step close is_done w w'"
  shows "chan_buf (connChan (sv_accept w)) = []"
    and "i < length (sv_conns w) \<Longrightarrow> is_done (so_conn (sv_conns w ! i)) \<and> so_handler (sv_conns w ! i) = Returns"
proof -
  show empty: "chan_buf (connChan (sv_accept w)) = []"
  proof (cases "chan_buf (connChan (sv_accept w))")
    case (Cons j js)
    have "AcceptConn (connChan (sv_accept w)) = Some (Inr j, (connChan (sv_accept w))\<lparr>chan_buf := js\<rparr>)"
      using Cons by (simp add: AcceptConn_def chan_recv_def)
    moreover have "j < length (sv_conns w)" using inv Cons by (simp add: serving_inv_def)
    ultimately show ?thesis using stuck drain_step.takes [where is_done = is_done and close = close] by blast
  qed
  show "is_done (so_conn (sv_conns w ! i)) \<and> so_handler (sv_conns w ! i) = Returns" if i: "i < length (sv_conns w)"
  proof -
    note ok = serving_inv_conn [OF inv i]
    have "is_done (so_conn (sv_conns w ! i))"
    proof (cases "so_relay (sv_conns w ! i)")
      case None
      then show ?thesis using ok empty by (simp add: conn_ok_def split: if_splits)
    next
      case (Some r)
      have "\<not> relay_step r r'" for r'
      proof
        assume step: "relay_step r r'"
        obtain panic c' where c: "close_if close (r_inClosed r < r_inClosed r') (so_conn (sv_conns w ! i)) = (panic, c')"
          by fastforce
        show False using stuck drain_step.relays [OF i Some step c, of is_done] by blast
      qed
      then have "r_phase r = Finished" using relay_stuck_finished ok Some by (simp add: conn_ok_def)
      then show ?thesis using ok Some by (simp add: conn_ok_def)
    qed
    moreover have "so_handler (sv_conns w ! i) \<noteq> Waits"
      using stuck calculation i drain_step.returns [where is_done = is_done and close = close] by blast
    ultimately show ?thesis by (cases "so_handler (sv_conns w ! i)") simp_all
  qed
qed

end

abbreviation gun_serving :: "GunConnection serving \<Rightarrow> GunConnection serving \<Rightarrow> bool" where
  "gun_serving \<equiv> serving_step gun_Close (\<lambda>c. gun_Done c \<noteq> None)"



section \<open>An example\<close>

text \<open>A queue of one connection: the first one is taken and its dial fails, the second one waits, the third is refused.\<close>

definition serving_example :: "'c \<Rightarrow> 'c \<Rightarrow> 'c serving" where
  "serving_example c c' =
     \<lparr>sv_accept = \<lparr>connChan = \<lparr>chan_buf = [1], chan_cap = 1\<rparr>, sent = [0, 1], dropped = [2]\<rparr>,
      sv_conns =
        [\<lparr>so_conn = c', so_handler = Returns, so_relay = Some (relay_start\<lparr>r_phase := Finished, r_inClosed := 1\<rparr>)\<rparr>,
         \<lparr>so_conn = c, so_handler = Waits, so_relay = None\<rparr>,
         \<lparr>so_conn = c', so_handler = Returns, so_relay = None\<rparr>],
      sv_panicked = False\<rparr>"

lemma serving_example_reached:
  assumes "\<not> is_done c" "close c = Inr c'" "is_done c'"
  shows "(serving_step close is_done)\<^sup>*\<^sup>* (serving_start 1) (serving_example c c')"
proof -
  let ?W = "\<lambda>buf snt drp cs. \<lparr>sv_accept = \<lparr>connChan = \<lparr>chan_buf = buf, chan_cap = 1\<rparr>, sent = snt, dropped = drp\<rparr>,
              sv_conns = cs, sv_panicked = False\<rparr>"
  let ?x = "\<lambda>c h r. \<lparr>so_conn = c, so_handler = h, so_relay = r\<rparr>"
  let ?fin = "relay_start\<lparr>r_phase := Finished, r_inClosed := 1\<rparr>"
  let ?w0 = "?W [] [] [] []"
  let ?w1 = "?W [0] [0] [] [?x c Waits None]"
  let ?w2 = "?W [] [0] [] [?x c Waits (Some relay_start)]"
  let ?w3 = "?W [] [0] [] [?x c' Waits (Some ?fin)]"
  let ?w4 = "?W [] [0] [] [?x c' Returns (Some ?fin)]"
  let ?w5 = "?W [1] [0, 1] [] [?x c' Returns (Some ?fin), ?x c Waits None]"
  note offer = serving_step.offers [where close = close and is_done = is_done]
    and step = drain_step.intros [THEN serving_step.drains, where close = close and is_done = is_done]
  note eval = hand_over_def deliver_def chan_try_send_def close_if_def assms(2) AcceptConn_def chan_recv_def
  have s1: "serving_step close is_done ?w0 ?w1" using offer [OF assms(1), of ?w0 Waits _ False c] by (simp add: eval)
  have s2: "serving_step close is_done ?w1 ?w2" using step(1) [of ?w1 0] by (simp add: eval)
  have s3: "serving_step close is_done ?w2 ?w3"
    using step(2) [of 0 ?w2 relay_start ?fin False c'] relay_step.dial_fails [of relay_start]
    by (simp add: eval relay_start_def)
  have s4: "serving_step close is_done ?w3 ?w4" using step(3) [of 0 ?w3] assms(3) by simp
  have s5: "serving_step close is_done ?w4 ?w5" using offer [OF assms(1), of ?w4 Waits _ False c] by (simp add: eval)
  have s6: "serving_step close is_done ?w5 (serving_example c c')"
    using offer [OF assms(1), of ?w5 Returns _ False c'] by (simp add: eval serving_example_def numeral_2_eq_2)
  have s0: "serving_start 1 = ?w0" by (simp add: serving_start_def start_accepting_def make_chan_def)
  note more = converse_rtranclp_into_rtranclp [where r = "serving_step close is_done"]
  show ?thesis unfolding s0
    by (rule more [OF s1], rule more [OF s2], rule more [OF s3], rule more [OF s4], rule more [OF s5],
        rule r_into_rtranclp [where r = "serving_step close is_done", OF s6])
qed

definition gun_fresh :: GunConnection where
  "gun_fresh = NewGunConnection [] None None"

lemma gun_example_reached:
  "gun_serving\<^sup>*\<^sup>* (serving_start 1) (serving_example gun_fresh (gun_fresh\<lparr>gun_done := True\<rparr>))"
  by (rule serving_example_reached) (simp_all add: gun_fresh_def NewGunConnection_def gun_Done_def gun_Close_def)



section \<open>Properties\<close>

text \<open>
  C16: A server never closes a connection twice. In every reachable state of a gRPC server with any number of
  connections none of its goroutines has panicked; a connection waits in the queue exactly if it was neither
  refused nor taken; it is done exactly if it was refused or its relay has finished; and its handler, whose
  return ends the stream, has not returned before.
\<close>

theorem gun_handlers:
  assumes "gun_serving\<^sup>*\<^sup>* (serving_start n) w"
  shows "\<not> sv_panicked w \<and>
    (\<forall>i < length (sv_conns w).
       let x = sv_conns w ! i; a = sv_accept w in
       (i \<in> set (chan_buf (connChan a)) \<longleftrightarrow> i \<notin> set (dropped a) \<and> so_relay x = None) \<and>
       (gun_Done (so_conn x) \<noteq> None \<longleftrightarrow> i \<in> set (dropped a) \<or> (\<exists>r. so_relay x = Some r \<and> r_phase r = Finished)) \<and>
       (so_handler x = Returns \<longrightarrow> gun_Done (so_conn x) \<noteq> None))"
proof -
  have "serving_inv (\<lambda>c. gun_Done c \<noteq> None) n w"
    using gun_closable.serving_reachable [OF assms serving_inv_start] .
  then show ?thesis by (auto simp: serving_inv_def conn_ok_def Let_def split: option.splits if_splits)
qed

text \<open>The first connection of the example is done, the second one waits.\<close>

theorem gun_handlers_witness:
  "\<not> sv_panicked (serving_example gun_fresh (gun_fresh\<lparr>gun_done := True\<rparr>)) \<and>
   gun_Done (gun_fresh\<lparr>gun_done := True\<rparr>) \<noteq> None \<and> gun_Done gun_fresh = None"
  using gun_handlers [OF gun_example_reached]
  by (simp add: serving_example_def gun_fresh_def NewGunConnection_def gun_Done_def)






end
