(* ===== verification/MuxTunnel.thy ===== *)
theory MuxTunnel
  imports StreamTunnel MuxPool Serving
begin

text \<open>
  The multiplexing modes as a whole, mtls, mws and mwss: all connections of a client and a server over any
  number of smux sessions. The client dials through its pool (src/mux/mux.go) and relays each connection to a
  stream; the server accepts the streams of its sessions into the queue (\<open>ServeMux\<close>, src/gost/proxy/tcp.go)
  and starts a relay for each stream it takes from there (src/handler.go).
\<close>

section \<open>State and steps\<close>

text \<open>
  Connections are numbered in the order of the dials that succeeded. \<open>mw_ends\<close> records the application and
  the target of each as they were; \<open>mw_pending\<close> are those whose stream the server has not accepted yet,
  \<open>mw_served\<close> those taken from the queue.
\<close>

record ('c, 'k) mux_world =
  mw_pool :: "('c, 'k) pool_state"
  mw_tunnels :: "stream_conn tunnel list"
  mw_ends :: "(tcp_conn \<times> tcp_conn) list"
  mw_pending :: "nat list"
  mw_accept :: "nat accept_state"
  mw_served :: "nat list"

definition mux_world_start :: "Options \<Rightarrow> nat \<Rightarrow> ('c, 'k) mux_world" where
  "mux_world_start options n =
     \<lparr>mw_pool = (NewMuxPool options, []), mw_tunnels = [], mw_ends = [], mw_pending = [],
      mw_accept = start_accepting (make_chan n), mw_served = []\<rparr>"

text \<open>
  A dial that gives a stream starts a tunnel on it; the other steps of the pool are its own. A session
  of the server accepts one of its streams, in any order among the sessions. A step of a tunnel moves
  the relay of the server only if the stream has been taken from the queue.

  Every stream has its own way through the network, which takes any number of bytes. A session of smux, which
  the code uses in version 1, has one receive buffer for all its streams, so a stream that nobody reads
  can hold up the others. The runs of the program are among those of \<open>mux_step\<close>, which says nothing about when
  bytes move: what holds in every reachable state holds of the program, and nothing is claimed here
  about what a connection achieves while others stand still.
\<close>

inductive mux_step :: "('c, 'k, stream_end) smux \<Rightarrow> ('c, 'k) mux_world \<Rightarrow> ('c, 'k) mux_world \<Rightarrow> bool"
  for ops where
  dials: "ranges_over (fst (mw_pool w)) order \<Longrightarrow>
     DialMux ops newConn i now order (mw_pool w) = (Inr s, st) \<Longrightarrow>
     mux_step ops w
       (w\<lparr>mw_pool := st,
          mw_tunnels := mw_tunnels w @
            [tunnel_start application app_script \<lparr>sc_conn = s, sc_script = cs\<rparr>
               \<lparr>sc_conn = stream_fresh ssz, sc_script = ss\<rparr> target target_script],
          mw_ends := mw_ends w @ [(application, target)],
          mw_pending := mw_pending w @ [length (mw_tunnels w)]\<rparr>)"
| pools: "pool_step ops (mw_pool w) st \<Longrightarrow> mux_step ops w (w\<lparr>mw_pool := st\<rparr>)"
| accepts: "i \<in> set (mw_pending w) \<Longrightarrow>
     mux_step ops w
       (w\<lparr>mw_pending := remove1 i (mw_pending w),
          mw_accept := mux_state (serve_streams [Accepted i] (mw_accept w))\<rparr>)"
| takes: "AcceptConn (connChan (mw_accept w)) = Some (Inr i, q) \<Longrightarrow>
     mux_step ops w (w\<lparr>mw_accept := (mw_accept w)\<lparr>connChan := q\<rparr>, mw_served := mw_served w @ [i]\<rparr>)"
| moves: "i < length (mw_tunnels w) \<Longrightarrow> stream_step (mw_tunnels w ! i) t \<Longrightarrow>
     i \<in> set (mw_served w) \<or> d_relay (server_side t) = d_relay (server_side (mw_tunnels w ! i)) \<Longrightarrow>
     mux_step ops w (w\<lparr>mw_tunnels := (mw_tunnels w)[i := t]\<rparr>)"

inductive_cases mux_stepE: "mux_step ops w w'"

text \<open>What the tunnels rely on of smux: a stream that is opened is a new one.\<close>

definition stream_laws :: "('c, 'k, stream_end) smux \<Rightarrow> bool" where
  "stream_laws ops \<longleftrightarrow>
     (\<forall>c s c'. smux_OpenStream ops c = (Inr s, c') \<longrightarrow> s = stream_fresh (se_sizes s))"

section \<open>The streams of the pool\<close>

lemma openNewStream_opened:
  "openNewStream ops now sess st = (Inr s, st') \<Longrightarrow> \<exists>c c'. smux_OpenStream ops c = (Inr s, c')"
  by (auto simp: openNewStream_def Let_def split: prod.splits sum.splits)

lemma dial_scan_opened:
  "dial_scan ops now order st = (Some (Inr s), st') \<Longrightarrow> \<exists>c c'. smux_OpenStream ops c = (Inr s, c')"
proof (induction ops now order st rule: dial_scan.induct)
  case (2 ops now i order p eff)
  then show ?case
    by (cases "openNewStream ops now (the (sessions p i)) (p, eff)")
      (auto split: option.splits if_splits intro: openNewStream_opened)
qed simp

lemma DialMux_opened:
  assumes "DialMux ops newConn i now order st = (Inr s, st')"
  shows "\<exists>c c'. smux_OpenStream ops c = (Inr s, c')"
proof -
  obtain r st1 where scan: "dial_scan ops now order st = (r, st1)" by (cases "dial_scan ops now order st")
  show ?thesis
  proof (cases r)
    case (Some x)
    then show ?thesis using assms scan dial_scan_opened by (fastforce simp: DialMux_def)
  next
    case None
    then show ?thesis using assms scan
      by (auto simp: DialMux_def dial_new_def Let_def split: sum.splits intro: openNewStream_opened)
  qed
qed

lemma DialMux_stream:
  "stream_laws ops \<Longrightarrow> DialMux ops newConn i now order st = (Inr s, st') \<Longrightarrow> s = stream_fresh (se_sizes s)"
  unfolding stream_laws_def by (drule DialMux_opened) metis

section \<open>A server that has not taken the stream\<close>

definition untouched :: "tcp_conn \<Rightarrow> stream_conn tunnel \<Rightarrow> bool" where
  "untouched target t \<longleftrightarrow>
     d_relay (server_side t) = relay_start \<and> sc_conn (d_out (server_side t)) = target"

lemma untouched_start: "untouched target (tunnel_start application app_script c s target target_script)"
  by (simp add: untouched_def tunnel_start_def duplex_start_def)

text \<open>As long as its relay is where it started, the server's side of the tunnel has not run.\<close>

lemma relay_start_moves: "\<not> relay_step relay_start relay_start"
  using relay_step_left [OF _ relay_inv_start] by blast

lemma relay_start_copiers: "r_toInbound relay_start = NotStarted" "r_toOutbound relay_start = NotStarted"
  by (simp_all add: relay_start_def)

lemma untouched_step:
  assumes "stream_step t u" "untouched target t" "d_relay (server_side u) = d_relay (server_side t)"
  shows "untouched target u"
  using assms
proof (induction rule: tunnel_step.induct)
  case (server t s)
  then have False
    using relay_start_moves by (auto simp: untouched_def relay_start_copiers elim!: duplex_stepE)
  then show ?case ..
qed (simp_all add: untouched_def)

section \<open>What every step preserves\<close>

text \<open>
  The connections that were accepted, in the order of the queue; what the pool did; and for each connection
  what holds of its tunnel.
\<close>

definition accounts :: "nat \<Rightarrow> nat list \<Rightarrow> nat list \<Rightarrow> nat accept_state \<Rightarrow> nat \<Rightarrow> bool" where
  "accounts num pending served a n \<longleftrightarrow>
     mset (pending @ chan_buf (connChan a) @ dropped a @ served) = mset [0..<num] \<and>
     sent a = served @ chan_buf (connChan a) \<and>
     length (chan_buf (connChan a)) \<le> n \<and> chan_cap (connChan a) = n"

definition tunnel_ok :: "bool \<Rightarrow> tcp_conn \<times> tcp_conn \<Rightarrow> stream_conn tunnel \<Rightarrow> bool" where
  "tunnel_ok served ends t \<longleftrightarrow>
     stream_transport.tunnel_inv (tcp_remaining (fst ends)) [] (tcp_out (snd ends))
       (tcp_remaining (snd ends)) [] (tcp_out (fst ends)) t \<and>
     (served \<or> untouched (snd ends) t)"

definition mux_inv :: "('c, 'k, stream_end) smux \<Rightarrow> Options \<Rightarrow> nat \<Rightarrow> ('c, 'k) mux_world \<Rightarrow> bool" where
  "mux_inv ops options n w \<longleftrightarrow>
     (pool_step ops)\<^sup>*\<^sup>* (NewMuxPool options, []) (mw_pool w) \<and>
     accounts (length (mw_tunnels w)) (mw_pending w) (mw_served w) (mw_accept w) n \<and>
     length (mw_ends w) = length (mw_tunnels w) \<and>
     (\<forall>i < length (mw_tunnels w). tunnel_ok (i \<in> set (mw_served w)) (mw_ends w ! i) (mw_tunnels w ! i))"

lemma accounts_dial: "accounts num pending served a n \<Longrightarrow> accounts (Suc num) (pending @ [num]) served a n"
  by (simp add: accounts_def)

lemma accounts_accept:
  "accounts num pending served a n \<Longrightarrow> i \<in> set pending \<Longrightarrow>
     accounts num (remove1 i pending) served (mux_state (serve_streams [Accepted i] a)) n"
  by (auto simp: accounts_def deliver_def chan_try_send_def)

lemma accounts_take:
  "accounts num pending served a n \<Longrightarrow> AcceptConn (connChan a) = Some (Inr i, q) \<Longrightarrow>
     accounts num pending (served @ [i]) (a\<lparr>connChan := q\<rparr>) n"
  by (auto simp: accounts_def AcceptConn_def dest!: chan_recv_Some split: option.splits)

lemma tunnel_ok_start:
  assumes "s = stream_fresh (se_sizes s)"
  shows "tunnel_ok False (application, target)
    (tunnel_start application app_script \<lparr>sc_conn = s, sc_script = cs\<rparr>
       \<lparr>sc_conn = stream_fresh ssz, sc_script = ss\<rparr> target target_script)"
proof -
  have "se_rb s = []" "se_out s = []" using arg_cong [OF assms, of se_rb] arg_cong [OF assms, of se_out]
    by (simp_all add: stream_fresh_def)
  then show ?thesis
    using stream_transport.tunnel_inv_start [of "\<lparr>sc_conn = s, sc_script = cs\<rparr>" "\<lparr>sc_conn = stream_fresh ssz, sc_script = ss\<rparr>"
        application target app_script target_script]
    by (simp add: tunnel_ok_def untouched_start stream_bytes_def stream_fresh_def)
qed

lemma tunnel_ok_step:
  "tunnel_ok served ends t \<Longrightarrow> stream_step t u \<Longrightarrow> served \<or> d_relay (server_side u) = d_relay (server_side t) \<Longrightarrow>
     tunnel_ok served ends u"
  unfolding tunnel_ok_def using stream_transport.tunnel_inv_step untouched_step by blast

lemma tunnel_ok_served: "tunnel_ok served ends t \<Longrightarrow> (served \<Longrightarrow> served') \<Longrightarrow> tunnel_ok served' ends t"
  by (auto simp: tunnel_ok_def)

lemma tunnel_ok_faithful:
  assumes "tunnel_ok served ends t"
  shows "prefix (target_received t) (tcp_out (snd ends) @ tcp_remaining (fst ends))"
    "prefix (app_received t) (tcp_out (fst ends) @ tcp_remaining (snd ends))"
    "\<not> served \<Longrightarrow> target_received t = tcp_out (snd ends)"
    "quiet_up (\<lambda>s. se_rb (sc_conn s)) (\<lambda>s. stream_bytes (sc_conn s)) t \<Longrightarrow>
       target_received t = tcp_out (snd ends) @ tcp_remaining (fst ends)"
    "quiet_down (\<lambda>s. se_rb (sc_conn s)) (\<lambda>s. stream_bytes (sc_conn s)) t \<Longrightarrow>
       app_received t = tcp_out (fst ends) @ tcp_remaining (snd ends)"
proof -
  have inv: "stream_transport.tunnel_inv (tcp_remaining (fst ends)) [] (tcp_out (snd ends))
      (tcp_remaining (snd ends)) [] (tcp_out (fst ends)) t"
    and new: "served \<or> untouched (snd ends) t"
    using assms by (simp_all add: tunnel_ok_def)
  note f = stream_transport.tunnel_faithful [OF inv, simplified]
  show "prefix (target_received t) (tcp_out (snd ends) @ tcp_remaining (fst ends))"
    "prefix (app_received t) (tcp_out (fst ends) @ tcp_remaining (snd ends))"
    "quiet_up (\<lambda>s. se_rb (sc_conn s)) (\<lambda>s. stream_bytes (sc_conn s)) t \<Longrightarrow>
       target_received t = tcp_out (snd ends) @ tcp_remaining (fst ends)"
    "quiet_down (\<lambda>s. se_rb (sc_conn s)) (\<lambda>s. stream_bytes (sc_conn s)) t \<Longrightarrow>
       app_received t = tcp_out (fst ends) @ tcp_remaining (snd ends)"
    by (rule f; assumption?)+
  show "\<not> served \<Longrightarrow> target_received t = tcp_out (snd ends)"
    using new by (simp add: untouched_def target_received_def)
qed

lemma mux_inv_start: "mux_inv ops options n (mux_world_start options n)"
  by (simp add: mux_inv_def mux_world_start_def accounts_def start_accepting_def make_chan_def)

lemma mux_inv_step:
  assumes laws: "stream_laws ops" and step: "mux_step ops w w'" and inv: "mux_inv ops options n w"
  shows "mux_inv ops options n w'"
  using step
proof (cases rule: mux_step.cases)
  case (dials order newConn i now s st application target app_script cs ssz ss target_script)
  have "pool_step ops (mw_pool w) st"
    using pool_step.dial [OF dials(2), of ops newConn i now] dials(3) by simp
  moreover have "tunnel_ok False (application, target)
      (tunnel_start application app_script \<lparr>sc_conn = s, sc_script = cs\<rparr>
         \<lparr>sc_conn = stream_fresh ssz, sc_script = ss\<rparr> target target_script)"
    by (rule tunnel_ok_start [OF DialMux_stream [OF laws dials(3)]])
  ultimately show ?thesis using inv
    by (auto simp: mux_inv_def dials(1) accounts_dial nth_append less_Suc_eq
        intro: rtranclp.rtrancl_into_rtrancl [where r = "pool_step ops"] tunnel_ok_served)
next
  case (pools st)
  then show ?thesis using inv
    by (auto simp: mux_inv_def intro: rtranclp.rtrancl_into_rtrancl [where r = "pool_step ops"])
next
  case (accepts i)
  then show ?thesis using inv accounts_accept by (simp add: mux_inv_def del: serve_streams.simps)
next
  case (takes i q)
  then show ?thesis using inv by (auto simp: mux_inv_def intro: tunnel_ok_served accounts_take)
next
  case (moves i t)
  then show ?thesis using inv tunnel_ok_step
    by (simp add: mux_inv_def nth_list_update) blast
qed

interpretation muxed: step_invariant "mux_step ops" "\<lambda>w. stream_laws ops \<longrightarrow> mux_inv ops options n w"
  for ops :: "('c, 'k, stream_end) smux" and options n
  by unfold_locales (auto intro: mux_inv_step)

section \<open>Properties\<close>

text \<open>
  C5: The multiplexing modes are transparent for all connections at once. In every reachable state, for any
  number of connections over any number of sessions, no session has more streams than the option allows;
  every stream that was opened waits at the server, is in the queue, was refused or was taken, once, and
  those taken came in the order of the sends, and the queue keeps its capacity; and on each connection, however the others behave and
  whatever fails, each end has received a prefix of what the other sends, the target of a
  connection that was not taken nothing, and everything once nothing failed and nothing is left to move.
\<close>

theorem mux_tunnels:
  assumes "smux_laws ops" "stream_laws ops" "0 < Mux options" "Mux options < 2 ^ 63"
    and "(mux_step ops)\<^sup>*\<^sup>* (mux_world_start options n) w"
  shows "(\<forall>j sess. sessions (fst (mw_pool w)) j = Some sess \<longrightarrow>
       smux_NumStreams ops (client sess) \<le> unat (Mux options)) \<and>
    mset (mw_pending w @ chan_buf (connChan (mw_accept w)) @ dropped (mw_accept w) @ mw_served w) =
      mset [0..<length (mw_tunnels w)] \<and>
    sent (mw_accept w) = mw_served w @ chan_buf (connChan (mw_accept w)) \<and>
    length (chan_buf (connChan (mw_accept w))) \<le> n \<and>
    (\<forall>i < length (mw_tunnels w).
       let t = mw_tunnels w ! i; (application, target) = mw_ends w ! i in
       prefix (target_received t) (tcp_out target @ tcp_remaining application) \<and>
       prefix (app_received t) (tcp_out application @ tcp_remaining target) \<and>
       (i \<notin> set (mw_served w) \<longrightarrow> target_received t = tcp_out target) \<and>
       (quiet_up (\<lambda>s. se_rb (sc_conn s)) (\<lambda>s. stream_bytes (sc_conn s)) t \<longrightarrow>
          target_received t = tcp_out target @ tcp_remaining application) \<and>
       (quiet_down (\<lambda>s. se_rb (sc_conn s)) (\<lambda>s. stream_bytes (sc_conn s)) t \<longrightarrow>
          app_received t = tcp_out application @ tcp_remaining target))"
proof -
  have inv: "mux_inv ops options n w" using muxed.reachable [OF assms(5)] mux_inv_start assms(2) by blast
  then have pool: "(pool_step ops)\<^sup>*\<^sup>* (NewMuxPool options, []) (fst (mw_pool w), snd (mw_pool w))"
    by (simp add: mux_inv_def)
  have limit: "smux_NumStreams ops (client sess) \<le> unat (Mux options)" if "sessions (fst (mw_pool w)) j = Some sess" for j sess
    using pool_within_limit [OF assms(1,3,4) pool that] .
  have ok: "tunnel_ok (i \<in> set (mw_served w)) (mw_ends w ! i) (mw_tunnels w ! i)" if "i < length (mw_tunnels w)" for i
    using inv that by (simp add: mux_inv_def)
  show ?thesis
    using limit inv tunnel_ok_faithful [OF ok]
    by (simp add: mux_inv_def accounts_def Let_def case_prod_unfold del: mset_upt)
qed

section \<open>A run\<close>

text \<open>A small instance of the library whose streams are new, as in the module of the pool.\<close>

definition stream_smux :: "(nat \<times> bool, nat, stream_end) smux" where
  "stream_smux =
     \<lparr>smux_IsClosed = snd, smux_NumStreams = fst,
      smux_OpenStream = (\<lambda>(n, b). if b then (Inl (ExtErr ''io: closed''), (n, b)) else (Inr (stream_fresh []), (Suc n, b))),
      smux_Close = (\<lambda>(n, b). (0, True)),
      smux_Client = (\<lambda>k. Inr (0, False))\<rparr>"

lemma stream_smux_laws: "smux_laws stream_smux" "stream_laws stream_smux"
  by (auto simp: smux_laws_def stream_laws_def stream_smux_def stream_fresh_def split: if_splits)

lemma tunnel_runs:
  assumes "stream_step\<^sup>*\<^sup>* (mw_tunnels w ! i) t" "i < length (mw_tunnels w)" "i \<in> set (mw_served w)"
  shows "(mux_step ops)\<^sup>*\<^sup>* w (w\<lparr>mw_tunnels := (mw_tunnels w)[i := t]\<rparr>)"
  using assms(1)
proof (induction rule: rtranclp_induct)
  case base
  then show ?case by simp
next
  case (step t u)
  have "mux_step ops (w\<lparr>mw_tunnels := (mw_tunnels w)[i := t]\<rparr>) (w\<lparr>mw_tunnels := (mw_tunnels w)[i := u]\<rparr>)"
    using mux_step.moves [of i "w\<lparr>mw_tunnels := (mw_tunnels w)[i := t]\<rparr>" u ops] step(2) assms(2,3) by simp
  with step(3) show ?case by (rule rtranclp.rtrancl_into_rtrancl)
qed

definition fresh_conn :: stream_conn where
  "fresh_conn = \<lparr>sc_conn = stream_fresh [], sc_script = []\<rparr>"

definition mux_served :: "stream_conn tunnel \<Rightarrow> (nat \<times> bool, nat) mux_world" where
  "mux_served t =
     \<lparr>mw_pool = snd (DialMux stream_smux (Inr 14) 7 100 [] (NewMuxPool (flag_defaults\<lparr>Mux := 2\<rparr>), [])),
      mw_tunnels = [t], mw_ends = [(idle_tcp [''a''], idle_tcp [])], mw_pending = [],
      mw_accept = \<lparr>connChan = \<lparr>chan_buf = [], chan_cap = 1\<rparr>, sent = [0], dropped = []\<rparr>, mw_served = [0]\<rparr>"

text \<open>A dial on a new session; the server accepts its stream and takes it from the queue.\<close>

lemma mux_served_run:
  "(mux_step stream_smux)\<^sup>*\<^sup>* (mux_world_start (flag_defaults\<lparr>Mux := 2\<rparr>) 1)
     (mux_served (tunnel_start (idle_tcp [''a'']) [] fresh_conn fresh_conn (idle_tcp []) []))"
proof -
  let ?o = "flag_defaults\<lparr>Mux := 2\<rparr>" and ?t = "tunnel_start (idle_tcp [''a'']) [] fresh_conn fresh_conn (idle_tcp []) []"
  let ?dialed = "(mux_served ?t)\<lparr>mw_pending := [0], mw_accept := start_accepting (make_chan 1), mw_served := []\<rparr>"
  let ?queued = "(mux_served ?t)\<lparr>mw_accept := \<lparr>connChan = \<lparr>chan_buf = [0], chan_cap = 1\<rparr>, sent = [0], dropped = []\<rparr>, mw_served := []\<rparr>"
  have "fst (DialMux stream_smux (Inr 14) 7 100 [] (NewMuxPool ?o, [])) = Inr (stream_fresh [])"
    by (simp add: DialMux_def dial_new_def openNewStream_def stream_smux_def)
  then have "DialMux stream_smux (Inr 14) 7 100 [] (NewMuxPool ?o, []) = (Inr (stream_fresh []), mw_pool (mux_served ?t))"
    by (simp add: mux_served_def prod_eq_iff)
  moreover have "ranges_over (fst (NewMuxPool ?o, [])) []" by (simp add: ranges_over_def NewMuxPool_def)
  ultimately have 1: "mux_step stream_smux (mux_world_start ?o 1) ?dialed"
    using mux_step.dials [of "mux_world_start ?o 1" "[]" stream_smux "Inr 14" 7 100 "stream_fresh []" "mw_pool (mux_served ?t)"
        "idle_tcp [''a'']" "idle_tcp []" "[]" "[]" "[]" "[]" "[]"]
    by (simp add: mux_world_start_def mux_served_def fresh_conn_def)
  have 2: "mux_step stream_smux ?dialed ?queued"
    using mux_step.accepts [of 0 ?dialed stream_smux]
    by (simp add: mux_served_def start_accepting_def make_chan_def deliver_def chan_try_send_def)
  have 3: "mux_step stream_smux ?queued (mux_served ?t)"
    using mux_step.takes [of ?queued 0 "\<lparr>chan_buf = [], chan_cap = 1\<rparr>" stream_smux]
    by (simp add: mux_served_def AcceptConn_def chan_recv_def)
  note more = converse_rtranclp_into_rtranclp [where r = "mux_step stream_smux"]
  show ?thesis by (rule more [OF 1], rule more [OF 2], rule r_into_rtranclp [where r = "mux_step stream_smux", OF 3])
qed

text \<open>Then a message of the application goes to the target.\<close>

lemma stream_run:
  "\<exists>t. stream_step\<^sup>*\<^sup>* (tunnel_start (idle_tcp [''a'']) [] fresh_conn fresh_conn (idle_tcp []) []) t \<and>
     quiet_up (\<lambda>s. se_rb (sc_conn s)) (\<lambda>s. stream_bytes (sc_conn s)) t"
proof -
  let ?c' = "on_conn (\<lambda>s. s\<lparr>se_out := ''a''\<rparr>) fresh_conn"
  have "stream_step\<^sup>*\<^sup>* (tunnel_start (idle_tcp [''a'']) [] fresh_conn fresh_conn (idle_tcp []) [])
      (up_state dialed (idle_tcp []) ?c' dialed fresh_conn ((idle_tcp [])\<lparr>tcp_out := ''a''\<rparr>) 1)"
    by (rule one_message_run)
      (simp_all add: fresh_conn_def scripted_Read_def scripted_Write_def stream_Read_def stream_Write_def
        read_size_def stream_arrive_def stream_fresh_def on_conn_def stream_bytes_def)
  moreover have "quiet_up (\<lambda>s. se_rb (sc_conn s)) (\<lambda>s. stream_bytes (sc_conn s))
      (up_state dialed (idle_tcp []) ?c' dialed fresh_conn ((idle_tcp [])\<lparr>tcp_out := ''a''\<rparr>) 1)"
    by (simp add: quiet_up_state stream_bytes_def stream_fresh_def fresh_conn_def)
  ultimately show ?thesis by blast
qed

theorem mux_tunnels_witness:
  "\<exists>w. (mux_step stream_smux)\<^sup>*\<^sup>* (mux_world_start (flag_defaults\<lparr>Mux := 2\<rparr>) 1) w \<and>
     mw_served w = [0] \<and> target_received (mw_tunnels w ! 0) = ''a''"
proof -
  let ?o = "flag_defaults\<lparr>Mux := 2\<rparr>" and ?t = "tunnel_start (idle_tcp [''a'']) [] fresh_conn fresh_conn (idle_tcp []) []"
  obtain t where t: "stream_step\<^sup>*\<^sup>* ?t t" "quiet_up (\<lambda>s. se_rb (sc_conn s)) (\<lambda>s. stream_bytes (sc_conn s)) t"
    using stream_run by blast
  have "(mux_step stream_smux)\<^sup>*\<^sup>* (mux_served ?t) (mux_served t)"
    using tunnel_runs [of "mux_served ?t" 0 t] t(1) by (simp add: mux_served_def)
  with mux_served_run have run: "(mux_step stream_smux)\<^sup>*\<^sup>* (mux_world_start ?o 1) (mux_served t)"
    by (rule rtranclp_trans)
  have "target_received (mw_tunnels (mux_served t) ! 0) = ''a''"
    using mux_tunnels [OF stream_smux_laws _ _ run] t(2) by (simp add: mux_served_def idle_tcp_def tcp_remaining_def)
  with run show ?thesis by (intro exI [of _ "mux_served t"]) (simp add: mux_served_def)
qed

end
