(* ===== verification/EarlyTunnel.thy ===== *)
theory EarlyTunnel
  imports Tunnel WsProxy
begin

text \<open>
  The whole path of a connection in the websocket modes with early data: the client's end is the connection
  of src/gost/proxy/client/ws.go that dials at its first write and sends this write in the header of the
  upgrade request. Until the upgrade there is no connection at the server; the handler of
  src/gost/proxy/server/ws.go makes it from the header, and the relay of src/handler.go is started for it
  when it leaves the queue.
\<close>

section \<open>The client's end\<close>

text \<open>
  The delayed connection and, as a history variable, the request of the dial that succeeded. The answers to
  a write come from a script: what the dial answers, if the write dials, and what the websocket library
  answers to the message. A panic is given as an error.
\<close>

record delayed_end =
  de_conn :: delayDialConn
  de_request :: "ws_request option"

type_synonym delayed_conn = "(delayed_end, go_error option \<times> go_error option) scripted"

definition de_Read :: "delayed_end reader" where
  "de_Read n s =
     (case dd_Read n (de_conn s) of
        None \<Rightarrow> None
      | Some (Inl e, d) \<Rightarrow> Some (([], Some e), s\<lparr>de_conn := d\<rparr>)
      | Some (Inr a, d) \<Rightarrow> Some (a, s\<lparr>de_conn := d\<rparr>))"

definition dial_answer :: "go_error option \<Rightarrow> dialer" where
  "dial_answer a r = (case a of Some err \<Rightarrow> Inl err | None \<Rightarrow> Inr [])"

definition de_Write :: "Options \<Rightarrow> (go_error option \<times> go_error option) option \<Rightarrow> delayed_end writer" where
  "de_Write o1 a b s =
     (let (dial, answer) = (case a of None \<Rightarrow> (None, None) | Some x \<Rightarrow> x);
          d = de_conn s;
          (r, d') = dd_Write (dial_answer dial) o1 answer b d
      in (case r of Inl e \<Rightarrow> (0, Some e) | Inr x \<Rightarrow> x,
          s\<lparr>de_conn := d',
            de_request := (if dd_conn d = None \<and> dd_conn d' \<noteq> None
                           then Some (ws_request o1 (dd_url d) (dd_early d b)) else de_request s)\<rparr>))"

definition de_start :: "bytes \<Rightarrow> uint \<Rightarrow> delayed_end" where
  "de_start url ed = \<lparr>de_conn = newDelayDialConn url ed, de_request = None\<rparr>"

text \<open>What the header carries, and what goes on the connection.\<close>

definition de_header :: "delayed_end \<Rightarrow> bytes" where
  "de_header s = (case de_request s of None \<Rightarrow> [] | Some r \<Rightarrow> fst (early_payload (req_header r)))"

definition de_sent :: "delayed_end \<Rightarrow> bytes list" where
  "de_sent s = (case dd_conn (de_conn s) of None \<Rightarrow> [] | Some c \<Rightarrow> ws_sent c)"

definition de_sunk :: "delayed_end \<Rightarrow> bytes" where
  "de_sunk s = de_header s @ concat (de_sent s)"

definition de_answers :: "delayed_end \<Rightarrow> read_answer list" where
  "de_answers s = (case dd_conn (de_conn s) of None \<Rightarrow> [] | Some c \<Rightarrow> ws_answers c)"

definition de_remaining :: "delayed_end \<Rightarrow> bytes" where
  "de_remaining s = (case dd_conn (de_conn s) of None \<Rightarrow> [] | Some c \<Rightarrow> ws_remaining c)"

definition de_receive :: "read_answer \<Rightarrow> delayed_end \<Rightarrow> delayed_end" where
  "de_receive a s = s\<lparr>de_conn := (de_conn s)\<lparr>dd_conn :=
     map_option (\<lambda>c. c\<lparr>ws_answers := ws_answers c @ [a]\<rparr>) (dd_conn (de_conn s))\<rparr>\<rparr>"

text \<open>
  The states of an end that a relay still copies to and from: it can be read exactly if it has a connection,
  and it is closed only by a failed dial.
\<close>

definition de_good :: "delayed_end \<Rightarrow> bool" where
  "de_good s \<longleftrightarrow>
     (dd_dialed (de_conn s) \<longleftrightarrow> dd_conn (de_conn s) \<noteq> None) \<and> (dd_closed (de_conn s) \<longrightarrow> dd_conn (de_conn s) = None) \<and>
     (de_request s \<noteq> None \<longleftrightarrow> dd_conn (de_conn s) \<noteq> None)"

lemma de_good_start: "de_good (de_start url ed)"
  by (simp add: de_good_def de_start_def newDelayDialConn_def)

lemma de_good_receive: "de_good (de_receive a s) = de_good s"
  by (simp add: de_good_def de_receive_def)

lemma de_Read_good:
  assumes "de_Read n s = Some (a, s')" "de_good s"
  obtains c c' where "dd_conn (de_conn s) = Some c" "ws_Read n c = Some (a, c')"
    "s' = s\<lparr>de_conn := (de_conn s)\<lparr>dd_conn := Some c'\<rparr>\<rparr>"
  using assms by (auto simp: de_Read_def dd_Read_def de_good_def split: option.splits sum.splits if_splits)

lemma de_Read_keeps: "de_Read n s = Some (a, s') \<Longrightarrow> de_good s \<Longrightarrow> de_good s'"
  by (elim de_Read_good) (auto simp: de_good_def)

text \<open>A write fails and leaves the end without a connection, or dials and uses up the data, or sends a message.\<close>

lemma dd_early_header:
  "fst (early_payload (req_header (ws_request o1 url (dd_early d b)))) = (case dd_early d b of None \<Rightarrow> [] | Some e \<Rightarrow> e)"
  by (simp add: early_payload_request)

lemma de_Write_good:
  assumes "de_Write o1 a b s = ((n, e), s')" "de_good s"
  shows "de_good s'" "de_remaining s' = de_remaining s"
    and "if e = None then n = length b \<and> de_sunk s' = de_sunk s @ b else de_sunk s' = de_sunk s"
    and "\<exists>ms. de_sent s' = de_sent s @ ms"
    and "de_request s \<noteq> None \<Longrightarrow> de_request s' = de_request s"
proof -
  obtain dial answer where x: "(case a of None \<Rightarrow> (None, None) | Some x \<Rightarrow> x) = (dial, answer)" by fastforce
  have "de_good s' \<and> de_remaining s' = de_remaining s \<and>
      (if e = None then n = length b \<and> de_sunk s' = de_sunk s @ b else de_sunk s' = de_sunk s) \<and>
      (\<exists>ms. de_sent s' = de_sent s @ ms) \<and> (de_request s \<noteq> None \<longrightarrow> de_request s' = de_request s)"
  proof (cases "dd_conn (de_conn s)")
    case (Some c)
    then show ?thesis using assms x
      by (auto simp: de_Write_def dd_Write_def dd_forward_def ws_Write_def de_good_def de_remaining_def ws_remaining_def
          de_sunk_def de_header_def de_sent_def split: if_splits)
  next
    case None
    then show ?thesis using assms x
      by (cases dial; cases "dd_early (de_conn s) b")
        (auto simp: de_Write_def dd_Write_def dd_forward_def ws_Write_def dd_finish_def streamWebsocketConn_def
          dial_answer_def Let_def NewWebsocketConn_def dd_Close_def de_good_def de_remaining_def ws_remaining_def
          de_sunk_def de_header_def de_sent_def early_payload_request dd_early_def split: if_splits)
  qed
  then show "de_good s'" "de_remaining s' = de_remaining s"
    "if e = None then n = length b \<and> de_sunk s' = de_sunk s @ b else de_sunk s' = de_sunk s"
    "\<exists>ms. de_sent s' = de_sent s @ ms" "de_request s \<noteq> None \<Longrightarrow> de_request s' = de_request s"
    by blast+
qed

section \<open>The contract of a connection\<close>

text \<open>Guarded to the good states, the end is a connection that is read and written like every other.\<close>

definition guarded_Read :: "delayed_end reader" where
  "guarded_Read n s = (if de_good s then de_Read n s else None)"

definition guarded_Write :: "Options \<Rightarrow> (go_error option \<times> go_error option) option \<Rightarrow> delayed_end writer" where
  "guarded_Write o1 a b s = (if de_good s then de_Write o1 a b s else ((0, Some ClosedPipe), s))"

definition guarded_remaining :: "delayed_end \<Rightarrow> bytes" where
  "guarded_remaining s = (if de_good s then de_remaining s else [])"

lemma delayed_answer_conn: "duplex_conn guarded_Read guarded_remaining (\<lambda>s. length (de_answers s))
  (\<lambda>s. \<forall>a \<in> set (de_answers s). snd a = None) (guarded_Write o1 a) de_sunk"
proof unfold_locales
  fix n s d e s' assume "guarded_Read n s = Some ((d, e), s')"
  then have g: "de_good s" "de_good s'" and r: "de_Read n s = Some ((d, e), s')"
    by (auto simp: guarded_Read_def split: if_splits intro: de_Read_keeps)
  from r g(1) obtain c c' where c: "dd_conn (de_conn s) = Some c" "ws_Read n c = Some ((d, e), c')"
      "s' = s\<lparr>de_conn := (de_conn s)\<lparr>dd_conn := Some c'\<rparr>\<rparr>"
    by (rule de_Read_good)
  note view = guarded_remaining_def de_remaining_def de_answers_def
  show "guarded_remaining s = d @ guarded_remaining s'" using g c ws.read_split [OF c(2)] by (simp add: view)
  show "length d \<le> n" using ws.read_bound [OF c(2)] .
  show "length (guarded_remaining s') + length (de_answers s') < length (guarded_remaining s) + length (de_answers s)"
    if "0 < n" using g c ws.read_progress [OF c(2) that] by (simp add: view)
  show "e = None \<and> (\<forall>a \<in> set (de_answers s'). snd a = None)" if "\<forall>a \<in> set (de_answers s). snd a = None"
    using that c ws.read_healthy [OF _ c(2)] by (simp add: view)
next
  fix n s assume "guarded_Read n s = None"
  then show "guarded_remaining s = []"
    by (auto simp: guarded_Read_def guarded_remaining_def de_Read_def dd_Read_def de_good_def de_remaining_def
        dest: ws.read_blocks split: if_splits option.splits sum.splits prod.splits)
next
  fix b s n s' assume "guarded_Write o1 a b s = ((n, None), s')"
  then show "n = length b \<and> de_sunk s' = de_sunk s @ b"
    using de_Write_good(3) by (fastforce simp: guarded_Write_def split: if_splits)
next
  fix b s n e s' assume "guarded_Write o1 a b s = ((n, Some e), s')"
  then have "de_sunk s' = de_sunk s"
    using de_Write_good(3) by (fastforce simp: guarded_Write_def split: if_splits)
  then show "\<exists>p. prefix p b \<and> de_sunk s' = de_sunk s @ p" by simp
next
  fix n s x s' assume "guarded_Read n s = Some (x, s')"
  then show "de_sunk s' = de_sunk s"
    by (auto simp: guarded_Read_def de_sunk_def de_header_def de_sent_def ws_Read_def go_copy_def Let_def
        elim!: de_Read_good split: if_splits list.splits)
next
  fix b s r s' assume "guarded_Write o1 a b s = (r, s')"
  then show "guarded_remaining s' = guarded_remaining s"
    using de_Write_good(1,2) by (cases r) (fastforce simp: guarded_Write_def guarded_remaining_def split: if_splits)
qed

interpretation delayed: duplex_pair "scripted_Read tcp_Read" "\<lambda>s. tcp_remaining (sc_conn s)" "\<lambda>s. length (tcp_answers (sc_conn s))"
  "\<lambda>s. \<forall>a \<in> set (tcp_answers (sc_conn s)). snd a = None" "scripted_Write tcp_Write_answer" "\<lambda>s. tcp_out (sc_conn s)"
  "scripted_Read guarded_Read" "\<lambda>s. guarded_remaining (sc_conn s)" "\<lambda>s. length (de_answers (sc_conn s))"
  "\<lambda>s. \<forall>a \<in> set (de_answers (sc_conn s)). snd a = None" "scripted_Write (guarded_Write o1)" "\<lambda>s. de_sunk (sc_conn s)"
  by (rule duplex_pair.intro, rule app.duplex_conn_axioms, rule scripted_conn, rule delayed_answer_conn)

section \<open>The guards are never met\<close>

lemma guarded_scripted:
  assumes "de_good (sc_conn s)"
  shows "scripted_Read de_Read n s = scripted_Read guarded_Read n s"
    and "scripted_Write (de_Write o1) b s = scripted_Write (guarded_Write o1) b s"
    and "copy_chunk (scripted_Write (de_Write o1)) b s = copy_chunk (scripted_Write (guarded_Write o1)) b s"
proof -
  show "scripted_Read de_Read n s = scripted_Read guarded_Read n s"
    using assms by (simp add: scripted_Read_def guarded_Read_def)
  show w: "scripted_Write (de_Write o1) b s = scripted_Write (guarded_Write o1) b s"
    using assms by (cases "sc_script s") (simp_all add: scripted_Write_def guarded_Write_def)
  show "copy_chunk (scripted_Write (de_Write o1)) b s = copy_chunk (scripted_Write (guarded_Write o1)) b s"
    by (simp add: copy_chunk_def w)
qed

lemma good_read: "scripted_Read de_Read n s = Some (a, s') \<Longrightarrow> de_good (sc_conn s) \<Longrightarrow> de_good (sc_conn s')"
  by (auto simp: scripted_Read_Some intro: de_Read_keeps)

text \<open>What a chunk that is written does to the end.\<close>

lemma good_chunk:
  assumes "copy_chunk (scripted_Write (de_Write o1)) d s = (ew, s')" "de_good (sc_conn s)"
  shows "de_good (sc_conn s')" "\<exists>ms. de_sent (sc_conn s') = de_sent (sc_conn s) @ ms"
    and "de_request (sc_conn s) \<noteq> None \<Longrightarrow> de_request (sc_conn s') = de_request (sc_conn s)"
proof -
  consider "s' = s" | n e where "scripted_Write (de_Write o1) d s = ((n, e), s')"
    using assms(1) by (auto simp: copy_chunk_def Let_def split: if_splits prod.splits)
  then have "de_good (sc_conn s') \<and> (\<exists>ms. de_sent (sc_conn s') = de_sent (sc_conn s) @ ms) \<and>
      (de_request (sc_conn s) \<noteq> None \<longrightarrow> de_request (sc_conn s') = de_request (sc_conn s))"
  proof cases
    case 2
    from scripted_Write_cases [OF this] obtain a where "de_Write o1 a d (sc_conn s) = ((n, e), sc_conn s')" by blast
    from de_Write_good [OF this assms(2)] show ?thesis by blast
  qed (use assms(2) in simp)
  then show "de_good (sc_conn s')" "\<exists>ms. de_sent (sc_conn s') = de_sent (sc_conn s) @ ms"
    "de_request (sc_conn s) \<noteq> None \<Longrightarrow> de_request (sc_conn s') = de_request (sc_conn s)" by blast+
qed

abbreviation delayed_client :: "Options \<Rightarrow> (app_conn, delayed_conn) duplex \<Rightarrow> (app_conn, delayed_conn) duplex \<Rightarrow> bool" where
  "delayed_client o1 \<equiv>
     duplex_step (scripted_Read tcp_Read) (scripted_Write tcp_Write_answer) (scripted_Read de_Read) (scripted_Write (de_Write o1))"

lemma delayed_client_guarded:
  "delayed_client o1 s t \<Longrightarrow> de_good (sc_conn (d_out s)) \<Longrightarrow>
     duplex_step (scripted_Read tcp_Read) (scripted_Write tcp_Write_answer) (scripted_Read guarded_Read)
       (scripted_Write (guarded_Write o1)) s t"
proof (induction rule: duplex_step.induct)
  case (control s r)
  then show ?case by (intro duplex_step.control) auto
next
  case (round_in s d er out' ew in')
  then show ?case by (intro duplex_step.round_in) (auto simp: guarded_scripted)
next
  case (round_out s d er in' ew out')
  then show ?case by (intro duplex_step.round_out) (auto simp: guarded_scripted)
next
  case (torn_in s out' answer err)
  then show ?case by (intro duplex_step.torn_in) (auto simp: guarded_scripted)
next
  case (torn_out s in' answer err)
  then show ?case by (intro duplex_step.torn_out) auto
qed

lemma read_sent_keeps:
  "scripted_Read de_Read n s = Some (a, s') \<Longrightarrow> de_good (sc_conn s) \<Longrightarrow>
     de_sent (sc_conn s') = de_sent (sc_conn s) \<and> de_request (sc_conn s') = de_request (sc_conn s)"
  by (auto simp: scripted_Read_Some de_sent_def ws_Read_def go_copy_def Let_def elim!: de_Read_good split: if_splits list.splits)

lemma delayed_client_keeps:
  "delayed_client o1 s t \<Longrightarrow> de_good (sc_conn (d_out s)) \<Longrightarrow>
     de_good (sc_conn (d_out t)) \<and> (\<exists>ms. de_sent (sc_conn (d_out t)) = de_sent (sc_conn (d_out s)) @ ms) \<and>
     (de_request (sc_conn (d_out s)) \<noteq> None \<longrightarrow> de_request (sc_conn (d_out t)) = de_request (sc_conn (d_out s)))"
proof (induction rule: duplex_step.induct)
  case (round_out s d er in' ew out')
  then show ?case using good_chunk [of o1 d "d_out s" ew out'] by auto
next
  case (round_in s d er out' ew in')
  then show ?case using good_read [OF round_in.hyps(3)] read_sent_keeps [OF round_in.hyps(3)] by simp
next
  case (torn_in s out' answer err)
  then show ?case using good_read [of 32768 "d_out s" answer out'] read_sent_keeps [of 32768 "d_out s" answer out'] by auto
qed auto

section \<open>The steps of the whole path\<close>

text \<open>A server without a connection is \<open>None\<close>.\<close>

record delayed_tunnel =
  dt_client :: "(app_conn, delayed_conn) duplex"
  dt_server :: "(ws_conn, app_conn) duplex option"
  dt_up :: nat
  dt_down :: nat

definition delayed_start ::
  "bytes \<Rightarrow> uint \<Rightarrow> app_conn \<Rightarrow> (go_error option \<times> go_error option) option list \<Rightarrow> delayed_tunnel" where
  "delayed_start url ed application script =
     \<lparr>dt_client = duplex_start application \<lparr>sc_conn = de_start url ed, sc_script = script\<rparr>,
      dt_server = None, dt_up = 0, dt_down = 0\<rparr>"

abbreviation upgraded_server :: "(ws_conn, app_conn) duplex \<Rightarrow> (ws_conn, app_conn) duplex \<Rightarrow> bool" where
  "upgraded_server \<equiv>
     duplex_step (scripted_Read ws_Read) (scripted_Write ws_Write) (scripted_Read tcp_Read) (scripted_Write tcp_Write_answer)"

text \<open>
  Beside the steps of \<open>tunnel_step\<close> there is one that runs the upgrade handler on the request of the
  client, takes its connection from the queue and starts a relay for it. \<open>target\<close> is the connection that the
  server's relay will dial, \<open>ss\<close> the answers to what the server writes.
\<close>

inductive delayed_step :: "Options \<Rightarrow> app_conn \<Rightarrow> go_error option list \<Rightarrow> delayed_tunnel \<Rightarrow> delayed_tunnel \<Rightarrow> bool"
  for o1 target ss where
  client: "delayed_client o1 (dt_client t) c \<Longrightarrow> delayed_step o1 target ss t (t\<lparr>dt_client := c\<rparr>)"
| upgrade: "de_request (sc_conn (d_out (dt_client t))) = Some r \<Longrightarrow> dt_server t = None \<Longrightarrow>
     WS_Upgrade (Path o1) (\<lambda>_. Inr []) \<lparr>r_path = Path o1, r_header = req_header r\<rparr> (start_accepting (make_chan 1024)) =
       (Delivered, a) \<Longrightarrow>
     AcceptConn (connChan a) = Some (Inr c, q) \<Longrightarrow>
     delayed_step o1 target ss t (t\<lparr>dt_server := Some (duplex_start \<lparr>sc_conn = c, sc_script = ss\<rparr> target)\<rparr>)"
| server: "dt_server t = Some s \<Longrightarrow> upgraded_server s s' \<Longrightarrow>
     delayed_step o1 target ss t (t\<lparr>dt_server := Some s'\<rparr>)"
| up: "dt_server t = Some s \<Longrightarrow> dt_up t < length (de_sent (sc_conn (d_out (dt_client t)))) \<Longrightarrow>
     delayed_step o1 target ss t
       (t\<lparr>dt_server := Some (s\<lparr>d_in := ws_arrive (de_sent (sc_conn (d_out (dt_client t))) ! dt_up t) (d_in s)\<rparr>),
          dt_up := Suc (dt_up t)\<rparr>)"
| down: "dt_server t = Some s \<Longrightarrow> dt_down t < length (ws_sent (sc_conn (d_in s))) \<Longrightarrow>
     receive = de_receive (ws_sent (sc_conn (d_in s)) ! dt_down t, None) \<Longrightarrow>
     delayed_step o1 target ss t
       (t\<lparr>dt_client := (dt_client t)\<lparr>d_out := (d_out (dt_client t))\<lparr>sc_conn := receive (sc_conn (d_out (dt_client t)))\<rparr>\<rparr>,
          dt_down := Suc (dt_down t)\<rparr>)"
| break_client: "delayed_step o1 target ss t
       (t\<lparr>dt_client := (dt_client t)\<lparr>d_out := (d_out (dt_client t))\<lparr>sc_conn :=
          de_receive ([], Some e) (sc_conn (d_out (dt_client t)))\<rparr>\<rparr>\<rparr>)"
| break_server: "dt_server t = Some s \<Longrightarrow>
     delayed_step o1 target ss t (t\<lparr>dt_server := Some (s\<lparr>d_in := ws_break e (d_in s)\<rparr>)\<rparr>)"

inductive_cases delayed_stepE: "delayed_step o1 target ss t u"

text \<open>The handler delivers a connection that holds the early data of the request.\<close>

lemma upgrade_conn:
  assumes "WS_Upgrade lpath (\<lambda>_. Inr []) \<lparr>r_path = lpath, r_header = h\<rparr> (start_accepting (make_chan 1024)) = (Delivered, a)"
    and "AcceptConn (connChan a) = Some (Inr c, q)"
  shows "c = websocketServerConn [] (fst (early_payload h))"
  using assms
  by (auto simp: WS_Upgrade_def deliver_def start_accepting_def make_chan_def chan_try_send_def AcceptConn_def chan_recv_def
      split: prod.splits)

section \<open>What every step preserves\<close>

definition delayed_inv :: "app_conn \<Rightarrow> app_conn \<Rightarrow> delayed_tunnel \<Rightarrow> bool" where
  "delayed_inv application target t \<longleftrightarrow>
     (let c = dt_client t; e = sc_conn (d_out c);
          appl0 = tcp_out (sc_conn application); appl = tcp_remaining (sc_conn application)
      in de_good e \<and>
         (case dt_server t of
            None \<Rightarrow> dt_up t = 0 \<and> dt_down t = 0 \<and> delayed.pair_inv appl0 appl c
          | Some s \<Rightarrow>
              de_request e \<noteq> None \<and> dt_up t \<le> length (de_sent e) \<and> dt_down t \<le> length (ws_sent (sc_conn (d_in s))) \<and>
              delayed.pair_inv (appl0 @ delivered (dt_down t) (ws_sent (sc_conn (d_in s)))) appl c \<and>
              ws_transport.sv.pair_inv (tcp_remaining (sc_conn target))
                (tcp_out (sc_conn target) @ de_header e @ delivered (dt_up t) (de_sent e)) s))"

lemma de_start_view: "de_sunk (de_start url ed) = []" "guarded_remaining (de_start url ed) = []"
  by (simp_all add: de_start_def newDelayDialConn_def de_sunk_def de_header_def de_sent_def guarded_remaining_def de_remaining_def)

lemma delayed_inv_start: "delayed_inv application target (delayed_start url ed application script)"
  using delayed.pair_inv_start [of application "\<lparr>sc_conn = de_start url ed, sc_script = script\<rparr>"]
  by (simp add: delayed_inv_def delayed_start_def Let_def de_start_view)
    (simp add: duplex_start_def de_good_start)

lemma receive_view [simp]:
  "de_sent (de_receive a s) = de_sent s" "de_request (de_receive a s) = de_request s"
  "de_header (de_receive a s) = de_header s" "de_sunk (de_receive a s) = de_sunk s"
  by (auto simp: de_sent_def de_receive_def de_header_def de_sunk_def split: option.splits)

lemma receive_remaining:
  "de_good s \<Longrightarrow> de_request s \<noteq> None \<Longrightarrow> guarded_remaining (de_receive (m, e) s) = guarded_remaining s @ m"
  "guarded_remaining (de_receive ([], e) s) = guarded_remaining s"
  by (auto simp: guarded_remaining_def de_good_receive de_remaining_def de_receive_def ws_remaining_def de_good_def
      split: option.splits)

lemma delayed_inv_client:
  assumes "delayed_client o1 (dt_client t) c" "delayed_inv application target t"
  shows "delayed_inv application target (t\<lparr>dt_client := c\<rparr>)"
proof -
  have g: "de_good (sc_conn (d_out (dt_client t)))" using assms(2) by (simp add: delayed_inv_def Let_def)
  note pair = delayed.pair_inv_step [OF delayed_client_guarded [OF assms(1) g]]
  note keeps = delayed_client_keeps [OF assms(1) g]
  show ?thesis
  proof (cases "dt_server t")
    case None
    then show ?thesis using assms(2) pair keeps by (simp add: delayed_inv_def Let_def)
  next
    case (Some s)
    then have "de_request (sc_conn (d_out c)) = de_request (sc_conn (d_out (dt_client t)))"
      using assms(2) keeps by (simp add: delayed_inv_def Let_def)
    then have "de_header (sc_conn (d_out c)) = de_header (sc_conn (d_out (dt_client t)))" by (simp add: de_header_def)
    moreover obtain ms where "de_sent (sc_conn (d_out c)) = de_sent (sc_conn (d_out (dt_client t))) @ ms" using keeps by blast
    ultimately show ?thesis
      using Some assms(2) pair keeps by (auto simp: delayed_inv_def Let_def delivered_append)
  qed
qed

lemma delayed_inv_upgrade:
  assumes "delayed_inv application target t" "dt_server t = None" "de_request (sc_conn (d_out (dt_client t))) = Some r"
    and "c = websocketServerConn [] (fst (early_payload (req_header r)))"
  shows "delayed_inv application target (t\<lparr>dt_server := Some (duplex_start \<lparr>sc_conn = c, sc_script = ss\<rparr> target)\<rparr>)"
proof -
  have c: "ws_sent c = []" "ws_remaining c = de_header (sc_conn (d_out (dt_client t)))"
    using assms(3,4) by (simp_all add: websocketServerConn_def NewWebsocketConn_def ws_remaining_def de_header_def)
  show ?thesis
    using assms(1-3) c ws_transport.sv.pair_inv_start [of "\<lparr>sc_conn = c, sc_script = ss\<rparr>" target]
    by (simp add: delayed_inv_def Let_def delivered_def duplex_start_def)
qed

lemma delayed_inv_step:
  "delayed_step o1 target ss t u \<Longrightarrow> delayed_inv application target t \<Longrightarrow> delayed_inv application target u"
proof (induction rule: delayed_step.induct)
  case (client t c)
  then show ?case by (rule delayed_inv_client)
next
  case (upgrade t r a c q)
  then show ?case using delayed_inv_upgrade upgrade_conn by blast
next
  case (server t s s')
  obtain ms where "ws_sent (sc_conn (d_in s')) = ws_sent (sc_conn (d_in s)) @ ms"
    using ws_transport.sent_server_step [OF server(2)] by blast
  then show ?case
    using server(1,3) ws_transport.sv.pair_inv_step [OF server(2)] by (auto simp: delayed_inv_def Let_def delivered_append)
next
  case (up t s)
  then show ?case
    using flow_arrival
    by (simp add: delayed_inv_def Let_def ws_transport.sv.pair_inv_def ws_transport.arrive_sent ws_transport.arrive_remaining
        ws_transport.arrive_sunk delivered_Suc flip: append_assoc)
next
  case (down t s receive)
  then show ?case
    using flow_arrival
    by (simp add: delayed_inv_def Let_def delayed.pair_inv_def de_good_receive receive_remaining delivered_Suc
        flip: append_assoc)
next
  case (break_client t e)
  then show ?case
    by (auto simp: delayed_inv_def Let_def delayed.pair_inv_def de_good_receive receive_remaining split: option.splits)
next
  case (break_server t s e)
  then show ?case
    by (simp add: delayed_inv_def Let_def ws_transport.sv.pair_inv_def ws_transport.break_sent ws_transport.break_remaining
        ws_transport.break_sunk)
qed

lemma delayed_reachable:
  "(delayed_step o1 target ss)\<^sup>*\<^sup>* (delayed_start url ed application script) t \<Longrightarrow> delayed_inv application target t"
  by (induction rule: rtranclp_induct) (auto intro: delayed_inv_start delayed_inv_step)

section \<open>What has come out at both ends\<close>

definition delayed_target_received :: "app_conn \<Rightarrow> delayed_tunnel \<Rightarrow> bytes" where
  "delayed_target_received target t =
     (case dt_server t of None \<Rightarrow> tcp_out (sc_conn target) | Some s \<Rightarrow> tcp_out (sc_conn (d_out s)))"

definition delayed_app_received :: "delayed_tunnel \<Rightarrow> bytes" where
  "delayed_app_received t = tcp_out (sc_conn (d_in (dt_client t)))"

text \<open>A direction is quiet if nothing has failed on it and nothing is left to move, the upgrade included.\<close>

definition delayed_quiet_up :: "delayed_tunnel \<Rightarrow> bool" where
  "delayed_quiet_up t \<longleftrightarrow>
     \<not> d_failed_out (dt_client t) \<and> tcp_remaining (sc_conn (d_in (dt_client t))) = [] \<and>
     (case dt_server t of
        None \<Rightarrow> de_request (sc_conn (d_out (dt_client t))) = None
      | Some s \<Rightarrow> \<not> d_failed_out s \<and> dt_up t = length (de_sent (sc_conn (d_out (dt_client t)))) \<and>
          ws_remaining (sc_conn (d_in s)) = [])"

definition delayed_quiet_down :: "app_conn \<Rightarrow> delayed_tunnel \<Rightarrow> bool" where
  "delayed_quiet_down target t \<longleftrightarrow>
     \<not> d_failed_in (dt_client t) \<and> de_remaining (sc_conn (d_out (dt_client t))) = [] \<and>
     (case dt_server t of
        None \<Rightarrow> tcp_remaining (sc_conn target) = []
      | Some s \<Rightarrow> \<not> d_failed_in s \<and> tcp_remaining (sc_conn (d_out s)) = [] \<and>
          dt_down t = length (ws_sent (sc_conn (d_in s))))"

lemma delayed_faithful_up:
  assumes "delayed_inv application target t"
  defines "all \<equiv> tcp_out (sc_conn target) @ tcp_remaining (sc_conn application)"
  shows "prefix (delayed_target_received target t) all" "delayed_quiet_up t \<Longrightarrow> delayed_target_received target t = all"
proof -
  let ?c = "dt_client t" and ?e = "sc_conn (d_out (dt_client t))"
  have cl: "flow (tcp_remaining (sc_conn application)) (de_header ?e @ concat (de_sent ?e)) (tcp_remaining (sc_conn (d_in ?c)))
      (d_failed_out ?c) (r_toOutbound (d_relay ?c))"
    using assms(1) by (auto simp: delayed_inv_def Let_def delayed.pair_inv_def de_sunk_def [symmetric] split: option.splits)
  have "prefix (delayed_target_received target t) all \<and>
      (delayed_quiet_up t \<longrightarrow> delayed_target_received target t = all)"
  proof (cases "dt_server t")
    case None
    then have "de_request ?e = None \<Longrightarrow> de_header ?e = [] \<and> de_sent ?e = []"
      using assms(1) by (auto simp: delayed_inv_def Let_def de_good_def de_header_def de_sent_def)
    then show ?thesis using None cl by (auto simp: delayed_target_received_def delayed_quiet_up_def all_def flow_def)
  next
    case (Some s)
    then have sv: "flow ((tcp_out (sc_conn target)) @ delivered (Suc (dt_up t)) (de_header ?e # de_sent ?e)) (tcp_out (sc_conn (d_out s)))
        (ws_remaining (sc_conn (d_in s))) (d_failed_out s) (r_toOutbound (d_relay s))"
      using assms(1) by (simp add: delayed_inv_def Let_def ws_transport.sv.pair_inv_def delivered_def)
    have cl': "flow (tcp_remaining (sc_conn application)) (concat (de_header ?e # de_sent ?e)) (tcp_remaining (sc_conn (d_in ?c)))
      (d_failed_out ?c) (r_toOutbound (d_relay ?c))" using cl by simp
    show ?thesis
      using Some ws_transport.flow_through [OF cl' sv] by (simp add: delayed_target_received_def delayed_quiet_up_def all_def)
  qed
  then show "prefix (delayed_target_received target t) all" "delayed_quiet_up t \<Longrightarrow> delayed_target_received target t = all"
    by blast+
qed

lemma delayed_faithful_down:
  assumes "delayed_inv application target t"
  defines "all \<equiv> tcp_out (sc_conn application) @ tcp_remaining (sc_conn target)"
  shows "prefix (delayed_app_received t) all" "delayed_quiet_down target t \<Longrightarrow> delayed_app_received t = all"
proof -
  let ?c = "dt_client t" and ?e = "sc_conn (d_out (dt_client t))"
  have rem: "guarded_remaining ?e = de_remaining ?e"
    using assms(1) by (simp add: delayed_inv_def Let_def guarded_remaining_def)
  have "prefix (delayed_app_received t) all \<and> (delayed_quiet_down target t \<longrightarrow> delayed_app_received t = all)"
  proof (cases "dt_server t")
    case None
    then have "flow (tcp_out (sc_conn application)) (delayed_app_received t) (de_remaining ?e) (d_failed_in ?c) (r_toInbound (d_relay ?c))"
      using assms(1) rem by (simp add: delayed_inv_def Let_def delayed.pair_inv_def delayed_app_received_def)
    then show ?thesis using None by (auto simp: delayed_quiet_down_def all_def flow_def)
  next
    case (Some s)
    then have cl: "flow (tcp_out (sc_conn application) @ delivered (dt_down t) (ws_sent (sc_conn (d_in s)))) (delayed_app_received t)
        (de_remaining ?e) (d_failed_in ?c) (r_toInbound (d_relay ?c))"
      and sv: "flow (tcp_remaining (sc_conn target)) (concat (ws_sent (sc_conn (d_in s)))) (tcp_remaining (sc_conn (d_out s)))
        (d_failed_in s) (r_toInbound (d_relay s))"
      using assms(1) rem
      by (simp_all add: delayed_inv_def Let_def delayed.pair_inv_def ws_transport.sv.pair_inv_def delayed_app_received_def)
    show ?thesis using Some ws_transport.flow_through [OF sv cl] by (simp add: delayed_quiet_down_def all_def)
  qed
  then show "prefix (delayed_app_received t) all" "delayed_quiet_down target t \<Longrightarrow> delayed_app_received t = all"
    by blast+
qed

section \<open>Properties\<close>

text \<open>
  C3: The websocket modes with early data are transparent. In every reachable state of a client whose connection
  dials at its first write, the network and the server that its request upgrades, with any failures of
  dials, reads and writes, the target has received a prefix of what the application sends and the
  application a prefix of what the target sends; and a direction on which nothing failed and nothing is
  left to move has delivered everything, whether the first write went in the header or was too long for it.
\<close>

theorem delayed_tunnel:
  assumes "(delayed_step o1 target ss)\<^sup>*\<^sup>* (delayed_start url ed application script) t"
  shows "prefix (delayed_target_received target t) (tcp_out (sc_conn target) @ tcp_remaining (sc_conn application)) \<and>
    prefix (delayed_app_received t) (tcp_out (sc_conn application) @ tcp_remaining (sc_conn target)) \<and>
    (delayed_quiet_up t \<longrightarrow>
       delayed_target_received target t = tcp_out (sc_conn target) @ tcp_remaining (sc_conn application)) \<and>
    (delayed_quiet_down target t \<longrightarrow>
       delayed_app_received t = tcp_out (sc_conn application) @ tcp_remaining (sc_conn target))"
  using delayed_faithful_up [OF delayed_reachable [OF assms]] delayed_faithful_down [OF delayed_reachable [OF assms]] by blast

section \<open>A run\<close>

text \<open>The application sends two bytes, which travel in the header of the upgrade request.\<close>

definition early_options :: Options where
  "early_options = flag_defaults\<lparr>Ed := 2048\<rparr>"

definition early_end :: delayed_end where
  "early_end =
     \<lparr>de_conn = (newDelayDialConn ''wss://host/'' 2048)\<lparr>dd_conn := Some (NewWebsocketConn [] []), dd_dialed := True\<rparr>,
      de_request = Some (ws_request early_options ''wss://host/'' (Some ''hi''))\<rparr>"

lemma early_write:
  "scripted_Write (de_Write early_options) ''hi'' \<lparr>sc_conn = de_start ''wss://host/'' 2048, sc_script = []\<rparr> =
     ((2, None), \<lparr>sc_conn = early_end, sc_script = []\<rparr>)"
  using dd_first_write [of "dial_answer None" early_options "''wss://host/''" 2048 "''hi''" "[]" None]
  by (simp add: scripted_Write_def de_Write_def de_start_def early_end_def dial_answer_def dd_early_def newDelayDialConn_def)

definition early_state :: "relay \<Rightarrow> bytes list \<Rightarrow> delayed_end \<Rightarrow> (ws_conn, app_conn) duplex option \<Rightarrow> delayed_tunnel" where
  "early_state r appl e s =
     \<lparr>dt_client = \<lparr>d_relay = r, d_in = \<lparr>sc_conn = idle_tcp appl, sc_script = []\<rparr>, d_out = \<lparr>sc_conn = e, sc_script = []\<rparr>,
        d_failed_in = False, d_failed_out = False\<rparr>, dt_server = s, dt_up = 0, dt_down = 0\<rparr>"

definition early_server :: "relay \<Rightarrow> bytes \<Rightarrow> bytes \<Rightarrow> (ws_conn, app_conn) duplex" where
  "early_server r rb received =
     \<lparr>d_relay = r, d_in = \<lparr>sc_conn = NewWebsocketConn [] rb, sc_script = []\<rparr>,
      d_out = \<lparr>sc_conn = (idle_tcp [])\<lparr>tcp_out := received\<rparr>, sc_script = []\<rparr>, d_failed_in = False, d_failed_out = False\<rparr>"

abbreviation idle_app :: app_conn where
  "idle_app \<equiv> \<lparr>sc_conn = idle_tcp [], sc_script = []\<rparr>"

lemma early_run:
  "(delayed_step early_options idle_app [])\<^sup>*\<^sup>*
     (delayed_start ''wss://host/'' 2048 \<lparr>sc_conn = idle_tcp [''hi''], sc_script = []\<rparr> [])
     (early_state dialed [] early_end (Some (early_server dialed [] ''hi'')))"
proof -
  let ?step = "delayed_step early_options idle_app []"
  let ?e0 = "de_start ''wss://host/'' 2048"
  have client: "?step t u" if "delayed_client early_options (dt_client t) (dt_client u)" "u = t\<lparr>dt_client := dt_client u\<rparr>" for t u
    using delayed_step.client [OF that(1), of idle_app "[]"] that(2) by simp
  have server: "?step t u" if "dt_server t = Some s" "upgraded_server s s'" "u = t\<lparr>dt_server := Some s'\<rparr>" for t u s s'
    using delayed_step.server [OF that(1,2), of early_options idle_app "[]"] that(3) by simp
  have 1: "?step (early_state relay_start [''hi''] ?e0 None) (early_state dialed [''hi''] ?e0 None)"
    by (rule client, rule dial_to) (simp_all add: early_state_def relay_start_def dialed_def)
  have 2: "?step (early_state dialed [''hi''] ?e0 None) (early_state dialed [] early_end None)"
    by (rule client, rule round_to [where d = "''hi''"])
      (simp_all add: early_state_def dialed_def scripted_Read_def tcp_Read_def idle_tcp_def copy_chunk_def early_write)
  have 3: "?step (early_state dialed [] early_end None) (early_state dialed [] early_end (Some (early_server relay_start ''hi'' [])))"
    using delayed_step.upgrade [of "early_state dialed [] early_end None" _ early_options _ "NewWebsocketConn [] ''hi''" _ idle_app "[]"]
    by (simp add: early_state_def early_end_def early_server_def WS_Upgrade_def early_payload_request deliver_def
        start_accepting_def make_chan_def chan_try_send_def AcceptConn_def chan_recv_def websocketServerConn_def
        duplex_start_def idle_tcp_def)
  have 4: "?step (early_state dialed [] early_end (Some (early_server relay_start ''hi'' [])))
      (early_state dialed [] early_end (Some (early_server dialed ''hi'' [])))"
    by (rule server [where s = "early_server relay_start ''hi'' []" and s' = "early_server dialed ''hi'' []"],
        simp add: early_state_def, rule dial_to) (simp_all add: early_state_def early_server_def relay_start_def dialed_def)
  have 5: "?step (early_state dialed [] early_end (Some (early_server dialed ''hi'' [])))
      (early_state dialed [] early_end (Some (early_server dialed [] ''hi'')))"
    by (rule server [where s = "early_server dialed ''hi'' []" and s' = "early_server dialed [] ''hi''"], simp add: early_state_def,
        rule round_to [where d = "''hi''"])
      (simp_all add: early_state_def early_server_def dialed_def scripted_Read_def ws_Read_def go_copy_def idle_tcp_def
        copy_chunk_def scripted_Write_def tcp_Write_answer_def tcp_Write_def NewWebsocketConn_def)
  note run = converse_rtranclp_into_rtranclp [where r = ?step]
  have "?step\<^sup>*\<^sup>* (early_state relay_start [''hi''] ?e0 None) (early_state dialed [] early_end (Some (early_server dialed [] ''hi'')))"
    by (rule run [OF 1], rule run [OF 2], rule run [OF 3], rule run [OF 4], rule r_into_rtranclp [where r = ?step, OF 5])
  then show ?thesis by (simp add: early_state_def delayed_start_def duplex_start_def)
qed

theorem delayed_tunnel_witness:
  "delayed_target_received idle_app (early_state dialed [] early_end (Some (early_server dialed [] ''hi''))) = ''hi'' \<and>
   delayed_quiet_up (early_state dialed [] early_end (Some (early_server dialed [] ''hi'')))"
proof -
  have "delayed_quiet_up (early_state dialed [] early_end (Some (early_server dialed [] ''hi'')))"
    by (simp add: delayed_quiet_up_def early_state_def early_server_def early_end_def de_sent_def NewWebsocketConn_def
        ws_remaining_def idle_tcp_def tcp_remaining_def)
  then show ?thesis using delayed_tunnel [OF early_run] by (simp add: idle_tcp_def tcp_remaining_def)
qed

end
