(* ===== verification/ListenerOps.thy ===== *)
theory ListenerOps
  imports Relay
begin

text \<open>
  The methods of the listeners: which \<open>Close\<close> each type of src/gost/proxy/tcp.go and src/gost/proxy/server
  has, itself or by embedding, what it closes, and what becomes of the accept loop of a listener that has
  been closed. \<open>handler.Close\<close> of src/handler.go calls the one of its listener. The state is the list of open sockets.
\<close>

section \<open>Closing sockets\<close>

text \<open>
  A \<open>net.Listener\<close> is a TCP socket or a TLS layer around one; \<open>Close\<close> and \<open>Accept\<close> of the layer are those
  of what it holds. Closing twice and accepting after a close are errors with a known text.
\<close>

datatype ('ln, 'cert) net_listener = Socket 'ln | TLSLayer "('ln, 'cert) net_listener" "'cert server_tls"

definition closed_text :: bytes where
  "closed_text = ''use of closed network connection''"

fun net_Close :: "('ln, 'cert) net_listener \<Rightarrow> 'ln list \<Rightarrow> go_error option \<times> 'ln list" where
  "net_Close (Socket ln) open =
     (if ln \<in> set open then (None, filter (\<lambda>x. x \<noteq> ln) open) else (Some (ExtErr closed_text), open))"
| "net_Close (TLSLayer inner cfg) open = net_Close inner open"

text \<open>What \<open>Accept\<close> gives when the socket is not open; \<open>None\<close> is up to the network.\<close>

fun net_Accept_closed :: "bytes \<Rightarrow> ('ln, 'cert) net_listener \<Rightarrow> 'ln list \<Rightarrow> bytes option" where
  "net_Accept_closed addr (Socket ln) open =
     (if ln \<in> set open then None else Some (''accept tcp '' @ addr @ '': '' @ closed_text))"
| "net_Accept_closed addr (TLSLayer inner cfg) open = net_Accept_closed addr inner open"

text \<open>The field \<open>Listener\<close> of a listener.\<close>

definition l_Listener :: "('ln, 'cert) plugin_listener \<Rightarrow> ('ln, 'cert) net_listener" where
  "l_Listener l = fold (\<lambda>cfg inner. TLSLayer inner cfg) (l_tls l) (Socket (l_socket l))"

lemma net_Close_layers [simp]:
  "net_Close (fold (\<lambda>cfg inner. TLSLayer inner cfg) cfgs inner) open = net_Close inner open"
  by (induction cfgs arbitrary: inner) simp_all

lemma net_Accept_layers [simp]:
  "net_Accept_closed addr (fold (\<lambda>cfg inner. TLSLayer inner cfg) cfgs inner) open = net_Accept_closed addr inner open"
  by (induction cfgs arbitrary: inner) simp_all

section \<open>The methods\<close>

definition TCP_Close :: "('ln, 'cert) plugin_listener \<Rightarrow> 'ln list \<Rightarrow> go_error option \<times> 'ln list" where
  "TCP_Close l = net_Close (l_Listener l)"

definition WS_Close :: "('ln, 'cert) plugin_listener \<Rightarrow> 'ln list \<Rightarrow> go_error option \<times> 'ln list" where
  "WS_Close l = net_Close (l_Listener l)"

definition Gun_Close :: "('ln, 'cert) plugin_listener \<Rightarrow> 'ln list \<Rightarrow> go_error option \<times> 'ln list" where
  "Gun_Close l = net_Close (l_Listener l)"

text \<open>The listener of the QUIC library has a \<open>Close\<close> of its own, a parameter.\<close>

definition QUIC_Close ::
  "('ln \<Rightarrow> 'ln list \<Rightarrow> go_error option \<times> 'ln list) \<Rightarrow> ('ln, 'cert) plugin_listener \<Rightarrow> 'ln list \<Rightarrow> go_error option \<times> 'ln list" where
  "QUIC_Close quic_close l = quic_close (l_socket l)"

fun listener_Close ::
  "('ln \<Rightarrow> 'ln list \<Rightarrow> go_error option \<times> 'ln list) \<Rightarrow> listener_type \<Rightarrow> ('ln, 'cert) plugin_listener \<Rightarrow> 'ln list
     \<Rightarrow> go_error option \<times> 'ln list" where
  "listener_Close quic_close T_TCPListener l = TCP_Close l"
| "listener_Close quic_close T_TLSListener l = TCP_Close l"
| "listener_Close quic_close T_MTLSListener l = TCP_Close l"
| "listener_Close quic_close T_H2Listener l = TCP_Close l"
| "listener_Close quic_close T_WSListener l = WS_Close l"
| "listener_Close quic_close T_WSSListener l = WS_Close l"
| "listener_Close quic_close T_MWSListener l = WS_Close l"
| "listener_Close quic_close T_MWSSListener l = WS_Close l"
| "listener_Close quic_close T_GunListener l = Gun_Close l"
| "listener_Close quic_close T_QUICListener l = QUIC_Close quic_close l"

fun handler_Close ::
  "('ln \<Rightarrow> 'ln list \<Rightarrow> go_error option \<times> 'ln list) \<Rightarrow> ('ln, 'cert) handler \<Rightarrow> 'ln list \<Rightarrow> go_error option \<times> 'ln list" where
  "handler_Close quic_close (Handler l t) = listener_Close quic_close (l_type l) l"

text \<open>\<open>AcceptConn\<close> of the types that have their own; the others have the one of the TCP listener.\<close>

definition WS_AcceptConn :: "'c chan \<Rightarrow> ('c result \<times> 'c chan) option" where
  "WS_AcceptConn q = map_option (apfst Inr) (chan_recv q)"

definition H2_AcceptConn :: "'c chan \<Rightarrow> ('c result \<times> 'c chan) option" where
  "H2_AcceptConn q = map_option (apfst Inr) (chan_recv q)"

definition Gun_AcceptConn :: "'c chan \<Rightarrow> ('c result \<times> 'c chan) option" where
  "Gun_AcceptConn q = map_option (apfst Inr) (chan_recv q)"

definition QUIC_AcceptConn :: "'c chan \<Rightarrow> ('c result \<times> 'c chan) option" where
  "QUIC_AcceptConn q = map_option (apfst Inr) (chan_recv q)"

fun listener_AcceptConn :: "listener_type \<Rightarrow> 'c chan \<Rightarrow> ('c result \<times> 'c chan) option" where
  "listener_AcceptConn T_TCPListener = AcceptConn"
| "listener_AcceptConn T_TLSListener = AcceptConn"
| "listener_AcceptConn T_MTLSListener = AcceptConn"
| "listener_AcceptConn T_WSListener = WS_AcceptConn"
| "listener_AcceptConn T_WSSListener = WS_AcceptConn"
| "listener_AcceptConn T_MWSListener = WS_AcceptConn"
| "listener_AcceptConn T_MWSSListener = WS_AcceptConn"
| "listener_AcceptConn T_H2Listener = H2_AcceptConn"
| "listener_AcceptConn T_GunListener = Gun_AcceptConn"
| "listener_AcceptConn T_QUICListener = QUIC_AcceptConn"

text \<open>\<open>Serve\<close> of the types that accept themselves; \<open>ServeMux\<close> is started on what the second one accepts.\<close>

definition TCP_Serve :: "'c accept_event list \<Rightarrow> 'c accept_state \<Rightarrow> loop_exit \<times> 'c accept_state" where
  "TCP_Serve evs s = KeepAccepting evs s"

definition MTLS_Serve :: "'k accept_event list \<Rightarrow> 'k list \<Rightarrow> loop_exit \<times> 'k list" where
  "MTLS_Serve evs muxed = KeepMuxAccepting evs muxed"

text \<open>What \<open>Serve\<close> of the types over HTTP and gRPC hands to the library: the server's configuration and the listener.\<close>

definition WS_Serve :: "(http_server \<Rightarrow> ('ln, 'cert) net_listener \<Rightarrow> 'r) \<Rightarrow> ('ln, 'cert) plugin_listener \<Rightarrow> 'r option" where
  "WS_Serve serve l = map_option (\<lambda>server. serve server (l_Listener l)) (l_http l)"

definition H2_Serve :: "(http_server \<Rightarrow> ('ln, 'cert) net_listener \<Rightarrow> 'r) \<Rightarrow> ('ln, 'cert) plugin_listener \<Rightarrow> 'r option" where
  "H2_Serve serve l = map_option (\<lambda>server. serve server (l_Listener l)) (l_http l)"

definition Gun_Serve ::
  "('cert server_tls \<times> service_desc \<Rightarrow> ('ln, 'cert) net_listener \<Rightarrow> 'r) \<Rightarrow> ('ln, 'cert) plugin_listener \<Rightarrow> 'r option" where
  "Gun_Serve serve l = map_option (\<lambda>server. serve server (l_Listener l)) (l_service l)"

section \<open>Lemmas\<close>

text \<open>All of them receive from the queue, so one model of the accepting goroutine is enough.\<close>

lemma listener_AcceptConn_all: "listener_AcceptConn ty q = AcceptConn q"
  by (cases ty) (auto simp: AcceptConn_def WS_AcceptConn_def H2_AcceptConn_def Gun_AcceptConn_def QUIC_AcceptConn_def
      split: option.splits)

text \<open>A listener over HTTP or gRPC has the server that its \<open>Serve\<close> uses, on the socket under its TLS layers.\<close>

lemma server_there:
  assumes "run_ListenerCreator env ctor o1 = (Inr l, left)"
  shows "Serve_loop (l_type l) = LoopHTTP \<Longrightarrow> l_http l \<noteq> None" "Serve_loop (l_type l) = LoopGRPC \<Longrightarrow> l_service l \<noteq> None"
  using assms
  by (cases ctor; cases "buildServerTLSConfig env o1";
      auto simp: listener_constructors NewTCPListener_def NewQUICListener_def mux_Handle_def Let_def wrap_listener_def
        split: sum.splits option.splits if_splits prod.splits)+

lemmas own_Close = TCP_Close_def WS_Close_def Gun_Close_def l_Listener_def

lemma listener_Close_socket:
  "l_type l \<noteq> T_QUICListener \<Longrightarrow> listener_Close quic_close (l_type l) l open =
     (if l_socket l \<in> set open then (None, filter (\<lambda>x. x \<noteq> l_socket l) open) else (Some (ExtErr closed_text), open))"
  by (cases "l_type l") (simp_all add: own_Close)

fun creator_type :: "ListenerCreator \<Rightarrow> listener_type" where
  "creator_type Ctor_NewTCPListener = T_TCPListener"
| "creator_type Ctor_NewTLSListener = T_TLSListener"
| "creator_type Ctor_NewMTLSListener = T_MTLSListener"
| "creator_type Ctor_NewWSListener = T_WSListener"
| "creator_type Ctor_NewWSSListener = T_WSSListener"
| "creator_type Ctor_NewMWSListener = T_MWSListener"
| "creator_type Ctor_NewMWSSListener = T_MWSSListener"
| "creator_type Ctor_NewH2Listener = T_H2Listener"
| "creator_type Ctor_NewQUICListener = T_QUICListener"
| "creator_type Ctor_NewGunListener = T_GunListener"

lemma run_creator_type:
  assumes "run_ListenerCreator env ctor o1 = (Inr l, left)"
  shows "l_type l = creator_type ctor"
  using assms
  by (cases ctor; cases "buildServerTLSConfig env o1")
    (auto simp: listener_constructors NewTCPListener_def NewQUICListener_def mux_Handle_def Let_def wrap_listener_def
      split: sum.splits option.splits if_splits prod.splits)

text \<open>The text of the accept on a closed listener is one that the loops know.\<close>

lemma closed_is_closed: "IsClosed (''accept tcp '' @ addr @ '': '' @ closed_text)"
proof -
  have "IsClosed closed_text" unfolding IsClosed_sublist closed_text_def by (simp add: sublist_code)
  then show ?thesis using IsClosed_wrapped [of closed_text "''accept tcp '' @ addr @ '': ''" "[]"] by simp
qed

definition quic_mode :: "Options \<Rightarrow> bool" where
  "quic_mode o1 \<longleftrightarrow> Server o1 \<and> Mode o1 = ''quic''"

lemma newHandler_listener:
  assumes "newHandler (init_packages empty_registry :: 'c plugin_registry) env g o1 = Inr (Handler l t)"
  shows "(l_type l = T_QUICListener) = quic_mode o1"
    and "if quic_mode o1 then ListenPacket env (Some (ResolveUDPAddr env (GetLocalAddr o1))) = Inr (l_socket l)
         else Listen env (Some (ResolveTCPAddr env (GetLocalAddr o1))) = Inr (l_socket l)"
proof -
  have "(l_type l = T_QUICListener) = quic_mode o1 \<and>
    (if quic_mode o1 then ListenPacket env (Some (ResolveUDPAddr env (GetLocalAddr o1))) = Inr (l_socket l)
     else Listen env (Some (ResolveTCPAddr env (GetLocalAddr o1))) = Inr (l_socket l))"
  proof (cases "Server o1")
    case False
    then obtain t' where "NewTCPListener env o1 = Inr l"
      using assms by (auto simp: newHandler_def split: sum.splits)
    then show ?thesis using False
      by (auto simp: NewTCPListener_base base_listener_def quic_mode_def map_sum_def split: sum.splits)
  next
    case True
    then obtain ctor where c: "map_of listener_table (Mode o1) = Some ctor" "fst (run_ListenerCreator env ctor o1) = Inr l"
      using assms by (auto simp: newHandler_def listener_lookup split: sum.splits option.splits)
    then obtain left where run: "run_ListenerCreator env ctor o1 = (Inr l, left)" by (cases "run_ListenerCreator env ctor o1") auto
    have q: "(ctor = Ctor_NewQUICListener) = (Mode o1 = ''quic'')"
      using c(1) by (auto simp: listener_table_def split: if_splits)
    show ?thesis
    proof (cases "ctor = Ctor_NewQUICListener")
      case True
      then show ?thesis using run q \<open>Server o1\<close>
        by (auto simp: NewQUICListener_def Let_def quic_mode_def split: sum.splits option.splits)
    next
      case False
      obtain ln where "Listen env (Some (ResolveTCPAddr env (GetLocalAddr o1))) = Inr ln" "l_socket l = ln"
        using tcp_based_outcome [OF False, of env o1] run
        by (auto split: sum.splits option.splits)
      moreover have "l_type l \<noteq> T_QUICListener" using run_creator_type [OF run] False by (cases ctor) auto
      ultimately show ?thesis using q False by (simp add: quic_mode_def)
    qed
  qed
  then show "(l_type l = T_QUICListener) = quic_mode o1"
    and "if quic_mode o1 then ListenPacket env (Some (ResolveUDPAddr env (GetLocalAddr o1))) = Inr (l_socket l)
         else Listen env (Some (ResolveTCPAddr env (GetLocalAddr o1))) = Inr (l_socket l)" by blast+
qed

section \<open>Properties\<close>

text \<open>
  C23: Closing the handler that the program built. In every mode but that of a QUIC server, and in both roles, it closes
  the socket its listener listens on, which is the one opened for the local address, and no other one, through
  whatever TLS layers; the next accept then fails with an error at which both accept loops over TCP return, the
  context being done or not. A QUIC server makes the one call of the library's \<open>Close\<close> and does nothing itself
  about the socket it opened and handed to the library.
\<close>

theorem handler_close:
  assumes "newHandler (init_packages empty_registry :: 'c plugin_registry) env g o1 = Inr (Handler l t)"
    and "l_socket l \<notin> set others"
  shows "if Server o1 \<and> Mode o1 = ''quic'' then
      ListenPacket env (Some (ResolveUDPAddr env (GetLocalAddr o1))) = Inr (l_socket l) \<and>
      handler_Close quic_close (Handler l t) (l_socket l # others) = quic_close (l_socket l) (l_socket l # others)
    else
      Listen env (Some (ResolveTCPAddr env (GetLocalAddr o1))) = Inr (l_socket l) \<and>
      handler_Close quic_close (Handler l t) (l_socket l # others) = (None, others) \<and>
      (\<exists>err. net_Accept_closed addr (l_Listener l) others = Some err \<and>
         TCP_Serve (AcceptError err is_done # evs) s = (Returned, s) \<and>
         MTLS_Serve (AcceptError err is_done # evs) muxed = (Returned, muxed))"
  using newHandler_listener [OF assms(1)] assms(2) closed_is_closed [of addr]
  by (auto simp: quic_mode_def listener_Close_socket QUIC_Close_def l_Listener_def TCP_Serve_def MTLS_Serve_def filter_id_conv)

theorem handler_close_witness:
  "\<exists>l t. newHandler (init_packages empty_registry :: unit plugin_registry) (demo_env\<lparr>env_resolve_tcp := \<lambda>_. Inr (''127.0.0.1'', 1984)\<rparr>)
       (\<lambda>_ _. None) (flag_defaults\<lparr>Mode := ''wss'', Server := True, Cert := ''c'', Key := ''k''\<rparr>) = Inr (Handler l t) \<and>
     handler_Close (\<lambda>_ open. (None, open)) (Handler l t) [3, 5] = (None, [5])"
proof -
  let ?env = "demo_env\<lparr>env_resolve_tcp := \<lambda>_. Inr (''127.0.0.1'', 1984)\<rparr>"
  let ?o = "flag_defaults\<lparr>Mode := ''wss'', Server := True, Cert := ''c'', Key := ''k''\<rparr>"
  have listen: "Listen ?env (Some (ResolveTCPAddr ?env (GetLocalAddr o1))) = Inr 3" for o1
    by (simp add: Listen_def ResolveTCPAddr_def demo_env_def JoinHostPort_def)
  have cert: "\<not> isl (buildServerTLSConfig ?env ?o)" by (simp add: buildServerTLSConfig_def demo_env_def)
  obtain l where run: "run_ListenerCreator ?env Ctor_NewWSSListener ?o = (Inr l, [])" "l_socket l = 3"
    using tcp_based_outcome [of Ctor_NewWSSListener ?env ?o] cert
    by (auto simp: listen late_failure_defs flag_defaults_def split: sum.splits)
  then obtain t where h: "newHandler (init_packages empty_registry :: unit plugin_registry) ?env (\<lambda>_ _. None) ?o = Inr (Handler l t)"
    by (simp add: newHandler_def listener_lookup listener_table_def NewTCPTransporter_def)
  have mode: "\<not> (Server ?o \<and> Mode ?o = ''quic'')" by (simp add: flag_defaults_def)
  have "handler_Close (\<lambda>_ open. (None, open)) (Handler l t) [3, 5] = (None, [5])"
    using handler_close [OF h, of "[5]", unfolded if_not_P [OF mode], THEN conjunct2, THEN conjunct1] run(2) by simp
  with h show ?thesis by blast
qed

end
