(* ===== verification/Delivery.thy ===== *)
theory Delivery
  imports H2Tunnel StreamTunnel
begin

text \<open>
  What the whole path of one connection achieves, besides what it never does: as long as nothing fails, every step of
  the client, the server and the network brings the data of both directions nearer to their ends, and the path
  stops only when everything has been delivered. The network takes what is written; the multiplexing
  modes, whose streams share the receive buffer of their session, are left out.
\<close>

section \<open>Connections without failures\<close>

text \<open>\<open>steady\<close> is a connection whose writes succeed and go on to succeed.\<close>

locale calm_conn = duplex_conn read remaining pending healthy write_to sunk
  for read :: "'s reader" and remaining pending healthy and write_to :: "'s writer" and sunk +
  fixes steady :: "'s \<Rightarrow> bool"
  assumes steady_write: "steady s \<Longrightarrow> \<exists>s'. write_to b s = ((length b, None), s') \<and> steady s'"
    and read_steady: "steady s \<Longrightarrow> read n s = Some (a, s') \<Longrightarrow> steady s'"
    and write_healthy: "healthy s \<Longrightarrow> write_to b s = (r, s') \<Longrightarrow> healthy s'"
    and write_pending: "write_to b s = (r, s') \<Longrightarrow> pending s' = pending s"
begin

lemma chunk_steady: "steady s \<Longrightarrow> \<exists>s'. copy_chunk write_to d s = (None, s') \<and> steady s'"
  using steady_write [of s d] by (auto simp: copy_chunk_def)

lemma chunk_healthy: "healthy s \<Longrightarrow> copy_chunk write_to d s = (ew, s') \<Longrightarrow> healthy s'"
  by (auto simp: copy_chunk_def Let_def split: if_splits prod.splits option.splits dest: write_healthy)

lemma chunk_pending: "copy_chunk write_to d s = (ew, s') \<Longrightarrow> pending s' = pending s"
  by (auto simp: copy_chunk_def Let_def split: if_splits prod.splits option.splits dest: write_pending)

text \<open>A reader with something left and no error to come gives some of it.\<close>

lemma healthy_read:
  assumes "healthy s" "remaining s \<noteq> []"
  obtains d s' where "read n s = Some ((d, None), s')" "healthy s'"
proof (cases "read n s")
  case None
  then show ?thesis using read_blocks [of n s] assms(2) by simp
next
  case (Some x)
  obtain d e s' where "x = ((d, e), s')" by (cases x) auto
  then show ?thesis using that Some read_healthy [OF assms(1)] by auto
qed

end

text \<open>The connection of a transport: no message is empty, and the network's failures are seen as errors.\<close>

locale calm_transport =
  msg_transport rd remaining pending healthy wr sunk sent arrive break +
  calm_conn rd remaining pending healthy wr sunk steady
  for rd :: "'s reader" and remaining pending healthy and wr :: "'s writer" and sunk sent arrive break steady +
  assumes write_few: "wr b s = (r, s') \<Longrightarrow> b \<noteq> [] \<Longrightarrow> length (sent s') \<le> length (sent s) + length b"
    and arrive_pending: "pending (arrive m s) \<le> Suc (pending s)"
    and arrive_healthy: "healthy s \<Longrightarrow> healthy (arrive m s)"
    and arrive_steady: "steady s \<Longrightarrow> steady (arrive m s)"
    and break_unhealthy: "\<not> healthy (break e s)"

text \<open>A TCP connection whose script is used up takes every write.\<close>

definition unscripted :: "('s, 'a) scripted \<Rightarrow> bool" where
  "unscripted s \<longleftrightarrow> sc_script s = []"

lemma unscripted_read: "unscripted s \<Longrightarrow> scripted_Read rd n s = Some (a, s') \<Longrightarrow> unscripted s'"
  by (auto simp: unscripted_def scripted_Read_Some)

definition no_errors :: "tcp_conn \<Rightarrow> bool" where
  "no_errors c \<longleftrightarrow> (\<forall>a \<in> set (tcp_answers c). snd a = None)"

interpretation calm_app: calm_conn "scripted_Read tcp_Read" "\<lambda>s. tcp_remaining (sc_conn s)" "\<lambda>s. length (tcp_answers (sc_conn s))"
  "\<lambda>s. \<forall>a \<in> set (tcp_answers (sc_conn s)). snd a = None" "scripted_Write tcp_Write_answer" "\<lambda>s. tcp_out (sc_conn s)" unscripted
  by unfold_locales
    (auto simp: unscripted_def scripted_Write_def scripted_Read_Some tcp_Write_answer_def tcp_Write_def
      split: list.splits option.splits)

section \<open>Flowing\<close>

text \<open>
  A relay that is on its way: it is dialling or both of its copies go on. The path flows if both relays are
  on their way and no error is to come at any of its four ends.
\<close>

definition under_way :: "relay \<Rightarrow> bool" where
  "under_way r \<longleftrightarrow> r_phase r = Dialing \<or> r_phase r = AwaitingErr \<and> r_toInbound r = Copying \<and> r_toOutbound r = Copying"

definition flowing :: "('s \<Rightarrow> bool) \<Rightarrow> ('s \<Rightarrow> bool) \<Rightarrow> 's tunnel \<Rightarrow> bool" where
  "flowing healthy steady t \<longleftrightarrow>
     under_way (d_relay (client_side t)) \<and> under_way (d_relay (server_side t)) \<and>
     no_errors (sc_conn (d_in (client_side t))) \<and> unscripted (d_in (client_side t)) \<and>
     healthy (d_out (client_side t)) \<and> steady (d_out (client_side t)) \<and>
     healthy (d_in (server_side t)) \<and> steady (d_in (server_side t)) \<and>
     no_errors (sc_conn (d_out (server_side t))) \<and> unscripted (d_out (server_side t))"

text \<open>
  What is left to do: bytes that have to be read and written, messages under way, answers of the system, and the
  dials. A byte counts five times before it is sent, once while it is under way and once when it has arrived; a message
  under way counts twice.
\<close>

definition dial_left :: "relay \<Rightarrow> nat" where
  "dial_left r = (if r_phase r = Dialing then 1 else 0)"

definition app_left :: "app_conn \<Rightarrow> nat" where
  "app_left s = 5 * length (tcp_remaining (sc_conn s)) + length (tcp_answers (sc_conn s))"

definition net_left :: "nat \<Rightarrow> bytes list \<Rightarrow> nat" where
  "net_left n ms = length (concat (drop n ms)) + 2 * length (drop n ms)"

definition path_left :: "('s \<Rightarrow> bytes) \<Rightarrow> ('s \<Rightarrow> nat) \<Rightarrow> ('s \<Rightarrow> bytes list) \<Rightarrow> 's tunnel \<Rightarrow> nat" where
  "path_left remaining pending msgs t =
     dial_left (d_relay (client_side t)) + dial_left (d_relay (server_side t)) +
     app_left (d_in (client_side t)) + net_left (upward t) (msgs (d_out (client_side t))) +
     length (remaining (d_in (server_side t))) + pending (d_in (server_side t)) +
     app_left (d_out (server_side t)) + net_left (downward t) (msgs (d_in (server_side t))) +
     length (remaining (d_out (client_side t))) + pending (d_out (client_side t))"

lemma net_left_append: "n \<le> length ms \<Longrightarrow> net_left n (ms @ ms') = net_left n ms + length (concat ms') + 2 * length ms'"
  by (simp add: net_left_def)

lemma net_left_Suc: "n < length ms \<Longrightarrow> net_left n ms = length (ms ! n) + 2 + net_left (Suc n) ms"
  by (simp add: net_left_def flip: Cons_nth_drop_Suc)

text \<open>The only step of a relay that is on its way and stays so, apart from the rounds, is the dial.\<close>

lemma under_way_step:
  assumes "relay_step r r'" "relay_inv r" "under_way r" "under_way r'"
    "r_toInbound r = Copying \<longrightarrow> r_toInbound r' = Copying" "r_toOutbound r = Copying \<longrightarrow> r_toOutbound r' = Copying"
  shows "dial_left r' < dial_left r"
  using assms(1)
  by cases (use assms in \<open>auto simp: under_way_def dial_left_def relay_inv_def dest!: chan_recv_Some\<close>)


section \<open>A relay that can go on\<close>

locale calm_pair =
  i: calm_conn rdI remI pI hI wrI sunkI steadyI + out: calm_conn rdO remO pO hO wrO sunkO steadyO
  for rdI :: "'i reader" and remI pI hI and wrI :: "'i writer" and sunkI steadyI
    and rdO :: "'o reader" and remO pO hO and wrO :: "'o writer" and sunkO steadyO
begin

definition calm :: "('i, 'o) duplex \<Rightarrow> bool" where
  "calm s \<longleftrightarrow> under_way (d_relay s) \<and> hI (d_in s) \<and> steadyI (d_in s) \<and> hO (d_out s) \<and> steadyO (d_out s)"

abbreviation step :: "('i, 'o) duplex \<Rightarrow> ('i, 'o) duplex \<Rightarrow> bool" where
  "step \<equiv> duplex_step rdI wrI rdO wrO"

lemma calm_dials:
  assumes "calm s" "relay_inv (d_relay s)" "r_phase (d_relay s) = Dialing"
  shows "\<exists>u. step s u \<and> calm u"
proof -
  have n: "r_toInbound (d_relay s) = NotStarted" "r_toOutbound (d_relay s) = NotStarted"
    using assms(2,3) by (auto simp: relay_inv_def)
  show ?thesis
    by (intro exI conjI, rule dial_control [OF assms(3) n]) (use assms(1) in \<open>simp add: calm_def under_way_def\<close>)
qed

lemma calm_moves_out:
  assumes "calm s" "r_phase (d_relay s) \<noteq> Dialing" "remI (d_in s) \<noteq> []"
  shows "\<exists>u. step s u \<and> calm u"
proof -
  have c: "hI (d_in s)" "steadyI (d_in s)" "hO (d_out s)" "steadyO (d_out s)"
    "r_toOutbound (d_relay s) = Copying" "r_phase (d_relay s) \<noteq> Finished" "under_way (d_relay s)"
    using assms(1,2) by (auto simp: calm_def under_way_def)
  obtain d in' where r: "rdI 32768 (d_in s) = Some ((d, None), in')" "hI in'"
    using i.healthy_read [OF c(1) assms(3)] .
  obtain out' where w: "copy_chunk wrO d (d_out s) = (None, out')" "steadyO out'"
    using out.chunk_steady [OF c(4)] by blast
  have "step s (s\<lparr>d_in := in', d_out := out', d_failed_out := False\<rparr>)"
    using round_to [of s rdI d "s\<lparr>d_in := in', d_out := out', d_failed_out := False\<rparr>" wrO] c r w by simp
  moreover have "calm (s\<lparr>d_in := in', d_out := out', d_failed_out := False\<rparr>)"
    using c r w i.read_steady [OF c(2) r(1)] out.chunk_healthy [OF c(3) w(1)] by (simp add: calm_def)
  ultimately show ?thesis by blast
qed

lemma calm_moves_in:
  assumes "calm s" "r_phase (d_relay s) \<noteq> Dialing" "remO (d_out s) \<noteq> []"
  shows "\<exists>u. step s u \<and> calm u"
proof -
  have c: "hO (d_out s)" "steadyO (d_out s)" "hI (d_in s)" "steadyI (d_in s)"
    "r_toInbound (d_relay s) = Copying" "r_phase (d_relay s) \<noteq> Finished" "under_way (d_relay s)"
    using assms(1,2) by (auto simp: calm_def under_way_def)
  obtain d out' where r: "rdO 32768 (d_out s) = Some ((d, None), out')" "hO out'"
    using out.healthy_read [OF c(1) assms(3)] .
  obtain in' where w: "copy_chunk wrI d (d_in s) = (None, in')" "steadyI in'"
    using i.chunk_steady [OF c(4)] by blast
  have "step s (s\<lparr>d_in := in', d_out := out', d_failed_in := False\<rparr>)"
    using duplex_step.round_in [where s = s and ew = None and er = None and rdO = rdO and wrI = wrI and rdI = rdI and wrO = wrO,
        OF c(5,6) r(1) w(1)] c(5)
    by (simp add: after_round_def failed_def relay_set_self)
  moreover have "calm (s\<lparr>d_in := in', d_out := out', d_failed_in := False\<rparr>)"
    using c r w out.read_steady [OF c(2) r(1)] i.chunk_healthy [OF c(3) w(1)] by (simp add: calm_def)
  ultimately show ?thesis by blast
qed

lemma calm_stuck:
  assumes "calm s" "relay_inv (d_relay s)" "\<And>u. step s u \<Longrightarrow> \<not> calm u"
  shows "remI (d_in s) = []" "remO (d_out s) = []" "r_toInbound (d_relay s) = Copying" "r_toOutbound (d_relay s) = Copying"
proof -
  have d: "r_phase (d_relay s) \<noteq> Dialing" using calm_dials [OF assms(1,2)] assms(3) by blast
  then show "remI (d_in s) = []" "remO (d_out s) = []"
    using calm_moves_out [OF assms(1)] calm_moves_in [OF assms(1)] assms(3) by blast+
  show "r_toInbound (d_relay s) = Copying" "r_toOutbound (d_relay s) = Copying"
    using assms(1) d by (auto simp: calm_def under_way_def)
qed

end

sublocale calm_transport \<subseteq> calm_cl: calm_pair "scripted_Read tcp_Read" "\<lambda>s. tcp_remaining (sc_conn s)" "\<lambda>s. length (tcp_answers (sc_conn s))"
  "\<lambda>s. \<forall>a \<in> set (tcp_answers (sc_conn s)). snd a = None" "scripted_Write tcp_Write_answer" "\<lambda>s. tcp_out (sc_conn s)" unscripted
  rd remaining pending healthy wr sunk steady
  by unfold_locales

sublocale calm_transport \<subseteq> calm_sv: calm_pair rd remaining pending healthy wr sunk steady
  "scripted_Read tcp_Read" "\<lambda>s. tcp_remaining (sc_conn s)" "\<lambda>s. length (tcp_answers (sc_conn s))"
  "\<lambda>s. \<forall>a \<in> set (tcp_answers (sc_conn s)). snd a = None" "scripted_Write tcp_Write_answer" "\<lambda>s. tcp_out (sc_conn s)" unscripted
  by unfold_locales

section \<open>Every step does something\<close>

context calm_transport begin

lemma chunk_few:
  assumes "copy_chunk wr d s = (ew, s')"
  obtains ms where "sent s' = sent s @ ms" "length (concat ms) \<le> length d" "length ms \<le> length d"
proof -
  obtain ms where ms: "sent s' = sent s @ ms" using chunk_sent [OF assms] by blast
  obtain p where p: "prefix p d" "sunk s' = sunk s @ p" using chunk_sunk [OF assms] by blast
  have "concat ms = p" using p(2) ms by (simp add: sunk_sent)
  moreover have "length (sent s') \<le> length (sent s) + length d"
    using assms by (auto simp: copy_chunk_def Let_def split: if_splits prod.splits option.splits dest: write_few)
  ultimately show ?thesis using that [of ms] ms prefix_length_le [OF p(1)] by simp
qed

text \<open>A round of a copy into the transport, and of a copy out of it.\<close>

lemma round_into:
  assumes "scripted_Read tcp_Read 32768 a = Some ((d, er), a')" "copy_chunk wr d s = (ew, s')" "n \<le> length (sent s)"
  shows "app_left a' + net_left n (sent s') < app_left a + net_left n (sent s)"
    and "remaining s' = remaining s" "pending s' = pending s"
proof -
  obtain ms where ms: "sent s' = sent s @ ms" "length (concat ms) \<le> length d" "length ms \<le> length d"
    using chunk_few [OF assms(2)] .
  have "tcp_remaining (sc_conn a) = d @ tcp_remaining (sc_conn a')" using app.read_split [OF assms(1)] .
  moreover have "length (tcp_remaining (sc_conn a')) + length (tcp_answers (sc_conn a'))
      < length (tcp_remaining (sc_conn a)) + length (tcp_answers (sc_conn a))" using app.read_progress [OF assms(1)] by simp
  ultimately show "app_left a' + net_left n (sent s') < app_left a + net_left n (sent s)"
    using ms net_left_append [OF assms(3)] by (simp add: app_left_def)
  show "remaining s' = remaining s" "pending s' = pending s"
    using chunk_remaining [OF assms(2)] chunk_pending [OF assms(2)] by simp_all
qed

lemma round_from:
  assumes "rd 32768 s = Some ((d, er), s')" "copy_chunk (scripted_Write tcp_Write_answer) d a = (ew, a')"
  shows "length (remaining s') + pending s' < length (remaining s) + pending s"
    and "app_left a' = app_left a" "sent s' = sent s"
  using read_progress [OF assms(1)] read_sent [OF assms(1)] app.chunk_remaining [OF assms(2)] calm_app.chunk_pending [OF assms(2)]
  by (simp_all add: app_left_def)

abbreviation step :: "'s tunnel \<Rightarrow> 's tunnel \<Rightarrow> bool" where
  "step \<equiv> tunnel_step rd wr sent arrive break"

abbreviation left :: "'s tunnel \<Rightarrow> nat" where
  "left \<equiv> path_left remaining pending sent"

lemma client_left:
  assumes "duplex_step (scripted_Read tcp_Read) (scripted_Write tcp_Write_answer) rd wr (client_side t) c"
    and "relay_inv (d_relay (client_side t))" "upward t \<le> length (sent (d_out (client_side t)))"
    and "under_way (d_relay (client_side t))" "under_way (d_relay c)"
  shows "left (t\<lparr>client_side := c\<rparr>) < left t"
  using assms(1)
proof (cases rule: duplex_step.cases)
  case (control r)
  then show ?thesis using under_way_step [of "d_relay (client_side t)" r] assms by (simp add: path_left_def)
next
  case (round_in d er out' ew in')
  then show ?thesis using round_from [OF round_in(4,5)] assms(4)
    by (simp add: path_left_def under_way_def dial_left_def)
next
  case (round_out d er in' ew out')
  then show ?thesis using round_into [OF round_out(4,5) assms(3)] assms(4)
    by (simp add: path_left_def under_way_def dial_left_def)
qed (use assms in \<open>simp_all add: under_way_def\<close>)

lemma server_left:
  assumes "duplex_step rd wr (scripted_Read tcp_Read) (scripted_Write tcp_Write_answer) (server_side t) c"
    and "relay_inv (d_relay (server_side t))" "downward t \<le> length (sent (d_in (server_side t)))"
    and "under_way (d_relay (server_side t))" "under_way (d_relay c)"
  shows "left (t\<lparr>server_side := c\<rparr>) < left t"
  using assms(1)
proof (cases rule: duplex_step.cases)
  case (control r)
  then show ?thesis using under_way_step [of "d_relay (server_side t)" r] assms by (simp add: path_left_def)
next
  case (round_out d er in' ew out')
  then show ?thesis using round_from [OF round_out(4,5)] assms(4)
    by (simp add: path_left_def under_way_def dial_left_def)
next
  case (round_in d er out' ew in')
  then show ?thesis using round_into [OF round_in(4,5) assms(3)] assms(4)
    by (simp add: path_left_def under_way_def dial_left_def)
qed (use assms in \<open>simp_all add: under_way_def\<close>)

lemma flowing_step_left:
  assumes "step t u" "flowing healthy steady t" "flowing healthy steady u" "tunnel_inv appl early target0 targ late appl0 t"
  shows "left u < left t"
proof -
  have r: "relay_inv (d_relay (client_side t))" "relay_inv (d_relay (server_side t))"
    and n: "upward t \<le> length (sent (d_out (client_side t)))" "downward t \<le> length (sent (d_in (server_side t)))"
    using tunnel_relays [OF assms(4)] assms(4) by (simp_all add: tunnel_inv_def)
  show ?thesis using assms(1)
  proof (cases rule: tunnel_step.cases)
    case (client c)
    then show ?thesis using client_left [of t c] r n assms(2,3) by (simp add: flowing_def)
  next
    case (server c)
    then show ?thesis using server_left [of t c] r n assms(2,3) by (simp add: flowing_def)
  next
    case up
    then show ?thesis using arrive_pending [of "sent (d_out (client_side t)) ! upward t" "d_in (server_side t)"]
      by (simp add: path_left_def net_left_Suc arrive_remaining arrive_sent)
  next
    case down
    then show ?thesis using arrive_pending [of "sent (d_in (server_side t)) ! downward t" "d_out (client_side t)"]
      by (simp add: path_left_def net_left_Suc arrive_remaining arrive_sent)
  qed (use assms(3) in \<open>simp_all add: flowing_def break_unhealthy\<close>)
qed

section \<open>When nothing moves\<close>

lemma flowing_calm: "flowing healthy steady t \<longleftrightarrow> calm_cl.calm (client_side t) \<and> calm_sv.calm (server_side t)"
  by (auto simp: flowing_def calm_cl.calm_def calm_sv.calm_def no_errors_def)

lemma flowing_stuck:
  assumes "flowing healthy steady t" "tunnel_inv appl early target0 targ late appl0 t"
    and stuck: "\<And>u. step t u \<Longrightarrow> \<not> flowing healthy steady u"
  shows "quiet_up remaining sent t" "quiet_down remaining sent t"
proof -
  have r: "relay_inv (d_relay (client_side t))" "relay_inv (d_relay (server_side t))" using tunnel_relays [OF assms(2)] by simp_all
  have c: "calm_cl.calm (client_side t)" "calm_sv.calm (server_side t)" using assms(1) by (simp_all add: flowing_calm)
  have cl: "\<not> calm_cl.calm u" if "calm_cl.step (client_side t) u" for u
    using stuck [OF tunnel_step.client [OF that]] c by (simp add: flowing_calm)
  have sv: "\<not> calm_sv.calm u" if "calm_sv.step (server_side t) u" for u
    using stuck [OF tunnel_step.server [OF that]] c by (simp add: flowing_calm)
  note cl = calm_cl.calm_stuck [OF c(1) r(1) cl] and sv = calm_sv.calm_stuck [OF c(2) r(2) sv]
  have "\<not> upward t < length (sent (d_out (client_side t)))"
    using stuck [OF tunnel_step.up] c
    by (auto simp: flowing_calm calm_sv.calm_def intro: arrive_healthy arrive_steady)
  moreover have "\<not> downward t < length (sent (d_in (server_side t)))"
    using stuck [OF tunnel_step.down] c
    by (auto simp: flowing_calm calm_cl.calm_def intro: arrive_healthy arrive_steady)
  moreover have "\<not> d_failed_out (client_side t)" "\<not> d_failed_in (client_side t)" "\<not> d_failed_out (server_side t)" "\<not> d_failed_in (server_side t)"
    using assms(2) cl(3,4) sv(3,4) by (auto simp: tunnel_inv_def cl.pair_inv_def sv.pair_inv_def flow_def)
  ultimately show "quiet_up remaining sent t" "quiet_down remaining sent t"
    using assms(2) cl(1,2) sv(1,2) by (simp_all add: quiet_up_def quiet_down_def tunnel_inv_def)
qed

end

section \<open>Runs without failures\<close>

definition flowing_step ::
  "('s \<Rightarrow> bool) \<Rightarrow> ('s \<Rightarrow> bool) \<Rightarrow> ('s tunnel \<Rightarrow> 's tunnel \<Rightarrow> bool) \<Rightarrow> 's tunnel \<Rightarrow> 's tunnel \<Rightarrow> bool" where
  "flowing_step healthy steady step t u \<longleftrightarrow> step t u \<and> flowing healthy steady u"

context calm_transport begin

abbreviation flows :: "'s tunnel \<Rightarrow> 's tunnel \<Rightarrow> bool" where
  "flows \<equiv> flowing_step healthy steady step"

lemma flows_run:
  assumes "(flows ^^ k) t u" "flowing healthy steady t" "tunnel_inv appl early target0 targ late appl0 t"
  shows "k + left u \<le> left t \<and> flowing healthy steady u \<and> tunnel_inv appl early target0 targ late appl0 u"
  using assms(1)
proof (induction k arbitrary: u)
  case 0
  then show ?case using assms(2,3) by simp
next
  case (Suc k)
  then obtain v where v: "(flows ^^ k) t v" "flows v u" by auto
  note iv = Suc.IH [OF v(1)]
  have u: "step v u" "flowing healthy steady u" using v(2) by (simp_all add: flowing_step_def)
  have "left u < left v" using flowing_step_left [OF u(1) _ u(2)] iv by blast
  then show ?case using iv u tunnel_inv_step [OF u(1)] by auto
qed

lemma flows_delivers:
  assumes "(flows ^^ k) t u" "flowing healthy steady t" "tunnel_inv appl early target0 targ late appl0 t"
  shows "k \<le> left t"
    and "(\<And>v. \<not> flows u v) \<Longrightarrow> target_received u = target0 @ early @ appl \<and> app_received u = appl0 @ late @ targ"
proof -
  note run = flows_run [OF assms]
  then show "k \<le> left t" by simp
  assume "\<And>v. \<not> flows u v"
  then have s: "\<And>v. step u v \<Longrightarrow> \<not> flowing healthy steady v" by (simp add: flowing_step_def)
  have inv: "tunnel_inv appl early target0 targ late appl0 u" and f: "flowing healthy steady u" using run by blast+
  show "target_received u = target0 @ early @ appl \<and> app_received u = appl0 @ late @ targ"
    using tunnel_faithful(3,4) [OF inv] flowing_stuck [OF f inv s] by blast
qed

lemma flows_end:
  assumes "flowing healthy steady t" "tunnel_inv appl early target0 targ late appl0 t"
  shows "\<exists>k u. (flows ^^ k) t u \<and> (\<forall>v. \<not> flows u v)"
  using assms
proof (induction "left t" arbitrary: t rule: less_induct)
  case less
  show ?case
  proof (cases "\<exists>v. flows t v")
    case True
    then obtain v where v: "flows t v" by blast
    then have f: "step t v" "flowing healthy steady v" by (simp_all add: flowing_step_def)
    obtain k u where "(flows ^^ k) v u" "\<forall>v. \<not> flows u v"
      using less.hyps [OF flowing_step_left [OF f(1) less.prems(1) f(2) less.prems(2)] f(2) tunnel_inv_step [OF f(1) less.prems(2)]]
      by blast
    then show ?thesis using relpowp_Suc_I2 [of flows t v k u, OF v] by blast
  next
    case False
    then show ?thesis by (intro exI [of _ 0] exI [of _ t]) simp
  qed
qed

text \<open>The bound for a path at its start, whose ends have nothing in them yet.\<close>

lemma left_start:
  "sent c = [] \<Longrightarrow> sent s = [] \<Longrightarrow>
     left (tunnel_start application app_script c s target target_script) =
       5 * (length (tcp_remaining application) + length (tcp_remaining target)) +
       length (tcp_answers application) + length (tcp_answers target) +
       length (remaining c) + pending c + length (remaining s) + pending s + 2"
  by (simp add: path_left_def tunnel_start_def duplex_start_def app_left_def net_left_def dial_left_def relay_start_def)

lemma flowing_start:
  "no_errors application \<Longrightarrow> no_errors target \<Longrightarrow> healthy c \<Longrightarrow> healthy s \<Longrightarrow> steady c \<Longrightarrow> steady s \<Longrightarrow>
     flowing healthy steady (tunnel_start application [] c s target [])"
  by (simp add: flowing_def tunnel_start_def duplex_start_def under_way_def relay_start_def unscripted_def)

lemma start_delivers:
  assumes ends: "no_errors application" "no_errors target" "healthy c" "healthy s" "steady c" "steady s"
    and new: "sent c = []" "sent s = []"
    and run: "(flows ^^ k) (tunnel_start application [] c s target []) t"
  shows "k \<le> 5 * (length (tcp_remaining application) + length (tcp_remaining target)) +
      length (tcp_answers application) + length (tcp_answers target) +
      length (remaining c) + pending c + length (remaining s) + pending s + 2 \<and>
    ((\<forall>u. \<not> flows t u) \<longrightarrow>
       target_received t = tcp_out target @ remaining s @ tcp_remaining application \<and>
       app_received t = tcp_out application @ remaining c @ tcp_remaining target)"
  using flows_delivers [OF run flowing_start [OF ends] tunnel_inv_start [OF new]] left_start [OF new] by simp

lemma start_runs:
  assumes "no_errors application" "no_errors target" "healthy c" "healthy s" "steady c" "steady s" "sent c = []" "sent s = []"
  shows "\<exists>k t. (flows ^^ k) (tunnel_start application [] c s target []) t \<and> (\<forall>u. \<not> flows t u)"
  using flows_end [OF flowing_start [OF assms(1-6)] tunnel_inv_start [OF assms(7,8)]] .

end

section \<open>The modes\<close>

lemma unscripted_simps [simp]: "unscripted \<lparr>sc_conn = c, sc_script = script\<rparr> \<longleftrightarrow> script = []"
  by (simp add: unscripted_def)

lemma unscripted_write: "unscripted s \<Longrightarrow> scripted_Write wr b s = (case wr None b (sc_conn s) of (r, c) \<Rightarrow> (r, s\<lparr>sc_conn := c\<rparr>))"
  by (simp add: unscripted_def scripted_Write_def)

text \<open>A connection whose writes succeed unless the script says otherwise.\<close>

lemma scripted_calm:
  fixes rd :: "'s reader" and wr :: "'a option \<Rightarrow> 's writer"
  assumes conn: "\<And>a. duplex_conn rd remaining pending healthy (wr a) sunk"
    and ok: "\<And>b c. \<exists>c'. wr None b c = ((length b, None), c')"
    and keeps: "\<And>a b c r c'. wr a b c = (r, c') \<Longrightarrow> pending c' = pending c \<and> (healthy c \<longrightarrow> healthy c')"
  shows "calm_conn (scripted_Read rd) (\<lambda>s. remaining (sc_conn s)) (\<lambda>s. pending (sc_conn s)) (\<lambda>s. healthy (sc_conn s))
    (scripted_Write wr) (\<lambda>s. sunk (sc_conn s)) unscripted"
proof (intro calm_conn.intro calm_conn_axioms.intro scripted_conn [OF conn])
  fix s :: "('s, 'a) scripted" and b assume u: "unscripted s"
  obtain c' where "wr None b (sc_conn s) = ((length b, None), c')" using ok by blast
  with u show "\<exists>s'. scripted_Write wr b s = ((length b, None), s') \<and> unscripted s'"
    by (simp add: unscripted_write) (simp add: unscripted_def)
next
  fix s s' :: "('s, 'a) scripted" and n a assume "unscripted s" "scripted_Read rd n s = Some (a, s')"
  then show "unscripted s'" by (rule unscripted_read)
next
  fix s s' :: "('s, 'a) scripted" and b r assume "scripted_Write wr b s = (r, s')"
  from scripted_Write_cases [OF this] show "pending (sc_conn s') = pending (sc_conn s)" using keeps by blast
next
  fix s s' :: "('s, 'a) scripted" and b r assume h: "healthy (sc_conn s)" and "scripted_Write wr b s = (r, s')"
  from scripted_Write_cases [OF this(2)] h show "healthy (sc_conn s')" using keeps by blast
qed

lemma writes_succeed:
  "gun_Write None b c = ((length b, None), c\<lparr>gun_sent := gun_sent c @ [b]\<rparr>)"
  "ws_Write None b w = ((length b, None), w\<lparr>ws_sent := ws_sent w @ [b]\<rparr>)"
  "stream_Write None b s = ((length b, None), s\<lparr>se_out := se_out s @ b\<rparr>)"
  by (simp_all add: gun_Write_def ws_Write_def stream_Write_def)

lemma quic_write_succeeds: "\<exists>c'. quic_Write (stream_Write None) b c = ((length b, None), c')"
  by (simp add: quic_Write_def stream_Write_def)

lemma gun_Write_keeps: "gun_Write a b c = (r, c') \<Longrightarrow> gun_recv c' = gun_recv c \<and> length (gun_sent c') \<le> Suc (length (gun_sent c))"
  by (auto simp: gun_Write_def split: option.splits)

lemma ws_Write_keeps: "ws_Write a b c = (r, c') \<Longrightarrow> ws_answers c' = ws_answers c \<and> length (ws_sent c') \<le> Suc (length (ws_sent c))"
  by (auto simp: ws_Write_def split: if_splits)

lemma stream_Write_keeps: "stream_Write a b s = (r, s') \<Longrightarrow> se_errs s' = se_errs s \<and> length (se_out s') \<le> length (se_out s) + length b"
  by (auto simp: stream_Write_def split: option.splits)

lemma few_messages: "n' \<le> Suc n \<Longrightarrow> b \<noteq> [] \<Longrightarrow> n' \<le> n + length b"
  by (cases b) simp_all

interpretation gun_calm: calm_transport "scripted_Read gun_Read" "\<lambda>s. gun_remaining (sc_conn s)" "\<lambda>s. length (gun_recv (sc_conn s))"
  "\<lambda>s. \<forall>a \<in> set (gun_recv (sc_conn s)). \<not> isl a" "scripted_Write gun_Write" "\<lambda>s. concat (gun_sent (sc_conn s))"
  "\<lambda>s. gun_sent (sc_conn s)" gun_arrive gun_break unscripted
  by (intro calm_transport.intro calm_transport_axioms.intro scripted_calm gun_answer_conn gun_transport.msg_transport_axioms)
    (auto simp: writes_succeed gun_arrive_def gun_break_def unscripted_def dest!: scripted_Write_cases gun_Write_keeps
      intro: few_messages)

interpretation ws_calm: calm_transport "scripted_Read ws_Read" "\<lambda>s. ws_remaining (sc_conn s)" "\<lambda>s. length (ws_answers (sc_conn s))"
  "\<lambda>s. \<forall>a \<in> set (ws_answers (sc_conn s)). snd a = None" "scripted_Write ws_Write" "\<lambda>s. concat (ws_sent (sc_conn s))"
  "\<lambda>s. ws_sent (sc_conn s)" ws_arrive ws_break unscripted
  by (intro calm_transport.intro calm_transport_axioms.intro scripted_calm ws_answer_conn ws_transport.msg_transport_axioms)
    (auto simp: writes_succeed ws_arrive_def ws_break_def unscripted_def dest!: scripted_Write_cases ws_Write_keeps
      intro: few_messages)

interpretation stream_calm: calm_transport "scripted_Read stream_Read" "\<lambda>s. se_rb (sc_conn s)" "\<lambda>s. length (se_errs (sc_conn s))"
  "\<lambda>s. se_errs (sc_conn s) = []" "scripted_Write stream_Write" "\<lambda>s. se_out (sc_conn s)"
  "\<lambda>s. stream_bytes (sc_conn s)" "\<lambda>m. on_conn (stream_arrive m)" "\<lambda>e. on_conn (stream_break e)" unscripted
  by (intro calm_transport.intro calm_transport_axioms.intro scripted_calm stream_answer_conn stream_transport.msg_transport_axioms)
    (auto simp: writes_succeed stream_bytes_def on_conn_def stream_arrive_def stream_break_def unscripted_def
      dest!: scripted_Write_cases stream_Write_keeps)

interpretation quic_calm: calm_transport "scripted_Read (quic_Read stream_Read)" "\<lambda>s. se_rb (quic_stream (sc_conn s))"
  "\<lambda>s. length (se_errs (quic_stream (sc_conn s)))" "\<lambda>s. se_errs (quic_stream (sc_conn s)) = []"
  "scripted_Write (\<lambda>a. quic_Write (stream_Write a))" "\<lambda>s. se_out (quic_stream (sc_conn s))"
  "\<lambda>s. stream_bytes (quic_stream (sc_conn s))" "\<lambda>m. on_conn (on_stream (stream_arrive m))" "\<lambda>e. on_conn (on_stream (stream_break e))" unscripted
  by (intro calm_transport.intro calm_transport_axioms.intro scripted_calm quic_answer_conn quic_transport.msg_transport_axioms)
    (auto simp: quic_write_succeeds stream_bytes_def on_conn_def on_stream_def stream_arrive_def stream_break_def unscripted_def
      dest!: scripted_Write_cases quic_Write_stream stream_Write_keeps)


text \<open>The writes of HTTP/2 succeed until the connection is closed.\<close>

definition h2_open :: "h2_conn \<Rightarrow> bool" where
  "h2_open s \<longleftrightarrow> unscripted s \<and> \<not> http_isClosed (h2_http (sc_conn s))"

lemma h2_Write_open:
  assumes "\<not> http_isClosed (h2_http c)"
  shows "\<exists>c'. h2_Write None b c = ((length b, None), c') \<and> \<not> http_isClosed (h2_http c')"
  using assms by (auto simp: h2_Write_def h2_answer_def http_Write_def http_forward_def http_isClosed_def Let_def split: prod.splits)

lemma h2_Write_keeps: "h2_Write a b c = (r, c') \<Longrightarrow> h2_body c' = h2_body c \<and> length (h2_sent c') \<le> Suc (length (h2_sent c))"
  by (auto simp: h2_Write_def split: prod.splits if_splits)

interpretation h2_calm: calm_transport "scripted_Read h2_Read" "\<lambda>s. h2_remaining (sc_conn s)"
  "\<lambda>s. length (tcp_answers (h2_body (sc_conn s)))" "\<lambda>s. \<forall>a \<in> set (tcp_answers (h2_body (sc_conn s))). snd a = None"
  "scripted_Write h2_Write" "\<lambda>s. concat (h2_sent (sc_conn s))" "\<lambda>s. h2_sent (sc_conn s)" h2_arrive h2_break h2_open
proof (intro calm_transport.intro calm_conn.intro calm_conn_axioms.intro calm_transport_axioms.intro
    h2_transport.msg_transport_axioms h2c.duplex_conn_axioms)
  fix s :: h2_conn and b assume s: "h2_open s"
  then obtain c' where "h2_Write None b (sc_conn s) = ((length b, None), c')" "\<not> http_isClosed (h2_http c')"
    using h2_Write_open [of "sc_conn s" b] by (auto simp: h2_open_def)
  with s show "\<exists>s'. scripted_Write h2_Write b s = ((length b, None), s') \<and> h2_open s'"
    by (simp add: h2_open_def unscripted_write) (simp add: unscripted_def)
next
  fix s s' :: h2_conn and n a assume s: "h2_open s" and r: "scripted_Read h2_Read n s = Some (a, s')"
  then show "h2_open s'" using unscripted_read [OF _ r] by (auto simp: h2_open_def scripted_Read_Some h2_Read_Some)
qed (auto simp: h2_open_def h2_arrive_def h2_break_def unscripted_def dest!: scripted_Write_cases h2_Write_keeps intro: few_messages)

section \<open>Properties\<close>

lemma new_gun:
  "gun_sent (NewGunConnection [] pr lo) = []" "gun_recv (NewGunConnection [] pr lo) = []"
  "gun_remaining (NewGunConnection [] pr lo) = []"
  by (simp_all add: NewGunConnection_def gun_remaining_def)

abbreviation gun_flows :: "gun_conn tunnel \<Rightarrow> gun_conn tunnel \<Rightarrow> bool" where
  "gun_flows \<equiv> flowing_step (\<lambda>s. \<forall>a \<in> set (gun_recv (sc_conn s)). \<not> isl a) unscripted gun_step"

text \<open>
  C7: In gun mode everything is delivered unless something fails. From the start, for an application and a target
  that give no errors, every run of a client, a server and the network in which nothing fails is finite: it has at
  most five steps for every byte, one for every answer of the system and one for each dial; and when no step is
  left, the target has received all the application sends and the application all the target sends.
\<close>

theorem gun_delivers:
  assumes "no_errors application" "no_errors target"
    and "(gun_flows ^^ k) (gun_start application [] [] cpr [] spr loc target []) t"
  shows "k \<le> 5 * (length (tcp_remaining application) + length (tcp_remaining target)) +
      length (tcp_answers application) + length (tcp_answers target) + 2 \<and>
    ((\<forall>u. \<not> gun_flows t u) \<longrightarrow>
       target_received t = tcp_out target @ tcp_remaining application \<and>
       app_received t = tcp_out application @ tcp_remaining target)"
  using gun_calm.start_delivers [OF assms(1,2) _ _ _ _ _ _ assms(3) [unfolded gun_start_def]] by (simp add: new_gun)

theorem gun_delivers_witness:
  "\<exists>k t. (gun_flows ^^ k) (gun_start (idle_tcp [''ab'']) [] [] None [] None None (idle_tcp []) []) t \<and>
     k \<le> 13 \<and> target_received t = ''ab''"
proof -
  have n: "no_errors (idle_tcp ms)" for ms by (simp add: no_errors_def idle_tcp_def)
  let ?c = "\<lparr>sc_conn = NewGunConnection [] None None, sc_script = []\<rparr> :: gun_conn"
  obtain k t where run: "(gun_flows ^^ k) (gun_start (idle_tcp [''ab'']) [] [] None [] None None (idle_tcp []) []) t"
      "\<forall>u. \<not> gun_flows t u"
    using gun_calm.start_runs [of "idle_tcp [''ab'']" "idle_tcp []" ?c ?c] n by (auto simp: new_gun gun_start_def)
  from gun_delivers [OF n n run(1)] run(2) have "k \<le> 13 \<and> target_received t = ''ab''"
    by (simp add: idle_tcp_def tcp_remaining_def)
  with run(1) show ?thesis by blast
qed

abbreviation ws_flows :: "ws_conn tunnel \<Rightarrow> ws_conn tunnel \<Rightarrow> bool" where
  "ws_flows \<equiv> flowing_step (\<lambda>s. \<forall>a \<in> set (ws_answers (sc_conn s)). snd a = None) unscripted ws_step"

text \<open>
  C8: Over websockets everything is delivered unless something fails, the data of the upgrade header included.
  From the start, for an application and a target that give no errors, every run of a client, a server and the
  network in which nothing fails is finite, with the bytes of the header counted once; and when no step is left,
  the target has received the early data and then all the application sends, and the application all the
  target sends.
\<close>

theorem ws_delivers:
  assumes "no_errors application" "no_errors target"
    and "(ws_flows ^^ k) (ws_start application [] [] early [] target []) t"
  shows "k \<le> 5 * (length (tcp_remaining application) + length (tcp_remaining target)) +
      length (tcp_answers application) + length (tcp_answers target) + length early + 2 \<and>
    ((\<forall>u. \<not> ws_flows t u) \<longrightarrow>
       target_received t = tcp_out target @ early @ tcp_remaining application \<and>
       app_received t = tcp_out application @ tcp_remaining target)"
  using ws_calm.start_delivers [OF assms(1,2) _ _ _ _ _ _ assms(3) [unfolded ws_start_def]]
  by (simp add: NewWebsocketConn_def websocketServerConn_def ws_remaining_def)

theorem ws_delivers_witness:
  "\<exists>k t. (ws_flows ^^ k) (ws_start (idle_tcp [''ab'']) [] [] ''hi'' [] (idle_tcp []) []) t \<and>
     k \<le> 15 \<and> target_received t = ''hiab''"
proof -
  have n: "no_errors (idle_tcp ms)" for ms by (simp add: no_errors_def idle_tcp_def)
  obtain k t where run: "(ws_flows ^^ k) (ws_start (idle_tcp [''ab'']) [] [] ''hi'' [] (idle_tcp []) []) t"
      "\<forall>u. \<not> ws_flows t u"
    using ws_calm.start_runs [of "idle_tcp [''ab'']" "idle_tcp []" "\<lparr>sc_conn = NewWebsocketConn [] [], sc_script = []\<rparr>"
        "\<lparr>sc_conn = websocketServerConn [] ''hi'', sc_script = []\<rparr>"] n
    by (auto simp: ws_start_def NewWebsocketConn_def websocketServerConn_def)
  from ws_delivers [OF n n run(1)] run(2) have "k \<le> 15 \<and> target_received t = ''hiab''"
    by (simp add: idle_tcp_def tcp_remaining_def)
  with run(1) show ?thesis by blast
qed

text \<open>The same over HTTP/2 and over QUIC.\<close>

theorem h2_delivers:
  assumes "no_errors application" "no_errors target"
    and "(h2_calm.flows ^^ k) (h2_start application [] [] cpr [] spr loc target []) t"
  shows "k \<le> 5 * (length (tcp_remaining application) + length (tcp_remaining target)) +
      length (tcp_answers application) + length (tcp_answers target) + 2 \<and>
    ((\<forall>u. \<not> h2_calm.flows t u) \<longrightarrow>
       target_received t = tcp_out target @ tcp_remaining application \<and>
       app_received t = tcp_out application @ tcp_remaining target)"
  using h2_calm.start_delivers [OF assms(1,2) _ _ _ _ _ _ assms(3) [unfolded h2_start_def]]
  by (simp add: h2_end_start_def NewHttpConnection_def http_isClosed_def h2_remaining_def tcp_remaining_def h2_open_def)

theorem quic_delivers:
  assumes "no_errors application" "no_errors target"
    and "(quic_calm.flows ^^ k) (quic_start application [] csz caddr [] ssz saddr [] target []) t"
  shows "k \<le> 5 * (length (tcp_remaining application) + length (tcp_remaining target)) +
      length (tcp_answers application) + length (tcp_answers target) + 2 \<and>
    ((\<forall>u. \<not> quic_calm.flows t u) \<longrightarrow>
       target_received t = tcp_out target @ tcp_remaining application \<and>
       app_received t = tcp_out application @ tcp_remaining target)"
  using quic_calm.start_delivers [OF assms(1,2) _ _ _ _ _ _ assms(3) [unfolded quic_start_def]]
  by (simp add: stream_fresh_def stream_bytes_def NewQUICConn_def)

end
