(* ===== verification/Spec2Isabelle.thy ===== *)
theory Spec2Isabelle
  imports Startup H2Tunnel MuxTunnel Lifecycle ConnMeta Serving EarlyTunnel ListenerOps Delivery
begin

text \<open>
  A verification development for gost-plugin, a SIP003 plugin of shadowsocks written in Go. The
  plugin is one program in two roles. The client accepts TCP connections from the application and
  dials a transport to the server for each; the server accepts connections of that transport and
  dials the target over TCP. The option \<open>mode\<close> chooses one of eleven transports for both roles.

  Parts of the program and the theories that model them. The development follows the order in
  which the code runs.

  \<^item> \<open>GoPrelude\<close>, \<open>GoStrings\<close>, \<open>IPText\<close>: what the program uses of the language and its standard
    library: errors as values, slices with bounds checks, 64-bit words for \<open>uint\<close>,
    \<open>strconv.ParseUint\<close>, \<open>net.SplitHostPort\<close>, \<open>net.ParseIP\<close>. The locale \<open>step_invariant\<close> is the
    contract of an invariant of a step relation.
  \<^item> \<open>Args\<close>, \<open>ApplyOptions\<close> (src/args/args.go): the record \<open>Options\<close> with the fields of the Go structure, the
    parser of plugin options with the loop over byte positions that the code has, the encoder, the
    SIP003 environment, and \<open>ApplyOptions\<close> as the list of its twenty conditional assignments. The
    argument map is an association list in the order of first insertion.
  \<^item> \<open>Registry\<close> (src/registry/registry.go and every \<open>init\<close> function of src/gost/proxy): the two tables of
    constructors by mode, with a locale for a table and its interpretation on both; the names of the
    constructors are data, interpreted by \<open>run_ListenerCreator\<close> and \<open>run_TransporterCreator\<close>.
  \<^item> \<open>AncilFd\<close>, \<open>Hooks\<close> (src/hook): the socket controllers as sequences of system calls against a kernel that
    answers from the history of calls. The C functions of vpn_android.go fill in a control message in
    an object of bytes, where a store outside the object is undefined.
  \<^item> \<open>ConnQueue\<close>, \<open>ErrorTexts\<close>, \<open>Accepting\<close> (src/gost/proxy/tcp.go, src/errors/error.go,
    src/gost/proxy/server/quic.go): the accept loops, which hand connections to a bounded queue. A loop is a
    function of the sequence of events it meets: accepted connections, accept errors, and what other
    goroutines do to the queue between them. The queue has the contract \<open>conn_queue\<close>.
  \<^item> \<open>MuxPool\<close> (src/mux): the pool of smux sessions, its dial and its clean-up loop. smux is a record of
    functions; the random identifier and the order of a map traversal are arguments. Dials and
    sweeps interleave in the step relation \<open>pool_step\<close>.
  \<^item> \<open>Streams\<close>, \<open>HttpConn\<close> (src/gost/protocol): the connections that turn a message service into a byte
    stream. A connection is a record of the answers still to come, the unread rest of the last
    message and what has been sent. The locale \<open>byte_reader\<close> is the contract of a reader. \<open>ConnMeta\<close> has
    their addresses, deadlines and \<open>Done\<close> channels.
  \<^item> \<open>Base64\<close>, \<open>WsProxy\<close> (src/gost/proxy/client/ws.go, src/gost/proxy/server/ws.go, mws.go): websockets with the
    delayed dial that carries the first bytes in the upgrade header. \<open>dd_step\<close> interleaves the
    calls of the goroutines that share a delayed connection.
  \<^item> \<open>TlsClient\<close> (src/gost/proxy/client/tls.go, grpc_tls.go): the TLS configuration, the uTLS handshake and the
    gRPC credentials.
  \<^item> \<open>Transporters\<close>, \<open>Listeners\<close> (the rest of src/gost): constructors and dials, opening of sockets,
    handlers of the HTTP and gRPC servers, dials through a pool, and the layers that each of them puts
    on the wire.
  \<^item> \<open>Relay\<close> (src/handler.go): \<open>copyBuffer\<close>, the loop of \<open>io.Copy\<close> over any reader and any writer (locales
    \<open>byte_sink\<close> and \<open>copy_pipe\<close>, interpreted on the connections of the modes), the goroutines of one
    relayed connection as the step relation \<open>relay_step\<close>, the accept loop, and the choice of
    listener and transporter by role.
  \<^item> \<open>Duplex\<close> (src/handler.go): the same goroutines with the data they copy, round by round, as the step
    relation \<open>duplex_step\<close>; it refines \<open>relay_step\<close>. What the system and the libraries answer to writes is a
    script in the state of a connection (\<open>scripted\<close>). The locales \<open>duplex_conn\<close> and \<open>duplex_pair\<close> are the
    contracts of one connection and of the two of a relay.
  \<^item> \<open>Tunnel\<close>, \<open>H2Tunnel\<close>: the relay of a client, the relay of a server and the network between them, all
    steps interleaved. The locale \<open>msg_transport\<close> is the contract of a transport that carries messages,
    interpreted on gun, websockets, HTTP/2 and byte streams.
  \<^item> \<open>EarlyTunnel\<close>: the same path with the delayed dial (src/gost/proxy/client/ws.go): the server's connection comes
    into being when the upgrade handler meets the request of the client's first write. Guarded to the
    states it can be in, the delayed connection meets the contract \<open>duplex_conn\<close>; the guards are never met.
  \<^item> \<open>StreamTunnel\<close> (src/gost/protocol/quic/conn.go): the same path over byte streams that keep no boundaries, as they
    are and as the QUIC mode wraps them; how the bytes are cut into reads is part of the state of an end.
  \<^item> \<open>MuxTunnel\<close> (src/mux/mux.go, src/gost/proxy/tcp.go, src/handler.go): a client and a server of a multiplexing
    mode with all their connections: the pool, the streams the server has still to accept, its queue, and
    a path for each connection, interleaved in \<open>mux_step\<close>.
  \<^item> \<open>Delivery\<close>: the path of one connection as long as nothing fails. The locale \<open>calm_transport\<close> is a transport whose connections
    can go on without errors, interpreted on gun, websockets, HTTP/2, byte streams and QUIC; a measure counts
    what is left to move.
  \<^item> \<open>ListenerOps\<close> (src/gost/proxy/tcp.go, src/gost/proxy/server, src/handler.go): \<open>Close\<close>, \<open>AcceptConn\<close> and \<open>Serve\<close> of
    every type of listener, own or by embedding, on a state of open sockets.
  \<^item> \<open>Serving\<close> (src/handler.go, src/gost/proxy/server/gun.go, h2.go): a server with any number of connections:
    their handlers, the queue, and a relay for each, interleaved in \<open>serving_step\<close>; \<open>drain_step\<close> is the part of it
    that only finishes what is there, with a measure that bounds it. The locale \<open>closable_conn\<close>
    is a connection that panics when it is closed twice, interpreted on gun and HTTP/2.
  \<^item> \<open>GoFlag\<close>, \<open>CommandLine\<close> (src/main.go): the flag package as far as the program uses it, and the twenty-one
    flags with their variables.
  \<^item> \<open>Startup\<close> (src/main.go, src/log/log.go): from the arguments of the process and the environment to the
    running handler or the exit status, and the wrappers around the logger.
  \<^item> \<open>Lifecycle\<close> (src/main.go, src/handler.go): the running program: the accept loop of the listener, the goroutine
    that starts the relays, and the signal that cancels the context and closes the listener. The locale
    \<open>accept_loop\<close> is what the shutdown relies on, interpreted on the three loops.

  What the properties show. Across components: in every reachable state of a client, a server and the
  network between them, whatever fails, each end has received a prefix of what the other sends, and
  everything when nothing failed and nothing is left to move (\<open>Tunnel\<close>, \<open>H2Tunnel\<close>, \<open>EarlyTunnel\<close>, \<open>StreamTunnel\<close>),
  also when many connections share their sessions (\<open>MuxTunnel\<close>); without failures the path of a connection over gun,
  websockets, HTTP/2 or QUIC comes to such an end within a bound on its steps (\<open>Delivery\<close>); a client and a server in
  the same mode have the same stack of layers between them (here); the program serves exactly when
  its command line, environment, mode and sockets allow (\<open>Startup\<close>); its shutdown ends the accept loops
  (\<open>Lifecycle\<close>) and closes the socket that was opened, which for a QUIC server is left to the library (\<open>ListenerOps\<close>); a server closes no connection twice and
  drains (\<open>Serving\<close>). In the components: every setting of the flags is read back from the line that writes it
  (\<open>CommandLine\<close>); the options parser refines a structural scanner, never
  panics and inverts the encoder (\<open>Args\<close>); \<open>ApplyOptions\<close> equals a declarative specification on every
  path (\<open>ApplyOptions\<close>); accepted connections are enqueued or closed, in order, within the capacity
  (\<open>Accepting\<close>); the pool never exceeds the stream limit, and a dial with a fresh identifier
  forgets a connection only when no smux client can be created on it (\<open>MuxPool\<close>); readers deliver the concatenation of what was written whatever the buffer sizes
  (\<open>Streams\<close>); a delayed websocket connection neither panics nor loses its first bytes (\<open>WsProxy\<close>); a relay
  closes each of its connections exactly once, makes at most six steps besides the rounds of its copies, waits for
  nothing but its dial and the end of one copy, and may leave the other copy behind (\<open>Relay\<close>); it loses no data
  of a copy that has not failed, and what is cut off by a half-close is exactly stated (\<open>Duplex\<close>); the message to the VPN service passes exactly one descriptor and stays in its buffer
  (\<open>AncilFd\<close>, \<open>Hooks\<close>). Where the code leaves a connection open, blocks
  or drops an error, the model does the same and a theorem says so.

  Bounds and termination. All loops over data are total functions: the parser by the distance to the
  end of the text, base64 and address parsing by the length of the rest, the flags by the number of
  arguments, the loop over descriptors by the number that is left. Loops over events are
  recursions over the sequence of events, so a loop that is still waiting is a value and not a
  missing result. \<open>copyBuffer\<close> has a number of rounds, since a copy may go on for ever; one round more
  than the number of bytes and messages to come is enough, and \<open>copy_complete\<close> says so. A blocking read
  is \<open>None\<close>. Positions and lengths of texts are natural numbers; options are 64-bit words, compared as
  signed numbers where the code converts them.

  Not modelled: the libraries (smux, gorilla/websocket, quic-go, uTLS, crypto/tls, grpc, net/http,
  logrus), which are arguments of the definitions that use them; the generated code of
  src/gost/protocol/gun (a hunk is its bytes); the output of log messages and of usage texts; \<open>generateMuxID\<close>, whose
  random number is an argument. Time is an argument where the code reads
  the clock. In \<open>Tunnel\<close> the network neither reorders nor duplicates the messages of a connection, which
  the transports guarantee; that it loses them is an error at the end that misses them. In \<open>MuxTunnel\<close> a stream
  that smux opens is new, and the end of a session is an error at the ends of its streams; that the streams of a
  session share a receive buffer and can hold each other up is not modelled, so only what never happens is
  claimed of them, not what is achieved.
\<close>

section \<open>Properties that span components\<close>

lemma newHandler_server:
  assumes "newHandler (init_packages empty_registry) env g o1 = Inr (Handler l t)" and "Server o1"
  shows "\<exists>ctor left. map_of listener_table (Mode o1) = Some ctor \<and> run_ListenerCreator env ctor o1 = (Inr l, left) \<and> t = TCPTransporter"
  using assms
  by (auto simp: newHandler_def listener_lookup NewTCPTransporter_def split: option.splits sum.splits)
    (metis prod.collapse)

lemma newHandler_client:
  assumes "newHandler (init_packages empty_registry) env g o1 = Inr (Handler l t)" and "\<not> Server o1"
  shows "\<exists>ctor. map_of transporter_table (Mode o1) = Some ctor \<and> run_TransporterCreator g ctor o1 = Inr t \<and> NewTCPListener env o1 = Inr l"
  using assms
  by (auto simp: newHandler_def transporter_lookup split: option.splits sum.splits)

text \<open>
  C9: A client and a server that both start in the same mode fit together, whatever their other options:
  towards the application and the target they speak plain TCP, and between them the transporter of the
  client and the listener of the server have the same stack of layers.
\<close>

theorem client_server_match:
  assumes "newHandler (init_packages empty_registry) env_c g_c o_c = Inr (Handler l_c t_c)"
    and "newHandler (init_packages empty_registry) env_s g_s o_s = Inr (Handler l_s t_s)"
    and "\<not> Server o_c" and "Server o_s" and "Mode o_c = Mode o_s"
  shows "listener_layers l_c = [L_TCP] \<and> transporter_layers t_s = [L_TCP] \<and>
    transporter_layers t_c = listener_layers l_s"
proof -
  obtain tctor where t: "map_of transporter_table (Mode o_c) = Some tctor" "run_TransporterCreator g_c tctor o_c = Inr t_c"
      "NewTCPListener env_c o_c = Inr l_c"
    using newHandler_client [OF assms(1,3)] by blast
  obtain lctor left where l: "map_of listener_table (Mode o_s) = Some lctor" "run_ListenerCreator env_s lctor o_s = (Inr l_s, left)"
      "t_s = TCPTransporter"
    using newHandler_server [OF assms(2,4)] by blast
  have "listener_layers l_c = creator_layers Ctor_NewTCPListener"
    using t(3) by (intro listener_layers_creator [of env_c _ o_c _ "[]"]) simp
  moreover have "transporter_layers t_c = listener_layers l_s"
    using transporter_layers_creator [OF t(2,1)] l(1) listener_layers_creator [OF l(2)] assms(5) by simp
  ultimately show ?thesis using l(3) by simp
qed

theorem client_server_match_witness:
  "\<exists>env l_c t_c l_s t_s.
     newHandler (init_packages empty_registry :: unit plugin_registry) env (\<lambda>_ _. None) (flag_defaults\<lparr>Mode := ''wss''\<rparr>)
       = Inr (Handler l_c t_c :: (nat, nat) handler) \<and>
     newHandler (init_packages empty_registry :: unit plugin_registry) env (\<lambda>_ _. None) (flag_defaults\<lparr>Mode := ''wss'', Server := True, Cert := ''c'', Key := ''k''\<rparr>)
       = Inr (Handler l_s t_s) \<and>
     transporter_layers t_c = listener_layers l_s"
proof -
  let ?env = "demo_env\<lparr>env_resolve_tcp := \<lambda>_. Inr (''127.0.0.1'', 1984)\<rparr>"
  let ?oc = "flag_defaults\<lparr>Mode := ''wss''\<rparr>"
  let ?os = "flag_defaults\<lparr>Mode := ''wss'', Server := True, Cert := ''c'', Key := ''k''\<rparr>"
  have listen: "Listen ?env (Some (ResolveTCPAddr ?env (GetLocalAddr o1))) = Inr 3" for o1
    by (simp add: Listen_def ResolveTCPAddr_def demo_env_def JoinHostPort_def)
  have cert: "\<not> isl (buildServerTLSConfig ?env ?os)" by (simp add: buildServerTLSConfig_def demo_env_def)
  have s: "\<not> Server ?oc" "Server ?os" "Mode ?oc = Mode ?os" by (simp_all add: flag_defaults_def)
  obtain l_c t_c where c: "newHandler (init_packages empty_registry :: unit plugin_registry) ?env (\<lambda>_ _. None) ?oc = Inr (Handler l_c t_c)"
    using s(1) by (simp add: newHandler_def transporter_lookup transporter_table_def NewTCPListener_base listen
        transporter_constructors)
  obtain l where "run_ListenerCreator ?env Ctor_NewWSSListener ?os = (Inr l, [])"
    using tcp_based_outcome [of Ctor_NewWSSListener ?env ?os] cert
    by (auto simp: listen late_failure_defs flag_defaults_def split: sum.splits)
  then obtain l_s t_s where h: "newHandler (init_packages empty_registry :: unit plugin_registry) ?env (\<lambda>_ _. None) ?os = Inr (Handler l_s t_s)"
    using s(2) by (simp add: newHandler_def listener_lookup listener_table_def NewTCPTransporter_def)
  have "transporter_layers t_c = listener_layers l_s" using client_server_match [OF c h s] by blast
  with c h show ?thesis by blast
qed

text \<open>
  End to end in gun mode. The client relays what arrives from the application on a TCP connection,
  the server relays the hunks it receives, in the order they were sent, to the target. Whatever the
  number of rounds of the two copies, the target has received a prefix of what the application
  sent; with enough rounds and no errors it has received all of it.
\<close>

theorem gun_end_to_end:
  assumes "copyBuffer k tcp_Read (gun_Write None) app (NewGunConnection answers pr None) = (st1, app', c)"
    and "copyBuffer m gun_Read tcp_Write (NewGunConnection (map Inr (gun_sent c)) pr2 loc) target = (st2, s, target')"
  shows "(\<exists>d rest. tcp_remaining app = d @ rest \<and> tcp_out target' = tcp_out target @ d) \<and>
    ((\<forall>a \<in> set (tcp_answers app). snd a = None) \<and>
     length (tcp_remaining app) + length (tcp_answers app) < k \<and>
     length (tcp_remaining app) + length (gun_sent c) < m \<longrightarrow>
       tcp_out target' = tcp_out target @ tcp_remaining app)"
proof -
  let ?g = "NewGunConnection answers pr None" and ?s = "NewGunConnection (map Inr (gun_sent c)) pr2 loc"
  have g0: "concat (gun_sent ?g) = []" by (simp add: NewGunConnection_def)
  have rs: "gun_remaining ?s = concat (gun_sent c)" and hs: "\<forall>a \<in> set (gun_recv ?s). \<not> isl a"
    and ls: "length (gun_recv ?s) = length (gun_sent c)"
    by (simp_all add: NewGunConnection_def gun_remaining_def o_def)
  obtain d1 rest1 where 1: "tcp_remaining app = d1 @ rest1" "concat (gun_sent c) = d1"
    using tcp_to_gun.copy_split [OF assms(1)] unfolding g0 by auto
  obtain d2 rest2 where 2: "d1 = d2 @ rest2" "tcp_out target' = tcp_out target @ d2"
    using gun_to_tcp.copy_split [OF assms(2)] unfolding rs 1(2) by blast
  have "tcp_out target' = tcp_out target @ tcp_remaining app"
    if "\<forall>a \<in> set (tcp_answers app). snd a = None"
      "length (tcp_remaining app) + length (tcp_answers app) < k"
      "length (tcp_remaining app) + length (gun_sent c) < m"
  proof -
    have "concat (gun_sent c) = tcp_remaining app"
      using tcp_to_gun.copy_complete [OF _ that(1,2) assms(1)] by (simp add: gun_Write_def g0)
    then show ?thesis
      using gun_to_tcp.copy_complete [OF _ hs _ assms(2)] that(3) by (simp add: tcp_Write_def rs ls)
  qed
  then show ?thesis using 1(1) 2 by auto
qed

definition demo_app :: "bytes list \<Rightarrow> tcp_conn" where
  "demo_app segments = \<lparr>tcp_answers = map (\<lambda>d. (d, None)) segments, tcp_rb = [], tcp_out = []\<rparr>"

definition demo_target :: tcp_conn where
  "demo_target = \<lparr>tcp_answers = [], tcp_rb = [], tcp_out = []\<rparr>"

lemma demo_reads:
  "length d \<le> 32768 \<Longrightarrow> tcp_Read 32768 (demo_app (d # ds)) = Some ((d, None), demo_app ds)"
  "tcp_Read 32768 (demo_app []) = None"
  by (simp_all add: tcp_Read_def demo_app_def)

lemma demo_chunks:
  "d \<noteq> [] \<Longrightarrow> copy_chunk (gun_Write None) d g = (None, g\<lparr>gun_sent := gun_sent g @ [d]\<rparr>)"
  "d \<noteq> [] \<Longrightarrow> copy_chunk (ws_Write None) d c = (None, c\<lparr>ws_sent := ws_sent c @ [d]\<rparr>)"
  by (simp_all add: copy_chunk_def gun_Write_def ws_Write_def)

lemma copyBuffer_demo:
  "length d \<le> 32768 \<Longrightarrow> copy_chunk wr d w = (None, w') \<Longrightarrow>
     copyBuffer (Suc k) tcp_Read wr (demo_app (d # ds)) w = copyBuffer k tcp_Read wr (demo_app ds) w'"
  "copyBuffer (Suc k) tcp_Read wr (demo_app []) w = (CopyBlocked, demo_app [], w)"
  by (simp_all add: demo_reads)

theorem gun_end_to_end_witness:
  "tcp_out (snd (snd (copyBuffer 10 gun_Read tcp_Write (NewGunConnection [Inr ''ab'', Inr ''c''] None None) demo_target))) = ''abc''"
proof -
  have c: "copyBuffer (Suc (Suc (Suc (Suc (Suc (Suc (Suc 0))))))) tcp_Read (gun_Write None) (demo_app [''ab'', ''c'']) (NewGunConnection [] None None) =
      (CopyBlocked, demo_app [], (NewGunConnection [] None None)\<lparr>gun_sent := [''ab'', ''c'']\<rparr>)"
    by (simp add: copyBuffer_demo demo_chunks del: copyBuffer.simps) (simp add: NewGunConnection_def)
  let ?s = "NewGunConnection (map Inr (gun_sent ((NewGunConnection [] None None)\<lparr>gun_sent := [''ab'', ''c'']\<rparr>))) None None"
  obtain st s target' where r: "copyBuffer 10 gun_Read tcp_Write ?s demo_target = (st, s, target')"
    by (cases "copyBuffer 10 gun_Read tcp_Write ?s demo_target") auto
  have "tcp_out target' = ''abc''"
    using gun_end_to_end [OF c r] by (simp add: demo_app_def demo_target_def tcp_remaining_def)
  with r show ?thesis by simp
qed

text \<open>
  End to end over websockets, from the application through the client's connection and the one the
  server upgraded, with early data or without: the server's connection starts with the bytes that
  came in the header, and the messages follow in the order they were sent. The target receives a
  prefix of header bytes and application bytes, and all of them with enough rounds and no errors.
\<close>

theorem ws_end_to_end:
  assumes "copyBuffer k tcp_Read (ws_Write None) app (NewWebsocketConn answers []) = (st1, app', c)"
    and "copyBuffer m ws_Read tcp_Write
           (websocketServerConn (map (\<lambda>b. (b, None)) (ws_sent c)) (fst (early_payload (req_header (ws_request o1 url ed))))) target
         = (st2, s, target')"
  shows "(\<exists>d rest. (case ed of None \<Rightarrow> [] | Some e \<Rightarrow> e) @ tcp_remaining app = d @ rest \<and> tcp_out target' = tcp_out target @ d) \<and>
    ((\<forall>a \<in> set (tcp_answers app). snd a = None) \<and>
     length (tcp_remaining app) + length (tcp_answers app) < k \<and>
     length (case ed of None \<Rightarrow> [] | Some e \<Rightarrow> e) + length (tcp_remaining app) + length (ws_sent c) < m \<longrightarrow>
       tcp_out target' = tcp_out target @ (case ed of None \<Rightarrow> [] | Some e \<Rightarrow> e) @ tcp_remaining app)"
proof -
  define early where "early = (case ed of None \<Rightarrow> [] | Some e \<Rightarrow> e)"
  let ?g = "NewWebsocketConn answers []" and ?s = "websocketServerConn (map (\<lambda>b. (b, None)) (ws_sent c)) early"
  have a2: "copyBuffer m ws_Read tcp_Write ?s target = (st2, s, target')"
    using assms(2) by (simp add: early_payload_request early_def)
  have g0: "concat (ws_sent ?g) = []" by (simp add: NewWebsocketConn_def)
  have rs: "ws_remaining ?s = early @ concat (ws_sent c)" and hs: "\<forall>a \<in> set (ws_answers ?s). snd a = None"
    and ls: "length (ws_answers ?s) = length (ws_sent c)"
    by (simp_all add: websocketServerConn_def NewWebsocketConn_def ws_remaining_def o_def)
  obtain d1 rest1 where 1: "tcp_remaining app = d1 @ rest1" "concat (ws_sent c) = d1"
    using tcp_to_ws.copy_split [OF assms(1)] unfolding g0 by auto
  obtain d2 rest2 where 2: "early @ d1 = d2 @ rest2" "tcp_out target' = tcp_out target @ d2"
    using ws_to_tcp.copy_split [OF a2] unfolding rs 1(2) by blast
  have "early @ tcp_remaining app = d2 @ rest2 @ rest1" using 1(1) 2(1) by (simp flip: append_assoc)
  then have "\<exists>d rest. early @ tcp_remaining app = d @ rest \<and> tcp_out target' = tcp_out target @ d" using 2(2) by blast
  moreover have "tcp_out target' = tcp_out target @ early @ tcp_remaining app"
    if "\<forall>a \<in> set (tcp_answers app). snd a = None"
      "length (tcp_remaining app) + length (tcp_answers app) < k"
      "length early + length (tcp_remaining app) + length (ws_sent c) < m"
  proof -
    have "concat (ws_sent c) = tcp_remaining app"
      using tcp_to_ws.copy_complete [OF _ that(1,2) assms(1)] by (simp add: ws_Write_def g0)
    then show ?thesis
      using ws_to_tcp.copy_complete [OF _ hs _ a2] that(3) by (simp add: tcp_Write_def rs ls)
  qed
  ultimately show ?thesis unfolding early_def by blast
qed


theorem ws_end_to_end_witness:
  "tcp_out (snd (snd (copyBuffer 10 ws_Read tcp_Write
      (websocketServerConn [(''cd'', None)] (fst (early_payload (req_header (ws_request flag_defaults ''wss://h/'' (Some ''ab'')))))) demo_target)))
    = ''abcd''"
proof -
  have c: "copyBuffer (Suc (Suc (Suc (Suc (Suc (Suc (Suc 0))))))) tcp_Read (ws_Write None) (demo_app [''cd'']) (NewWebsocketConn [] []) =
      (CopyBlocked, demo_app [], \<lparr>ws_answers = [], ws_sent = [''cd''], ws_rb = [], ws_closes = 0\<rparr>)"
    by (simp add: copyBuffer_demo demo_chunks del: copyBuffer.simps) (simp add: NewWebsocketConn_def)
  let ?s = "websocketServerConn (map (\<lambda>b. (b, None)) (ws_sent \<lparr>ws_answers = [], ws_sent = [''cd''], ws_rb = [], ws_closes = 0\<rparr>))
      (fst (early_payload (req_header (ws_request flag_defaults ''wss://h/'' (Some ''ab'')))))"
  obtain st s target' where r: "copyBuffer 10 ws_Read tcp_Write ?s demo_target = (st, s, target')"
    by (cases "copyBuffer 10 ws_Read tcp_Write ?s demo_target") auto
  have "tcp_out target' = ''abcd''"
    using ws_end_to_end [OF c r] by (simp add: demo_app_def demo_target_def tcp_remaining_def)
  with r show ?thesis by simp
qed
end
